(* ===== verification/Difz_Prelude.thy ===== *)
theory Difz_Prelude
  imports Main "HOL-Library.Word" "HOL-Library.List_Lexorder" "HOL-Library.Product_Lexorder"
begin

text \<open>
  Shared vocabulary of the development.
  \<^item> Machine integers are words of their width; byte slices are lists of 8-bit words. A length
    is a natural number, and where the code writes \<open>len() as u64\<close> or \<open>len() as u32\<close>
    the model writes the truncating conversion to the word type.
  \<^item> Rust's \<open>Result\<close> is the sum type (\<open>Inl\<close> is \<open>Err\<close>), and the \<open>?\<close> operator is
    \<open>and_then\<close>.
  \<^item> \<open>usize\<close> is 64 bits wide. Rust never builds a slice of more than \<open>isize::MAX\<close> bytes;
    a theorem that needs this says \<open>in_memory\<close>.
  \<^item> Every fallible allocation (\<open>try_reserve\<close>, \<open>try_reserve_exact\<close>) asks an allocator, a
    predicate on the number of requested elements that is an argument of the operation, so each
    \<open>OutOfMemory\<close> branch of the code is a branch of the model.
  \<^item> Byte strings, little-endian integers, slice splitting and UTF-8 are modelled as the
    standard library documents them.
\<close>

unbundle bit_operations_syntax

type_synonym u8 = "8 word"
type_synonym u16 = "16 word"
type_synonym u32 = "32 word"
type_synonym u64 = "64 word"
type_synonym bytes = "u8 list"
type_synonym usize = nat
type_synonym allocator = "nat \<Rightarrow> bool"

named_theorems result_simps "inversion of the result combinators"
named_theorems le_simps "little-endian conversions at the widths of the wire formats"

section \<open>Results\<close>

fun and_then :: "'e + 'a \<Rightarrow> ('a \<Rightarrow> 'e + 'b) \<Rightarrow> 'e + 'b" where
  "and_then (Inl e) f = Inl e"
| "and_then (Inr x) f = f x"

fun map_err :: "('e \<Rightarrow> 'f) \<Rightarrow> 'e + 'a \<Rightarrow> 'f + 'a" where
  "map_err g (Inl e) = Inl (g e)"
| "map_err g (Inr x) = Inr x"

fun ok_or :: "'e \<Rightarrow> 'a option \<Rightarrow> 'e + 'a" where
  "ok_or e None = Inl e"
| "ok_or e (Some x) = Inr x"

definition reserve :: "allocator \<Rightarrow> nat \<Rightarrow> 'e \<Rightarrow> 'e + unit" where
  "reserve mem n e = (if mem n then Inr () else Inl e)"

text \<open>A loop whose body may return early: the first error stops it.\<close>

fun for_each :: "('a \<Rightarrow> 'e + unit) \<Rightarrow> 'a list \<Rightarrow> 'e + unit" where
  "for_each f [] = Inr ()"
| "for_each f (x # xs) = and_then (f x) (\<lambda>_. for_each f xs)"

section \<open>Sizes and checked arithmetic\<close>

definition in_memory :: "'a list \<Rightarrow> bool" where
  "in_memory xs \<longleftrightarrow> length xs < 2 ^ 63"

definition checked_add_usize :: "usize \<Rightarrow> usize \<Rightarrow> usize option" where
  "checked_add_usize a b = (if a + b < 2 ^ 64 then Some (a + b) else None)"

definition checked_mul_usize :: "usize \<Rightarrow> usize \<Rightarrow> usize option" where
  "checked_mul_usize a b = (if a * b < 2 ^ 64 then Some (a * b) else None)"

definition checked_add :: "'a::len word \<Rightarrow> 'a word \<Rightarrow> 'a word option" where
  "checked_add a b = (if unat a + unat b < 2 ^ LENGTH('a) then Some (a + b) else None)"

definition checked_mul :: "'a::len word \<Rightarrow> 'a word \<Rightarrow> 'a word option" where
  "checked_mul a b = (if unat a * unat b < 2 ^ LENGTH('a) then Some (a * b) else None)"

definition checked_sub :: "'a::len word \<Rightarrow> 'a word \<Rightarrow> 'a word option" where
  "checked_sub a b = (if b \<le> a then Some (a - b) else None)"

definition as_u32 :: "nat \<Rightarrow> u32" where
  "as_u32 n = of_nat n"

definition as_u64 :: "nat \<Rightarrow> u64" where
  "as_u64 n = of_nat n"

definition u32_try_from :: "nat \<Rightarrow> u32 option" where
  "u32_try_from n = (if n < 2 ^ 32 then Some (of_nat n) else None)"

section \<open>Slices\<close>

definition get_range :: "'a list \<Rightarrow> nat \<Rightarrow> nat \<Rightarrow> 'a list option" where
  "get_range xs a b = (if a \<le> b \<and> b \<le> length xs then Some (take (b - a) (drop a xs)) else None)"

definition starts_with :: "'a list \<Rightarrow> 'a list \<Rightarrow> bool" where
  "starts_with xs p \<longleftrightarrow> take (length p) xs = p"

definition ends_with :: "'a list \<Rightarrow> 'a list \<Rightarrow> bool" where
  "ends_with xs s \<longleftrightarrow> length s \<le> length xs \<and> drop (length xs - length s) xs = s"

definition strip_prefix :: "'a list \<Rightarrow> 'a list \<Rightarrow> 'a list option" where
  "strip_prefix xs p = (if starts_with xs p then Some (drop (length p) xs) else None)"

text \<open>\<open>slice::split\<close>: a separator between any two parts, so one more part than separators.\<close>

fun split_on :: "'a \<Rightarrow> 'a list \<Rightarrow> 'a list list" where
  "split_on s [] = [[]]"
| "split_on s (x # xs) =
     (if x = s then [] # split_on s xs
      else (case split_on s xs of [] \<Rightarrow> [[x]] | p # ps \<Rightarrow> (x # p) # ps))"

section \<open>Little-endian integers\<close>

definition le_bytes :: "'a::len word \<Rightarrow> bytes" where
  "le_bytes w = map (\<lambda>i. ucast (drop_bit (8 * i) w)) [0..<LENGTH('a) div 8]"

primrec le_word :: "bytes \<Rightarrow> 'a::len word" where
  "le_word [] = 0"
| "le_word (b # bs) = ucast b OR push_bit 8 (le_word bs)"

section \<open>ASCII and UTF-8\<close>

definition ascii :: "string \<Rightarrow> bytes" where
  "ascii s = map of_char s"

definition is_ascii_alphabetic :: "u8 \<Rightarrow> bool" where
  "is_ascii_alphabetic b \<longleftrightarrow> (65 \<le> b \<and> b \<le> 90) \<or> (97 \<le> b \<and> b \<le> 122)"

definition is_ascii_digit :: "u8 \<Rightarrow> bool" where
  "is_ascii_digit b \<longleftrightarrow> 48 \<le> b \<and> b \<le> 57"

definition to_ascii_lowercase :: "u8 \<Rightarrow> u8" where
  "to_ascii_lowercase b = (if 65 \<le> b \<and> b \<le> 90 then b + 32 else b)"

definition eq_ignore_ascii_case :: "bytes \<Rightarrow> bytes \<Rightarrow> bool" where
  "eq_ignore_ascii_case xs ys \<longleftrightarrow> map to_ascii_lowercase xs = map to_ascii_lowercase ys"

text \<open>
  \<open>core::str::from_utf8\<close> followed by \<open>chars\<close>: the scalar values of a well-formed UTF-8 string
  (the byte ranges of the Unicode standard, without overlong forms and surrogates), or None.
\<close>

definition utf8_cont :: "u8 \<Rightarrow> bool" where
  "utf8_cont b \<longleftrightarrow> 0x80 \<le> b \<and> b \<le> 0xBF"

definition utf8_bits :: "u8 \<Rightarrow> nat" where
  "utf8_bits b = unat b - 0x80"

fun utf8_decode :: "bytes \<Rightarrow> nat list option" where
  "utf8_decode [] = Some []"
| "utf8_decode (a # xs) =
    (if a < 0x80 then map_option ((#) (unat a)) (utf8_decode xs)
     else if 0xC2 \<le> a \<and> a \<le> 0xDF then
       (case xs of
          b # ys \<Rightarrow>
            if utf8_cont b
            then map_option ((#) ((unat a - 0xC0) * 64 + utf8_bits b)) (utf8_decode ys)
            else None
        | _ \<Rightarrow> None)
     else if 0xE0 \<le> a \<and> a \<le> 0xEF then
       (case xs of
          b # c # ys \<Rightarrow>
            if utf8_cont b \<and> utf8_cont c \<and> (a = 0xE0 \<longrightarrow> 0xA0 \<le> b) \<and> (a = 0xED \<longrightarrow> b \<le> 0x9F)
            then map_option
                   ((#) ((unat a - 0xE0) * 4096 + utf8_bits b * 64 + utf8_bits c))
                   (utf8_decode ys)
            else None
        | _ \<Rightarrow> None)
     else if 0xF0 \<le> a \<and> a \<le> 0xF4 then
       (case xs of
          b # c # d # ys \<Rightarrow>
            if utf8_cont b \<and> utf8_cont c \<and> utf8_cont d \<and> (a = 0xF0 \<longrightarrow> 0x90 \<le> b)
              \<and> (a = 0xF4 \<longrightarrow> b \<le> 0x8F)
            then map_option
                   ((#) ((unat a - 0xF0) * 262144 + utf8_bits b * 4096 + utf8_bits c * 64
                         + utf8_bits d))
                   (utf8_decode ys)
            else None
        | _ \<Rightarrow> None)
     else None)"

definition from_utf8_ok :: "bytes \<Rightarrow> bool" where
  "from_utf8_ok bs \<longleftrightarrow> utf8_decode bs \<noteq> None"

section \<open>Lemmas on results\<close>

lemma and_then_Inr [result_simps]:
  "and_then r f = Inr y \<longleftrightarrow> (\<exists>x. r = Inr x \<and> f x = Inr y)"
  by (cases r) auto

lemma and_then_pair_Inr [result_simps]:
  "and_then r (\<lambda>(x, y). f x y) = Inr z \<longleftrightarrow> (\<exists>x y. r = Inr (x, y) \<and> f x y = Inr z)"
  by (cases r) auto

lemma and_then_Inl [result_simps]:
  "and_then r f = Inl e \<longleftrightarrow> r = Inl e \<or> (\<exists>x. r = Inr x \<and> f x = Inl e)"
  by (cases r) auto

lemma map_err_Inr [result_simps]: "map_err g r = Inr y \<longleftrightarrow> r = Inr y"
  by (cases r) auto

lemma map_err_Inl [result_simps]: "map_err g r = Inl e \<longleftrightarrow> (\<exists>d. r = Inl d \<and> e = g d)"
  by (cases r) auto

lemma ok_or_Inr [result_simps]: "ok_or e r = Inr y \<longleftrightarrow> r = Some y"
  by (cases r) auto

lemma ok_or_Inl [result_simps]: "ok_or e r = Inl d \<longleftrightarrow> r = None \<and> d = e"
  by (cases r) auto

lemma reserve_Inr [result_simps]: "reserve mem n e = Inr y \<longleftrightarrow> mem n"
  by (simp add: reserve_def)

lemma reserve_Inl [result_simps]: "reserve mem n e = Inl d \<longleftrightarrow> \<not> mem n \<and> d = e"
  by (auto simp: reserve_def)

lemma reserve_then: "and_then (reserve mem n e) f = Inr y \<longleftrightarrow> mem n \<and> f () = Inr y"
  by (simp add: reserve_def)

lemma reserve_granted [simp]: "mem n \<Longrightarrow> reserve mem n e = Inr ()"
  by (simp add: reserve_def)

lemma if_err_Inr [result_simps]: "(if b then Inl e else r) = Inr y \<longleftrightarrow> \<not> b \<and> r = Inr y"
  by simp

lemma for_each_Inr [result_simps]:
  "for_each f xs = Inr u \<longleftrightarrow> (\<forall>x \<in> set xs. f x = Inr ())"
  by (induction xs) (auto simp: and_then_Inr)

section \<open>Lemmas on sizes and slices\<close>

lemma unat_as_u32 [simp]: "n < 2 ^ 32 \<Longrightarrow> unat (as_u32 n) = n"
  by (simp add: as_u32_def unsigned_of_nat take_bit_nat_eq_self)

lemma unat_as_u64 [simp]: "n < 2 ^ 64 \<Longrightarrow> unat (as_u64 n) = n"
  by (simp add: as_u64_def unsigned_of_nat take_bit_nat_eq_self)

lemma as_u32_unat [simp]: "as_u32 (unat w) = w"
  by (simp add: as_u32_def)

lemma as_u64_unat [simp]: "as_u64 (unat w) = w"
  by (simp add: as_u64_def)

lemma unat_as_u64_le: "unat (as_u64 n) \<le> n"
  by (simp add: as_u64_def unsigned_of_nat take_bit_nat_less_eq_self)

lemma as_u64_inj: "m < 2 ^ 64 \<Longrightarrow> n < 2 ^ 64 \<Longrightarrow> as_u64 m = as_u64 n \<longleftrightarrow> m = n"
  by (metis unat_as_u64)

lemma as_u32_inj: "m < 2 ^ 32 \<Longrightarrow> n < 2 ^ 32 \<Longrightarrow> as_u32 m = as_u32 n \<longleftrightarrow> m = n"
  by (metis unat_as_u32)

lemma u32_in_memory: "length bs < 2 ^ 32 \<Longrightarrow> in_memory bs"
  by (simp add: in_memory_def)

lemma u32_count: "k = unat (n :: u32) \<longleftrightarrow> k < 2 ^ 32 \<and> n = as_u32 k"
  using unsigned_less [of n, where 'a = nat] by auto

lemma in_memory_u64: "in_memory xs \<Longrightarrow> length xs < 2 ^ 64"
  by (simp add: in_memory_def)

lemma in_memory_u64_numeral [simp]: "in_memory xs \<Longrightarrow> length xs < 18446744073709551616"
  by (simp add: in_memory_def)

text \<open>Evaluation of the range checks on binary integers.\<close>

lemma range_check_code [code]:
  "u32_try_from n = (if int n < 4294967296 then Some (of_nat n) else None)"
  "checked_add_usize a b = (if int a + int b < 18446744073709551616 then Some (a + b) else None)"
  "checked_mul_usize a b = (if int a * int b < 18446744073709551616 then Some (a * b) else None)"
proof -
  have "n < 2 ^ 32 \<longleftrightarrow> int n < 4294967296" by simp
  then show "u32_try_from n = (if int n < 4294967296 then Some (of_nat n) else None)"
    by (simp add: u32_try_from_def)
  have "a + b < 2 ^ 64 \<longleftrightarrow> int a + int b < 18446744073709551616"
    by (simp, presburger)
  then show "checked_add_usize a b = (if int a + int b < 18446744073709551616 then Some (a + b) else None)"
    by (simp add: checked_add_usize_def)
  have "int (a * b) < int (2 ^ 64) \<longleftrightarrow> int a * int b < 18446744073709551616" by simp
  then have "a * b < 2 ^ 64 \<longleftrightarrow> int a * int b < 18446744073709551616" by (metis of_nat_less_iff)
  then show "checked_mul_usize a b = (if int a * int b < 18446744073709551616 then Some (a * b) else None)"
    by (simp add: checked_mul_usize_def)
qed

lemma checked_add_code [code]: "checked_add a b = (if a \<le> a + b then Some (a + b) else None)"
  by (simp add: checked_add_def no_olen_add_nat)

lemma checked_mul_code [code]:
  "checked_mul (a :: 'a::len word) b = (if uint a * uint b < 2 ^ LENGTH('a) then Some (a * b) else None)"
proof -
  have "int (unat a * unat b) < int (2 ^ LENGTH('a)) \<longleftrightarrow> uint a * uint b < 2 ^ LENGTH('a)" by simp
  then have "unat a * unat b < 2 ^ LENGTH('a) \<longleftrightarrow> uint a * uint b < 2 ^ LENGTH('a)"
    by (simp only: of_nat_less_iff)
  then show ?thesis by (simp add: checked_mul_def)
qed

lemma get_range_append [simp]: "get_range (xs @ ys) 0 (length xs) = Some xs"
  by (simp add: get_range_def)

lemma get_range_Some:
  "get_range xs a b = Some ys \<longleftrightarrow> a \<le> b \<and> b \<le> length xs \<and> ys = take (b - a) (drop a xs)"
  by (auto simp: get_range_def)

lemma take_drop_chunk: "k = m + n \<Longrightarrow> take n (drop m xs) @ drop k xs = drop m xs"
  by (metis add.commute append_take_drop_id drop_drop)

lemma ex_append_Cons:
  "(\<exists>xs ys. z # zs = xs @ ys \<and> P xs ys) \<longleftrightarrow> P [] (z # zs) \<or> (\<exists>xs ys. zs = xs @ ys \<and> P (z # xs) ys)"
  (is "?L \<longleftrightarrow> ?R")
proof
  assume ?L
  then obtain xs ys where "z # zs = xs @ ys" and "P xs ys" by blast
  then show ?R by (cases xs) auto
next
  assume ?R
  then show ?L
  proof
    assume "P [] (z # zs)"
    then show ?L by (metis append_Nil)
  next
    assume "\<exists>xs ys. zs = xs @ ys \<and> P (z # xs) ys"
    then show ?L by (metis append_Cons)
  qed
qed

lemma split_on_not_Nil [simp]: "split_on s xs \<noteq> []"
  by (induction xs) (auto split: list.splits)

lemma split_on_append_sep: "split_on s (xs @ s # ys) = split_on s xs @ split_on s ys"
  by (induction xs) (auto split: list.splits)

lemma split_on_no_sep: "s \<notin> set xs \<Longrightarrow> split_on s xs = [xs]"
  by (induction xs) auto

lemma split_on_parts: "p \<in> set (split_on s xs) \<Longrightarrow> s \<notin> set p"
  by (induction xs arbitrary: p) (auto split: list.splits if_splits)

lemma length_split_on: "length (split_on s xs) = Suc (length (filter (\<lambda>x. x = s) xs))"
  by (induction xs) (auto split: list.splits)

section \<open>Lemmas on little-endian integers\<close>

lemma length_le_bytes [simp]: "length (le_bytes (w :: 'a::len word)) = LENGTH('a) div 8"
  by (simp add: le_bytes_def)

lemma bit_le_word:
  "bit (le_word bs :: 'a::len word) i \<longleftrightarrow>
     i < LENGTH('a) \<and> i div 8 < length bs \<and> bit (bs ! (i div 8)) (i mod 8)"
proof (induction bs arbitrary: i)
  case Nil
  show ?case by simp
next
  case (Cons b bs)
  show ?case
  proof (cases "i < 8")
    case True
    then show ?thesis
      by (auto simp: bit_or_iff bit_ucast_iff bit_push_bit_iff)
  next
    case False
    then obtain j where j: "i = j + 8" by (metis add.commute le_add_diff_inverse not_less)
    have "\<not> bit b i" using False bit_imp_le_length [of b i] by auto
    moreover have "bit (push_bit 8 (le_word bs :: 'a word)) i
        = (i < LENGTH('a) \<and> bit (le_word bs :: 'a word) j)"
      by (simp add: j bit_push_bit_iff conj_commute)
    moreover have "(j + 8) div 8 = Suc (j div 8)" and "(j + 8) mod 8 = j mod 8"
      by simp_all
    ultimately show ?thesis
      using Cons.IH [of j] by (auto simp: j bit_or_iff bit_ucast_iff simp del: bit_push_bit_iff)
  qed
qed

lemma le_word_bytes:
  assumes "8 dvd LENGTH('a)"
  shows "le_word (le_bytes (w :: 'a::len word)) = w"
proof (rule bit_word_eqI)
  fix i assume i: "i < LENGTH('a)"
  have "i div 8 < LENGTH('a) div 8"
    using i assms by (metis div_less_iff_less_mult dvd_div_mult_self zero_less_numeral)
  then show "bit (le_word (le_bytes w) :: 'a word) i = bit w i"
    using i by (auto simp: bit_le_word le_bytes_def bit_ucast_iff bit_drop_bit_eq)
qed

lemma le_bytes_word:
  assumes "8 dvd LENGTH('a)" and "length bs = LENGTH('a) div 8"
  shows "le_bytes (le_word bs :: 'a::len word) = bs"
proof (rule nth_equalityI)
  show "length (le_bytes (le_word bs :: 'a word)) = length bs" using assms by simp
next
  fix i assume "i < length (le_bytes (le_word bs :: 'a word))"
  then have i: "i < LENGTH('a) div 8" by simp
  show "le_bytes (le_word bs :: 'a word) ! i = bs ! i"
  proof (rule bit_word_eqI)
    fix j assume j: "j < LENGTH(8)"
    then have "8 * i + j < LENGTH('a)" using i assms(1) by auto
    then show "bit (le_bytes (le_word bs :: 'a word) ! i) j = bit (bs ! i) j"
      using i j assms by (auto simp: le_bytes_def bit_ucast_iff bit_drop_bit_eq bit_le_word)
  qed
qed

lemma le_word_bytes_widths [simp, le_simps]:
  "le_word (le_bytes (w16 :: u16)) = w16"
  "le_word (le_bytes (w32 :: u32)) = w32"
  "le_word (le_bytes (w64 :: u64)) = w64"
  by (rule le_word_bytes, simp)+

lemma le_bytes_word_widths [simp, le_simps]:
  "length bs = 2 \<Longrightarrow> le_bytes (le_word bs :: u16) = bs"
  "length bs = 4 \<Longrightarrow> le_bytes (le_word bs :: u32) = bs"
  "length bs = 8 \<Longrightarrow> le_bytes (le_word bs :: u64) = bs"
  by (simp_all add: le_bytes_word)

lemma le_bytes_inj [simp]:
  "le_bytes (a16 :: u16) = le_bytes b16 \<longleftrightarrow> a16 = b16"
  "le_bytes (a32 :: u32) = le_bytes b32 \<longleftrightarrow> a32 = b32"
  "le_bytes (a64 :: u64) = le_bytes b64 \<longleftrightarrow> a64 = b64"
  by (metis le_word_bytes_widths)+

end
