(* ===== verification/Metadata_Base.thy ===== *)
theory Metadata_Base
  imports Difz_Prelude
begin

text \<open>
  Portable metadata primitives: \<open>rust/src/metadata.rs\<close> (families and the omission mask, name
  rules, timestamps and their override records) and the raw records of
  \<open>rust/src/metadata_record.rs\<close>. \<open>i64\<close> seconds are carried as their 64-bit pattern, which is all
  the code does with them. The fixed-capacity \<open>InlineBytes\<close> buffer is the list of its used bytes.
\<close>

section \<open>Families and errors\<close>

datatype family = Xattr | Acl | Timestamps | Finder | Sparse | Hardlink

definition family_all :: "family list" where
  "family_all = [Xattr, Acl, Timestamps, Finder, Sparse, Hardlink]"

fun family_tag :: "family \<Rightarrow> nat" where
  "family_tag Xattr = 1"
| "family_tag Acl = 2"
| "family_tag Timestamps = 3"
| "family_tag Finder = 4"
| "family_tag Sparse = 5"
| "family_tag Hardlink = 6"

fun family_name :: "family \<Rightarrow> bytes" where
  "family_name Xattr = ascii ''xattr''"
| "family_name Acl = ascii ''acl''"
| "family_name Timestamps = ascii ''timestamps''"
| "family_name Finder = ascii ''finder''"
| "family_name Sparse = ascii ''sparse''"
| "family_name Hardlink = ascii ''hardlink''"

definition family_bit :: "family \<Rightarrow> u32" where
  "family_bit f = push_bit (family_tag f - 1) 1"

definition family_mask :: u32 where
  "family_mask = foldr (\<lambda>f m. family_bit f OR m) family_all 0"

datatype meta_error = InvalidOmitMask | EmptyFamily | UnknownFamily | DuplicateFamily | InvalidNsec
  | BadMetadata | EmptyName | InvalidLogicalName | ReservedTransportName | InvalidRawName
  | InvalidHardlink | InvalidAceName | OutOfMemory | DuplicateXattr | DuplicateAce | EmptyNativeAcl
  | ZeroLengthHole | HoleOverflow | TruncatedMetadata | TrailingMetadata

section \<open>Wire enumerations\<close>

datatype os = Linux | Macos | Mswin
datatype xattr_class = Logical | Raw
datatype ace_tag = Owner | Group | Everyone | NamedUser | NamedGroup | Mask

fun os_tag :: "os \<Rightarrow> u8" where
  "os_tag Linux = 1" | "os_tag Macos = 2" | "os_tag Mswin = 3"

fun xattr_class_tag :: "xattr_class \<Rightarrow> u8" where
  "xattr_class_tag Logical = 1" | "xattr_class_tag Raw = 2"

fun ace_tag_tag :: "ace_tag \<Rightarrow> u8" where
  "ace_tag_tag Owner = 1" | "ace_tag_tag Group = 2" | "ace_tag_tag Everyone = 3"
| "ace_tag_tag NamedUser = 4" | "ace_tag_tag NamedGroup = 5" | "ace_tag_tag Mask = 6"

definition os_try_from :: "u8 \<Rightarrow> meta_error + os" where
  "os_try_from t = (if t = 1 then Inr Linux else if t = 2 then Inr Macos
     else if t = 3 then Inr Mswin else Inl BadMetadata)"

definition xattr_class_try_from :: "u8 \<Rightarrow> meta_error + xattr_class" where
  "xattr_class_try_from t = (if t = 1 then Inr Logical else if t = 2 then Inr Raw else Inl BadMetadata)"

definition ace_tag_try_from :: "u8 \<Rightarrow> meta_error + ace_tag" where
  "ace_tag_try_from t = (if t = 1 then Inr Owner else if t = 2 then Inr Group
     else if t = 3 then Inr Everyone else if t = 4 then Inr NamedUser
     else if t = 5 then Inr NamedGroup else if t = 6 then Inr Mask else Inl BadMetadata)"

text \<open>The derived orders of the enumerations are the orders of their discriminants.\<close>

lemma xattr_class_tag_inj: "xattr_class_tag a = xattr_class_tag b \<longleftrightarrow> a = b"
  by (cases a; cases b) auto

lemma ace_tag_tag_inj: "ace_tag_tag a = ace_tag_tag b \<longleftrightarrow> a = b"
  by (cases a; cases b) auto

instantiation xattr_class :: linorder
begin

definition less_eq_xattr_class :: "xattr_class \<Rightarrow> xattr_class \<Rightarrow> bool" where
  "less_eq_xattr_class a b \<longleftrightarrow> xattr_class_tag a \<le> xattr_class_tag b"

definition less_xattr_class :: "xattr_class \<Rightarrow> xattr_class \<Rightarrow> bool" where
  "less_xattr_class a b \<longleftrightarrow> xattr_class_tag a < xattr_class_tag b"

instance
  by standard
    (auto simp: less_eq_xattr_class_def less_xattr_class_def xattr_class_tag_inj order.strict_iff_order)

end

instantiation ace_tag :: linorder
begin

definition less_eq_ace_tag :: "ace_tag \<Rightarrow> ace_tag \<Rightarrow> bool" where
  "less_eq_ace_tag a b \<longleftrightarrow> ace_tag_tag a \<le> ace_tag_tag b"

definition less_ace_tag :: "ace_tag \<Rightarrow> ace_tag \<Rightarrow> bool" where
  "less_ace_tag a b \<longleftrightarrow> ace_tag_tag a < ace_tag_tag b"

instance
  by standard
    (auto simp: less_eq_ace_tag_def less_ace_tag_def ace_tag_tag_inj order.strict_iff_order)

end

section \<open>Names\<close>

definition TRANSPORT_NAMES :: "bytes list" where
  "TRANSPORT_NAMES = map ascii [''difz.btime'', ''difz.mtime'', ''difz.finder-info'',
     ''difz.bsd-flags'', ''difz.native-acl'', ''difz.portable-acl'', ''difz.sparse-holes'',
     ''difz.hardlink-to'', ''difz.raw-xattrs'', ''difz.symlinks'']"

definition is_transport_name :: "bytes \<Rightarrow> bool" where
  "is_transport_name name =
     ((case strip_prefix name (ascii ''user.'') of Some bare \<Rightarrow> bare | None \<Rightarrow> name)
        \<in> set TRANSPORT_NAMES)"

definition FORBIDDEN :: bytes where
  "FORBIDDEN = ascii ''/'' @ [92] @ ascii '':*?'' @ [34] @ ascii ''<>|''"

definition has_prefix_ignoring_case :: "bytes \<Rightarrow> bytes \<Rightarrow> bool" where
  "has_prefix_ignoring_case name p =
     (case get_range name 0 (length p) of Some h \<Rightarrow> eq_ignore_ascii_case h p | None \<Rightarrow> False)"

definition validate_logical_name :: "bytes \<Rightarrow> meta_error + unit" where
  "validate_logical_name name =
     (if name = [] then Inl EmptyName
      else if length name > 127
        \<or> list_ex (\<lambda>b. b < 0x20 \<or> b = 0x7f \<or> b \<in> set FORBIDDEN) name
        \<or> \<not> from_utf8_ok name
        \<or> hd name = 32
        \<or> ends_with name [32]
        \<or> ends_with name [46]
        \<or> list_ex (has_prefix_ignoring_case name) [ascii ''user.'', ascii ''com.apple.'', ascii ''$'']
        \<or> eq_ignore_ascii_case name (ascii ''zone.identifier'')
      then Inl InvalidLogicalName
      else Inr ())"

definition validate_xattr_name :: "xattr_class \<Rightarrow> bytes \<Rightarrow> meta_error + unit" where
  "validate_xattr_name class name =
     (if is_transport_name name then Inl ReservedTransportName
      else if name = [] then Inl EmptyName
      else (case class of
          Logical \<Rightarrow> validate_logical_name name
        | Raw \<Rightarrow>
            if length name > 255 \<or> list_ex (\<lambda>b. b = 0 \<or> b = 47 \<or> b = 92) name
            then Inl InvalidRawName else Inr ()))"

definition validate_hardlink :: "bytes \<Rightarrow> meta_error + unit" where
  "validate_hardlink path =
     (if path = [] \<or> length path > 4096 \<or> \<not> from_utf8_ok path \<or> starts_with path [47]
        \<or> 92 \<in> set path \<or> 0 \<in> set path
        \<or> (length path \<ge> 2 \<and> is_ascii_alphabetic (path ! 0) \<and> path ! 1 = 58)
        \<or> list_ex (\<lambda>part. part = [] \<or> part = [46] \<or> part = [46, 46]) (split_on 47 path)
      then Inl InvalidHardlink else Inr ())"

definition validate_ace_name :: "ace_tag \<Rightarrow> bytes \<Rightarrow> meta_error + unit" where
  "validate_ace_name tag name =
     (let valid = (if tag = NamedUser \<or> tag = NamedGroup
            then name \<noteq> [] \<and> from_utf8_ok name \<and> 47 \<notin> set name \<and> 0 \<notin> set name
            else name = []) in
      if \<not> valid then Inl InvalidAceName else Inr ())"

definition raw_accepted :: "os \<Rightarrow> bytes \<Rightarrow> bool" where
  "raw_accepted os name =
     (case os of
        Linux \<Rightarrow> list_ex (\<lambda>p. starts_with name p \<and> length name > length p)
          [ascii ''user.'', ascii ''system.'', ascii ''security.'', ascii ''trusted.'']
      | Macos \<Rightarrow> name \<noteq> [] \<and> length name \<le> 127 \<and> 47 \<notin> set name
      | Mswin \<Rightarrow> name \<noteq> [] \<and> length name \<le> 255 \<and> \<not> list_ex (\<lambda>b. b \<in> set FORBIDDEN) name)"

section \<open>The omission mask\<close>

type_synonym omit = u32

definition omit_from_bits :: "u32 \<Rightarrow> meta_error + omit" where
  "omit_from_bits bits = (if bits AND NOT family_mask \<noteq> 0 then Inl InvalidOmitMask else Inr bits)"

definition omit_contains :: "omit \<Rightarrow> family \<Rightarrow> bool" where
  "omit_contains omit f \<longleftrightarrow> omit AND family_bit f \<noteq> 0"

definition trim_spaces :: "bytes \<Rightarrow> bytes" where
  "trim_spaces name = rev (dropWhile (\<lambda>b. b = 32) (rev (dropWhile (\<lambda>b. b = 32) name)))"

fun omit_parse_names :: "omit \<Rightarrow> bytes list \<Rightarrow> meta_error + omit" where
  "omit_parse_names omit [] = Inr omit"
| "omit_parse_names omit (part # parts) =
     (let name = trim_spaces part in
      if name = [] then Inl EmptyFamily
      else and_then (ok_or UnknownFamily (find (\<lambda>f. family_name f = name) family_all)) (\<lambda>f.
        if omit_contains omit f then Inl DuplicateFamily
        else omit_parse_names (omit OR family_bit f) parts))"

definition omit_parse :: "bytes \<Rightarrow> meta_error + omit" where
  "omit_parse text = (if text = [] then Inr 0 else omit_parse_names 0 (split_on 44 text))"

section \<open>Timestamps\<close>

record time =
  sec :: u64
  nsec :: u32

definition time_encode :: "time \<Rightarrow> meta_error + bytes" where
  "time_encode t =
     (if nsec t \<ge> 1000000000 then Inl InvalidNsec else Inr (le_bytes (sec t) @ le_bytes (nsec t)))"

definition time_decode :: "bytes \<Rightarrow> meta_error + time" where
  "time_decode bs =
     (if length bs \<noteq> 12 then Inl BadMetadata
      else (let s = le_word (take 8 bs); n = le_word (drop 8 bs) in
        if n \<ge> 1000000000 then Inl InvalidNsec else Inr \<lparr>sec = s, nsec = n\<rparr>))"

record modification_override =
  original :: "time option"
  observed :: time

definition encode_time_override :: "time option \<Rightarrow> meta_error + bytes" where
  "encode_time_override v =
     (case v of
        None \<Rightarrow> Inr [0]
      | Some t \<Rightarrow> and_then (time_encode t) (\<lambda>bs. Inr (1 # bs)))"

definition decode_time_override :: "bytes \<Rightarrow> meta_error + time option" where
  "decode_time_override bs =
     (if bs = [0] then Inr None
      else if length bs \<noteq> 13 \<or> hd bs \<noteq> 1 then Inl BadMetadata
      else and_then (time_decode (tl bs)) (\<lambda>t. Inr (Some t)))"

definition encode_modification_override :: "modification_override \<Rightarrow> meta_error + bytes" where
  "encode_modification_override v =
     and_then (encode_time_override (original v)) (\<lambda>orig.
     and_then (time_encode (observed v)) (\<lambda>obs. Inr (orig @ obs)))"

definition decode_modification_override :: "bytes \<Rightarrow> meta_error + modification_override" where
  "decode_modification_override bs =
     (if length bs \<noteq> 13 \<and> length bs \<noteq> 25 then Inl BadMetadata
      else (let p = length bs - 12 in
        and_then (decode_time_override (take p bs)) (\<lambda>orig.
        and_then (time_decode (drop p bs)) (\<lambda>obs.
        Inr \<lparr>original = orig, observed = obs\<rparr>))))"

section \<open>Raw records\<close>

type_synonym permissions = u8

definition permissions_from_bits :: "u8 \<Rightarrow> meta_error + permissions" where
  "permissions_from_bits bits = (if bits AND NOT (1 OR 2 OR 4) \<noteq> 0 then Inl BadMetadata else Inr bits)"

definition permissions_contains :: "permissions \<Rightarrow> permissions \<Rightarrow> bool" where
  "permissions_contains self p \<longleftrightarrow> self AND p = p"

record xattr =
  x_class :: xattr_class
  x_name :: bytes
  x_value :: bytes

record ace =
  ace_kind :: ace_tag
  ace_permissions :: permissions
  ace_name :: bytes

record native_acl =
  acl_origin :: os
  acl_bytes :: bytes

record times =
  mtime :: "time option"
  atime :: "time option"
  btime :: "time option"

record hole =
  hole_offset :: u64
  hole_length :: u64

record metadata =
  xattrs :: "xattr list"
  aces :: "ace list"
  native_acl :: "native_acl option"
  mtimes :: times
  finder_flags :: u32
  finder_info :: "bytes option"
  holes :: "hole list"
  hardlink_to :: "bytes option"

definition times_default :: times where
  "times_default = \<lparr>mtime = None, atime = None, btime = None\<rparr>"

definition metadata_default :: metadata where
  "metadata_default = \<lparr>xattrs = [], aces = [], native_acl = None, mtimes = times_default,
     finder_flags = 0, finder_info = None, holes = [], hardlink_to = None\<rparr>"

definition metadata_is_empty :: "metadata \<Rightarrow> bool" where
  "metadata_is_empty m \<longleftrightarrow> xattrs m = [] \<and> aces m = [] \<and> native_acl m = None
     \<and> mtimes m = times_default \<and> finder_flags m = 0 \<and> finder_info m = None \<and> holes m = []
     \<and> hardlink_to m = None"

section \<open>Lemmas\<close>

lemma metadata_is_empty_iff: "metadata_is_empty m \<longleftrightarrow> m = metadata_default"
  by (auto simp: metadata_is_empty_def metadata_default_def)

lemma os_try_from_iff: "os_try_from t = Inr x \<longleftrightarrow> t = os_tag x"
  by (cases x) (auto simp: os_try_from_def)

lemma xattr_class_try_from_iff: "xattr_class_try_from t = Inr x \<longleftrightarrow> t = xattr_class_tag x"
  by (cases x) (auto simp: xattr_class_try_from_def)

lemma ace_tag_try_from_iff: "ace_tag_try_from t = Inr x \<longleftrightarrow> t = ace_tag_tag x"
  by (cases x) (auto simp: ace_tag_try_from_def)

lemma os_tag_nonzero [simp]: "os_tag x \<noteq> 0"
  by (cases x) auto

definition valid_time :: "time \<Rightarrow> bool" where
  "valid_time t \<longleftrightarrow> nsec t < 1000000000"

definition print_time :: "time \<Rightarrow> bytes" where
  "print_time t = le_bytes (sec t) @ le_bytes (nsec t)"

lemma length_print_time [simp]: "length (print_time t) = 12"
  by (simp add: print_time_def)

lemma time_encode_iff: "time_encode t = Inr bs \<longleftrightarrow> valid_time t \<and> bs = print_time t"
  by (auto simp: time_encode_def valid_time_def print_time_def)

lemma time_decode_iff: "time_decode bs = Inr t \<longleftrightarrow> valid_time t \<and> bs = print_time t"
proof
  assume a: "time_decode bs = Inr t"
  then have "length bs = 12" and t: "t = \<lparr>sec = le_word (take 8 bs), nsec = le_word (drop 8 bs)\<rparr>"
    and "valid_time t"
    by (auto simp: time_decode_def Let_def valid_time_def split: if_splits)
  moreover have "le_bytes (le_word (take 8 bs) :: u64) @ le_bytes (le_word (drop 8 bs) :: u32) = bs"
    using calculation(1) by simp
  ultimately show "valid_time t \<and> bs = print_time t"
    by (simp add: print_time_def)
next
  assume "valid_time t \<and> bs = print_time t"
  then show "time_decode bs = Inr t"
    by (auto simp: time_decode_def print_time_def valid_time_def Let_def)
qed

lemma time_override_codec:
  "decode_time_override bs = Inr v \<longleftrightarrow> encode_time_override v = Inr bs"
proof (cases v)
  case None
  then show ?thesis
    by (auto simp: decode_time_override_def encode_time_override_def and_then_Inr)
next
  case (Some t)
  have "decode_time_override bs = Inr (Some t) \<longleftrightarrow> (\<exists>cs. bs = 1 # cs \<and> time_decode cs = Inr t)"
    by (cases bs) (auto simp: decode_time_override_def and_then_Inr time_decode_iff)
  then show ?thesis
    using Some by (auto simp: encode_time_override_def and_then_Inr time_decode_iff time_encode_iff)
qed

lemma encode_time_override_length:
  "encode_time_override v = Inr bs \<Longrightarrow> length bs = (if v = None then 1 else 13)"
  by (auto simp: encode_time_override_def and_then_Inr time_encode_iff split: option.splits)

lemma and_not_zero_iff: "b AND NOT m = 0 \<longleftrightarrow> b AND m = b" for b m :: "'a::len word"
  by (auto simp: bit_eq_iff bit_and_iff bit_not_iff)

lemma permissions_from_bits_iff:
  "permissions_from_bits b = Inr p \<longleftrightarrow> p = b \<and> b \<le> 7"
proof -
  have "b AND NOT 7 = 0 \<longleftrightarrow> take_bit 3 b = b"
    by (simp only: and_not_zero_iff take_bit_eq_mask) (simp add: mask_numeral)
  also have "\<dots> \<longleftrightarrow> take_bit 3 (unat b) = unat b"
    by (metis unsigned_take_bit_eq word_unat_eq_iff)
  also have "\<dots> \<longleftrightarrow> b \<le> 7"
    by (auto simp: take_bit_nat_eq_self_iff word_le_nat_alt)
  finally show ?thesis by (auto simp: permissions_from_bits_def)
qed

lemma encode_modification_override_iff:
  "encode_modification_override v = Inr bs \<longleftrightarrow>
     (\<exists>cs. encode_time_override (original v) = Inr cs \<and> valid_time (observed v)
        \<and> bs = cs @ print_time (observed v))"
  by (auto simp: encode_modification_override_def and_then_Inr time_encode_iff)

lemma decode_modification_override_iff:
  "decode_modification_override bs = Inr v \<longleftrightarrow>
     (\<exists>cs. encode_time_override (original v) = Inr cs \<and> valid_time (observed v)
        \<and> bs = cs @ print_time (observed v))"
proof
  assume "decode_modification_override bs = Inr v"
  then have "decode_time_override (take (length bs - 12) bs) = Inr (original v)"
    and "time_decode (drop (length bs - 12) bs) = Inr (observed v)"
    by (auto simp: decode_modification_override_def Let_def result_simps split: if_splits)
  then show "\<exists>cs. encode_time_override (original v) = Inr cs \<and> valid_time (observed v)
      \<and> bs = cs @ print_time (observed v)"
    by (metis append_take_drop_id time_decode_iff time_override_codec)
next
  assume "\<exists>cs. encode_time_override (original v) = Inr cs \<and> valid_time (observed v)
      \<and> bs = cs @ print_time (observed v)"
  then obtain cs where cs: "encode_time_override (original v) = Inr cs" "valid_time (observed v)"
    "bs = cs @ print_time (observed v)" by blast
  then have "length bs = 13 \<or> length bs = 25" and "take (length bs - 12) bs = cs"
    "drop (length bs - 12) bs = print_time (observed v)"
    using encode_time_override_length [OF cs(1)] by (auto split: if_splits)
  then show "decode_modification_override bs = Inr v"
    using cs time_override_codec [of cs "original v"]
    by (auto simp: decode_modification_override_def time_decode_iff and_then_Inr)
qed

section \<open>Families and masks\<close>

lemma family_bit_contains: "omit_contains (family_bit f) g \<longleftrightarrow> f = g"
  by (cases f; cases g) (simp_all add: omit_contains_def family_bit_def)

lemma omit_contains_or: "omit_contains (a OR b) f \<longleftrightarrow> omit_contains a f \<or> omit_contains b f"
  by (auto simp: omit_contains_def bit.conj_disj_distrib2 or_eq_0_iff)

lemma omit_contains_zero [simp]: "\<not> omit_contains 0 f"
  by (simp add: omit_contains_def)

lemma family_name_inj: "family_name f = family_name g \<longleftrightarrow> f = g"
  by (cases f; cases g) (simp_all add: ascii_def)

lemma find_family:
  "find (\<lambda>f. family_name f = name) family_all = Some f \<longleftrightarrow> name = family_name f"
proof
  assume "name = family_name f"
  then show "find (\<lambda>f. family_name f = name) family_all = Some f"
    by (cases f) (simp_all add: family_all_def ascii_def)
qed (auto simp: find_Some_iff)

lemma omit_contains_bit: "omit_contains m f \<longleftrightarrow> bit m (family_tag f - 1)"
  by (simp add: omit_contains_def family_bit_def bit_iff_and_push_bit_not_eq_0)

lemma family_mask_value: "family_mask = mask 6"
  by (simp add: family_mask_def family_all_def family_bit_def mask_numeral)

lemma omit_from_bits_iff: "omit_from_bits b = Inr m \<longleftrightarrow> m = b \<and> (\<forall>i. bit b i \<longrightarrow> i < 6)"
proof -
  have "b AND NOT family_mask = 0 \<longleftrightarrow> (\<forall>i. bit b i \<longrightarrow> i < 6)"
    unfolding and_not_zero_iff family_mask_value
    using bit_imp_le_length [of b] by (auto simp: bit_eq_iff bit_and_iff bit_mask_iff)
  then show ?thesis by (auto simp: omit_from_bits_def)
qed

lemma omit_eqI:
  assumes "omit_from_bits a = Inr a" "omit_from_bits b = Inr b"
    and "\<And>f. omit_contains a f \<longleftrightarrow> omit_contains b f"
  shows "a = b"
proof (rule bit_word_eqI)
  fix i assume "i < LENGTH(32)"
  have "\<exists>f. i = family_tag f - 1" if "i < 6"
  proof -
    from that have "i \<in> {0, 1, 2, 3, 4, 5}" by auto
    then have "i = family_tag (family_all ! i) - 1" by (auto simp: family_all_def)
    then show ?thesis by blast
  qed
  then show "bit a i \<longleftrightarrow> bit b i"
    using assms by (metis omit_contains_bit omit_from_bits_iff)
qed

lemma omit_from_bits_or:
  "omit_from_bits m = Inr m \<Longrightarrow> omit_from_bits (m OR family_bit f) = Inr (m OR family_bit f)"
proof -
  have "family_tag f - 1 < 6" by (cases f) simp_all
  then show "omit_from_bits m = Inr m \<Longrightarrow> ?thesis"
    by (auto simp: omit_from_bits_iff bit_or_iff family_bit_def bit_exp_iff)
qed

lemma omit_parse_names_iff:
  "omit_from_bits omit = Inr omit \<Longrightarrow> omit_parse_names omit parts = Inr m \<longleftrightarrow>
     (\<exists>fs. map trim_spaces parts = map family_name fs \<and> distinct fs
        \<and> (\<forall>f \<in> set fs. \<not> omit_contains omit f) \<and> omit_from_bits m = Inr m
        \<and> (\<forall>f. omit_contains m f \<longleftrightarrow> omit_contains omit f \<or> f \<in> set fs))"
proof (induction parts arbitrary: omit)
  case Nil
  then show ?case by (auto intro: omit_eqI)
next
  case (Cons part parts)
  have nonempty: "family_name f \<noteq> []" "[] \<noteq> family_name f" for f
    by (cases f; simp add: ascii_def)+
  have "omit_parse_names omit (part # parts) = Inr m \<longleftrightarrow>
    (\<exists>f. trim_spaces part = family_name f \<and> \<not> omit_contains omit f
       \<and> omit_parse_names (omit OR family_bit f) parts = Inr m)"
    by (auto simp: Let_def result_simps find_family nonempty)
  also have "\<dots> \<longleftrightarrow> (\<exists>f fs. trim_spaces part = family_name f \<and> \<not> omit_contains omit f
       \<and> map trim_spaces parts = map family_name fs \<and> distinct fs
       \<and> (\<forall>g \<in> set fs. \<not> omit_contains omit g \<and> f \<noteq> g) \<and> omit_from_bits m = Inr m
       \<and> (\<forall>g. omit_contains m g \<longleftrightarrow> omit_contains omit g \<or> f = g \<or> g \<in> set fs))"
    by (auto simp: Cons.IH [OF omit_from_bits_or [OF Cons.prems]] omit_contains_or family_bit_contains)
  also have "\<dots> \<longleftrightarrow> (\<exists>fs. map trim_spaces (part # parts) = map family_name fs \<and> distinct fs
        \<and> (\<forall>f \<in> set fs. \<not> omit_contains omit f) \<and> omit_from_bits m = Inr m
        \<and> (\<forall>f. omit_contains m f \<longleftrightarrow> omit_contains omit f \<or> f \<in> set fs))" (is "?L \<longleftrightarrow> ?R")
  proof
    assume ?L
    then obtain f fs where "trim_spaces part = family_name f \<and> \<not> omit_contains omit f
       \<and> map trim_spaces parts = map family_name fs \<and> distinct fs
       \<and> (\<forall>g \<in> set fs. \<not> omit_contains omit g \<and> f \<noteq> g) \<and> omit_from_bits m = Inr m
       \<and> (\<forall>g. omit_contains m g \<longleftrightarrow> omit_contains omit g \<or> f = g \<or> g \<in> set fs)" by blast
    then show ?R by (intro exI [of _ "f # fs"]) auto
  next
    assume ?R
    then obtain gs where gs: "map trim_spaces (part # parts) = map family_name gs" "distinct gs"
      "\<forall>f \<in> set gs. \<not> omit_contains omit f" "omit_from_bits m = Inr m"
      "\<forall>f. omit_contains m f \<longleftrightarrow> omit_contains omit f \<or> f \<in> set gs" by blast
    then show ?L by (cases gs) fastforce+
  qed
  finally show ?case .
qed

section \<open>Properties\<close>

text \<open>The timestamp override records are a bijective codec: decoding a byte string gives a value
  exactly when that byte string is the encoding of the value, so out-of-range nanoseconds, wrong
  lengths and wrong tags are all refused and no two byte strings mean the same override.\<close>

lemma modification_override_codec:
  "decode_modification_override bs = Inr v \<longleftrightarrow> encode_modification_override v = Inr bs"
  by (simp add: decode_modification_override_iff encode_modification_override_iff)

text \<open>C29. The omission grammar: a text is accepted exactly when its comma-separated parts, stripped
  of spaces, are the names of pairwise different families, and the mask is the one valid mask that
  contains just those families. The empty text is the empty mask.\<close>

theorem omit_parse_families:
  "omit_parse text = Inr m \<longleftrightarrow>
     (\<exists>fs. map trim_spaces (if text = [] then [] else split_on 44 text) = map family_name fs
        \<and> distinct fs \<and> omit_from_bits m = Inr m \<and> (\<forall>f. omit_contains m f \<longleftrightarrow> f \<in> set fs))"
proof (cases "text = []")
  case True
  then show ?thesis
    using omit_eqI [of m 0] by (auto simp: omit_parse_def omit_from_bits_iff)
next
  case False
  have "omit_from_bits 0 = Inr 0" by (simp add: omit_from_bits_iff)
  from omit_parse_names_iff [OF this] False show ?thesis by (simp add: omit_parse_def)
qed

end
