(* ===== verification/Wire_Codec.thy ===== *)
theory Wire_Codec
  imports Difz_Prelude
begin

text \<open>
  The cursor over a borrowed byte slice that \<open>metadata_decode.rs\<close> (\<open>Cursor\<close>),
  \<open>tree_patch_decode.rs\<close> and \<open>symlink_transport.rs\<close> (\<open>Reader\<close>) each declare: a slice
  and a position, and a \<open>take\<close> that differs only in the error it reports, which is an argument
  here. Every other read is a few bytes taken and interpreted.

  The locale \<open>wire_codec\<close> is the contract between the writer of a record and its reader. A
  \<open>parse\<close> reads exactly what \<open>print\<close> writes, whatever follows it, and accepts nothing else.
  Its clients get counted sequences and prefix-freeness (two printed records followed by anything
  agree only if the records agree). The formats interpret it for each of their records.
\<close>

record reader =
  rd_bytes :: bytes
  rd_pos :: nat

definition reader_take :: "'e \<Rightarrow> nat \<Rightarrow> reader \<Rightarrow> 'e + bytes \<times> reader" where
  "reader_take err n r =
     and_then (ok_or err (checked_add_usize (rd_pos r) n)) (\<lambda>stop.
     and_then (ok_or err (get_range (rd_bytes r) (rd_pos r) stop)) (\<lambda>bs.
     Inr (bs, r\<lparr>rd_pos := stop\<rparr>)))"

definition reader_byte :: "'e \<Rightarrow> reader \<Rightarrow> 'e + u8 \<times> reader" where
  "reader_byte err r = and_then (reader_take err 1 r) (\<lambda>(bs, r). Inr (hd bs, r))"

definition reader_u16 :: "'e \<Rightarrow> reader \<Rightarrow> 'e + u16 \<times> reader" where
  "reader_u16 err r = and_then (reader_take err 2 r) (\<lambda>(bs, r). Inr (le_word bs, r))"

definition reader_u32 :: "'e \<Rightarrow> reader \<Rightarrow> 'e + u32 \<times> reader" where
  "reader_u32 err r = and_then (reader_take err 4 r) (\<lambda>(bs, r). Inr (le_word bs, r))"

definition reader_u64 :: "'e \<Rightarrow> reader \<Rightarrow> 'e + u64 \<times> reader" where
  "reader_u64 err r = and_then (reader_take err 8 r) (\<lambda>(bs, r). Inr (le_word bs, r))"

text \<open>The counted loop \<open>for _ in 0..count\<close> that pushes one parsed record per turn.\<close>

fun read_n :: "nat \<Rightarrow> (reader \<Rightarrow> 'e + 'a \<times> reader) \<Rightarrow> reader \<Rightarrow> 'e + 'a list \<times> reader" where
  "read_n 0 p r = Inr ([], r)"
| "read_n (Suc n) p r =
     and_then (p r) (\<lambda>(x, r). and_then (read_n n p r) (\<lambda>(xs, r). Inr (x # xs, r)))"

text \<open>A byte string with its 32-bit length in front (\<open>usize\<close> holds every \<open>u32\<close>).\<close>

definition reader_blob :: "'e \<Rightarrow> reader \<Rightarrow> 'e + bytes \<times> reader" where
  "reader_blob err r =
     and_then (reader_u32 err r) (\<lambda>(n, r). reader_take err (unat n) r)"

definition print_blob :: "bytes \<Rightarrow> bytes" where
  "print_blob bs = le_bytes (as_u32 (length bs)) @ bs"

text \<open>
  A counted sequence. A count that the remaining bytes cannot hold is refused before storage for
  the descriptors is requested.
\<close>

definition reader_vector :: "'e \<Rightarrow> 'e \<Rightarrow> allocator \<Rightarrow> nat \<Rightarrow> (reader \<Rightarrow> 'e + 'a \<times> reader)
    \<Rightarrow> reader \<Rightarrow> 'e + 'a list \<times> reader" where
  "reader_vector err oom mem minimum p r =
     and_then (reader_u32 err r) (\<lambda>(count, r).
     if unat count > (length (rd_bytes r) - rd_pos r) div minimum then Inl err
     else and_then (reserve mem (unat count) oom) (\<lambda>_. read_n (unat count) p r))"

definition print_vector :: "('a \<Rightarrow> bytes) \<Rightarrow> 'a list \<Rightarrow> bytes" where
  "print_vector print xs = le_bytes (as_u32 (length xs)) @ concat (map print xs)"

section \<open>Reader states\<close>

definition reader_ok :: "reader \<Rightarrow> bool" where
  "reader_ok r \<longleftrightarrow> rd_pos r \<le> length (rd_bytes r) \<and> in_memory (rd_bytes r)"

definition remaining :: "reader \<Rightarrow> bytes" where
  "remaining r = drop (rd_pos r) (rd_bytes r)"

text \<open>The reader moves from one valid state to another over exactly the bytes \<open>xs\<close>.\<close>

definition consumes :: "reader \<Rightarrow> bytes \<Rightarrow> reader \<Rightarrow> bool" where
  "consumes r xs r' \<longleftrightarrow>
     reader_ok r' \<and> rd_bytes r' = rd_bytes r \<and> remaining r = xs @ remaining r'"

definition read_from :: "bytes \<Rightarrow> reader" where
  "read_from bs = \<lparr>rd_bytes = bs, rd_pos = 0\<rparr>"

lemma read_from_simps [simp]:
  "reader_ok (read_from bs) \<longleftrightarrow> in_memory bs"
  "remaining (read_from bs) = bs"
  "rd_bytes (read_from bs) = bs"
  "rd_pos (read_from bs) = 0"
  by (simp_all add: read_from_def reader_ok_def remaining_def)

lemma consumes_okD [dest]: "consumes r xs r' \<Longrightarrow> reader_ok r'"
  by (simp add: consumes_def)

lemma consumes_Nil [simp]: "reader_ok r \<Longrightarrow> consumes r [] r' \<longleftrightarrow> r' = r"
proof -
  assume ok: "reader_ok r"
  have "r' = r" if c: "consumes r [] r'"
  proof -
    have "length (remaining r) = length (remaining r')"
      using c by (simp add: consumes_def)
    then have "rd_pos r' = rd_pos r"
      using ok c by (auto simp: consumes_def reader_ok_def remaining_def)
    then show ?thesis using c by (simp add: consumes_def)
  qed
  then show ?thesis using ok by (auto simp: consumes_def)
qed

lemma consumes_pos:
  assumes "consumes r xs r'" and "reader_ok r"
  shows "rd_pos r' = rd_pos r + length xs"
proof -
  have "length (remaining r) = length xs + length (remaining r')"
    using assms by (simp add: consumes_def)
  then show ?thesis
    using assms by (auto simp: consumes_def reader_ok_def remaining_def)
qed

lemma consumes_unique:
  "reader_ok r \<Longrightarrow> consumes r xs r1 \<Longrightarrow> consumes r xs r2 \<Longrightarrow> r1 = r2"
  using consumes_pos [of r xs r1] consumes_pos [of r xs r2] by (simp add: consumes_def)

lemma consumes_slice:
  assumes "reader_ok r" and "consumes r xs r'"
  shows "take (rd_pos r' - rd_pos r) (drop (rd_pos r) (rd_bytes r)) = xs"
proof -
  have "remaining r = xs @ remaining r'" using assms(2) by (simp add: consumes_def)
  then show ?thesis using consumes_pos [OF assms(2,1)] by (simp add: remaining_def)
qed

lemma consumes_trans:
  "consumes r xs r1 \<Longrightarrow> consumes r1 ys r2 \<Longrightarrow> consumes r (xs @ ys) r2"
  by (auto simp: consumes_def)

lemma consumes_ex:
  assumes "reader_ok r" and "remaining r = xs @ ys"
  shows "\<exists>r'. consumes r xs r' \<and> remaining r' = ys"
proof -
  let ?r = "r\<lparr>rd_pos := rd_pos r + length xs\<rparr>"
  have "length (remaining r) = length xs + length ys" using assms(2) by simp
  then have "rd_pos r + length xs \<le> length (rd_bytes r)"
    using assms(1) by (auto simp: remaining_def reader_ok_def)
  moreover have "drop (length xs) (remaining r) = ys"
    using assms(2) by simp
  then have "remaining ?r = ys"
    by (simp add: remaining_def add.commute)
  ultimately show ?thesis
    using assms by (intro exI [of _ ?r]) (auto simp: consumes_def reader_ok_def)
qed

lemma consumes_all:
  assumes "in_memory bs"
  shows "(\<exists>r. consumes (read_from bs) xs r \<and> rd_pos r = length bs) \<longleftrightarrow> bs = xs"
proof
  assume "\<exists>r. consumes (read_from bs) xs r \<and> rd_pos r = length bs"
  then show "bs = xs" by (auto simp: consumes_def remaining_def read_from_def)
next
  assume "bs = xs"
  then show "\<exists>r. consumes (read_from bs) xs r \<and> rd_pos r = length bs"
    using assms by (intro exI [of _ "\<lparr>rd_bytes = bs, rd_pos = length bs\<rparr>"])
      (simp add: consumes_def remaining_def read_from_def reader_ok_def)
qed

lemma consumes_append:
  assumes "reader_ok r"
  shows "consumes r (xs @ ys) r2 \<longleftrightarrow> (\<exists>r1. consumes r xs r1 \<and> consumes r1 ys r2)"
proof
  assume c: "consumes r (xs @ ys) r2"
  then obtain r1 where "consumes r xs r1" and "remaining r1 = ys @ remaining r2"
    using consumes_ex [OF assms, of xs "ys @ remaining r2"] by (auto simp: consumes_def)
  with c show "\<exists>r1. consumes r xs r1 \<and> consumes r1 ys r2"
    by (auto simp: consumes_def)
qed (auto intro: consumes_trans)

lemma reader_take_iff:
  assumes "reader_ok r"
  shows "reader_take err n r = Inr (xs, r') \<longleftrightarrow> length xs = n \<and> consumes r xs r'"
proof
  assume "reader_take err n r = Inr (xs, r')"
  then have pos: "rd_pos r + n \<le> length (rd_bytes r)" and xs: "xs = take n (remaining r)"
    and r': "r' = r\<lparr>rd_pos := rd_pos r + n\<rparr>"
    by (auto simp: reader_take_def checked_add_usize_def get_range_def remaining_def and_then_Inr
        ok_or_Inr split: if_splits)
  have "remaining r' = drop n (remaining r)"
    by (simp add: r' remaining_def add.commute)
  moreover have "n \<le> length (remaining r)"
    using pos by (simp add: remaining_def)
  ultimately show "length xs = n \<and> consumes r xs r'"
    using assms pos by (simp add: xs r' consumes_def reader_ok_def)
next
  assume c: "length xs = n \<and> consumes r xs r'"
  then have pos: "rd_pos r' = rd_pos r + n"
    using assms consumes_pos by blast
  then have "rd_pos r + n \<le> length (rd_bytes r)" and "rd_pos r + n < 2 ^ 64"
    using c assms by (auto simp: consumes_def reader_ok_def in_memory_def)
  moreover have "take n (drop (rd_pos r) (rd_bytes r)) = xs"
    using c by (auto simp: consumes_def remaining_def)
  moreover have "r' = r\<lparr>rd_pos := rd_pos r + n\<rparr>"
    using c pos by (simp add: consumes_def)
  ultimately show "reader_take err n r = Inr (xs, r')"
    by (simp add: reader_take_def checked_add_usize_def get_range_def)
qed

lemma reader_take_short:
  assumes "reader_ok r" and "length (remaining r) < n"
  shows "reader_take err n r = Inl err"
proof (cases "reader_take err n r")
  case (Inl e)
  then show ?thesis
    by (auto simp: reader_take_def and_then_Inl and_then_Inr ok_or_Inl)
next
  case (Inr p)
  then obtain xs r' where "reader_take err n r = Inr (xs, r')" by (cases p) auto
  then have "length xs = n \<and> remaining r = xs @ remaining r'"
    using assms(1) by (simp add: reader_take_iff consumes_def)
  then show ?thesis using assms(2) by auto
qed

section \<open>The codec contract\<close>

locale wire_codec =
  fixes parse :: "reader \<Rightarrow> 'e + 'a \<times> reader"
    and print :: "'a \<Rightarrow> bytes"
    and wf :: "'a \<Rightarrow> bool"
  assumes parse_iff:
    "reader_ok r \<Longrightarrow> parse r = Inr (x, r') \<longleftrightarrow> wf x \<and> consumes r (print x) r'"
begin

lemma parse_then:
  "reader_ok r \<Longrightarrow> and_then (parse r) (\<lambda>(x, r1). f x r1) = Inr y \<longleftrightarrow>
     (\<exists>x r1. wf x \<and> consumes r (print x) r1 \<and> f x r1 = Inr y)"
  using parse_iff by (fastforce simp: and_then_Inr)

lemma print_prefix_free:
  assumes "wf x" and "wf y" and "print x @ as = print y @ bs" and "in_memory (print x @ as)"
  shows "x = y \<and> as = bs"
proof -
  let ?r = "read_from (print x @ as)"
  have ok: "reader_ok ?r" using assms(4) by simp
  obtain r1 where r1: "consumes ?r (print x) r1" "remaining r1 = as"
    using consumes_ex [OF ok, of "print x" as] by auto
  obtain r2 where r2: "consumes ?r (print y) r2" "remaining r2 = bs"
    using consumes_ex [OF ok, of "print y" bs] assms(3) by auto
  have "parse ?r = Inr (x, r1)" and "parse ?r = Inr (y, r2)"
    using assms(1,2) r1(1) r2(1) by (auto simp: parse_iff [OF ok])
  then show ?thesis using r1(2) r2(2) by simp
qed

lemma read_n_iff:
  assumes "reader_ok r"
  shows "read_n n parse r = Inr (xs, r') \<longleftrightarrow>
    length xs = n \<and> (\<forall>x \<in> set xs. wf x) \<and> consumes r (concat (map print xs)) r'"
  using assms
proof (induction n arbitrary: r xs)
  case 0
  then show ?case by auto
next
  case (Suc n)
  have "read_n (Suc n) parse r = Inr (xs, r') \<longleftrightarrow>
    (\<exists>x r1 ys. wf x \<and> consumes r (print x) r1 \<and> read_n n parse r1 = Inr (ys, r') \<and> xs = x # ys)"
    using parse_iff [OF Suc.prems] by (fastforce simp: and_then_Inr)
  also have "\<dots> \<longleftrightarrow> (\<exists>x r1 ys. wf x \<and> consumes r (print x) r1 \<and>
      (length ys = n \<and> (\<forall>y \<in> set ys. wf y) \<and> consumes r1 (concat (map print ys)) r') \<and> xs = x # ys)"
    using Suc.IH by (metis consumes_okD)
  also have "\<dots> \<longleftrightarrow> length xs = Suc n \<and> (\<forall>x \<in> set xs. wf x)
      \<and> consumes r (concat (map print xs)) r'"
    using Suc.prems by (auto simp: consumes_append length_Suc_conv)
  finally show ?case .
qed

end

section \<open>Primitive codecs\<close>

lemma reader_le_iff:
  fixes x :: "'a::len word"
  assumes "reader_ok r" and "8 dvd LENGTH('a)"
  shows "and_then (reader_take err (LENGTH('a) div 8) r) (\<lambda>(bs, r). Inr (le_word bs, r)) = Inr (x, r')
    \<longleftrightarrow> consumes r (le_bytes x) r'"
proof
  assume "and_then (reader_take err (LENGTH('a) div 8) r) (\<lambda>(bs, r). Inr (le_word bs, r)) = Inr (x, r')"
  then obtain bs where "reader_take err (LENGTH('a) div 8) r = Inr (bs, r')" and "x = le_word bs"
    by (auto simp: and_then_Inr)
  then show "consumes r (le_bytes x) r'"
    using assms le_bytes_word [of bs, where 'a = 'a] by (simp add: reader_take_iff)
next
  assume "consumes r (le_bytes x) r'"
  then have "reader_take err (LENGTH('a) div 8) r = Inr (le_bytes x, r')"
    using assms(1) by (simp add: reader_take_iff)
  then show "and_then (reader_take err (LENGTH('a) div 8) r) (\<lambda>(bs, r). Inr (le_word bs, r)) = Inr (x, r')"
    using assms(2) by (simp add: le_word_bytes)
qed

interpretation byte_codec: wire_codec "reader_byte err" "\<lambda>b. [b]" "\<lambda>_. True" for err
proof unfold_locales
  fix r r' and x :: u8
  assume ok: "reader_ok r"
  have "reader_byte err r = Inr (x, r') \<longleftrightarrow> (\<exists>bs. reader_take err 1 r = Inr (bs, r') \<and> x = hd bs)"
    by (auto simp: reader_byte_def and_then_Inr)
  also have "\<dots> \<longleftrightarrow> (\<exists>bs. length bs = 1 \<and> consumes r bs r' \<and> x = hd bs)"
    by (simp add: reader_take_iff [OF ok])
  also have "\<dots> \<longleftrightarrow> consumes r [x] r'"
    by (auto simp: length_Suc_conv)
  finally show "reader_byte err r = Inr (x, r') \<longleftrightarrow> True \<and> consumes r [x] r'" by simp
qed

interpretation u16_codec: wire_codec "reader_u16 err" le_bytes "\<lambda>_. True" for err
  by unfold_locales (use reader_le_iff [where 'a = 16] in \<open>simp add: reader_u16_def\<close>)

interpretation u32_codec: wire_codec "reader_u32 err" le_bytes "\<lambda>_. True" for err
  by unfold_locales (use reader_le_iff [where 'a = 32] in \<open>simp add: reader_u32_def\<close>)

interpretation u64_codec: wire_codec "reader_u64 err" le_bytes "\<lambda>_. True" for err
  by unfold_locales (use reader_le_iff [where 'a = 64] in \<open>simp add: reader_u64_def\<close>)

lemma consumes_ok [simp]: "consumes r xs r' \<Longrightarrow> reader_ok r'"
  by (rule consumes_okD)

interpretation take_codec: wire_codec "reader_take err n" "\<lambda>bs. bs" "\<lambda>bs. length bs = n" for err n
  by unfold_locales (rule reader_take_iff)

lemma magic_then:
  assumes "reader_ok r"
  shows "and_then (reader_take e (length M) r) (\<lambda>(m, r). if m \<noteq> M then Inl e else f r) = Inr y \<longleftrightarrow>
    (\<exists>r1. consumes r M r1 \<and> f r1 = Inr y)"
  unfolding take_codec.parse_then [OF assms] if_err_Inr by auto

lemma u32_then:
  assumes "reader_ok r"
  shows "and_then (reader_u32 e r) (\<lambda>(n, r). f (unat n) r) = Inr y \<longleftrightarrow>
    (\<exists>n r1. n < 2 ^ 32 \<and> consumes r (le_bytes (as_u32 n)) r1 \<and> f n r1 = Inr y)"
proof -
  have "(\<exists>w. P (unat w) w) \<longleftrightarrow> (\<exists>n. n < 2 ^ 32 \<and> P n (as_u32 n))" for P :: "nat \<Rightarrow> u32 \<Rightarrow> bool"
    using u32_count by (metis (full_types))
  from this [of "\<lambda>n w. \<exists>r1. consumes r (le_bytes w) r1 \<and> f n r1 = Inr y"]
  show ?thesis unfolding u32_codec.parse_then [OF assms] by simp
qed

interpretation blob_codec: wire_codec "reader_blob err" print_blob "\<lambda>bs. length bs < 2 ^ 32" for err
proof unfold_locales
  fix r r' and bs :: bytes
  assume ok: "reader_ok r"
  have "reader_blob err r = Inr (bs, r') \<longleftrightarrow>
      (\<exists>(n :: u32) r1. consumes r (le_bytes n) r1 \<and> length bs = unat n \<and> consumes r1 bs r')"
    using ok
    by (simp add: reader_blob_def u32_codec.parse_then reader_take_iff cong: conj_cong)
  also have "\<dots> \<longleftrightarrow> length bs < 2 ^ 32 \<and> consumes r (print_blob bs) r'"
    using ok by (auto simp: print_blob_def consumes_append u32_count)
  finally show "reader_blob err r = Inr (bs, r') \<longleftrightarrow> length bs < 2 ^ 32 \<and> consumes r (print_blob bs) r'" .
qed

text \<open>
  Records of at least \<open>minimum\<close> bytes: the count check never refuses what was printed, so counted
  sequences are a codec again.
\<close>

locale counted_codec = wire_codec parse print wf
  for parse :: "reader \<Rightarrow> 'e + 'a \<times> reader" and print and wf +
  fixes minimum :: nat
  assumes minimum_pos: "0 < minimum"
    and minimum_le: "wf x \<Longrightarrow> minimum \<le> length (print x)"
begin

lemma length_concat_print: "\<forall>x \<in> set xs. wf x \<Longrightarrow> length xs * minimum \<le> length (concat (map print xs))"
  by (induction xs) (auto dest: minimum_le)

lemma count_fits:
  assumes "\<forall>x \<in> set xs. wf x" and "consumes r (concat (map print xs)) r'"
  shows "length xs \<le> (length (rd_bytes r) - rd_pos r) div minimum"
proof -
  have "length (concat (map print xs)) \<le> length (remaining r)"
    using assms(2) by (simp add: consumes_def)
  then have "length xs * minimum \<le> length (rd_bytes r) - rd_pos r"
    using length_concat_print [OF assms(1)] by (simp add: remaining_def)
  then show ?thesis using minimum_pos by (simp add: less_eq_div_iff_mult_less_eq)
qed

lemma vector_iff:
  assumes ok: "reader_ok r"
  shows "reader_vector err oom mem minimum parse r = Inr (xs, r') \<longleftrightarrow>
    (length xs < 2 ^ 32 \<and> mem (length xs) \<and> (\<forall>x \<in> set xs. wf x)) \<and> consumes r (print_vector print xs) r'"
proof -
  have "reader_vector err oom mem minimum parse r = Inr (xs, r') \<longleftrightarrow>
    (\<exists>(n :: u32) r1. consumes r (le_bytes n) r1 \<and> unat n \<le> (length (rd_bytes r1) - rd_pos r1) div minimum
       \<and> mem (unat n) \<and> length xs = unat n \<and> (\<forall>x \<in> set xs. wf x)
       \<and> consumes r1 (concat (map print xs)) r')"
    using ok
    by (simp add: reader_vector_def result_simps u32_codec.parse_iff read_n_iff not_less cong: conj_cong)
  also have "\<dots> \<longleftrightarrow> (\<exists>(n :: u32) r1. consumes r (le_bytes n) r1
       \<and> mem (unat n) \<and> length xs = unat n \<and> (\<forall>x \<in> set xs. wf x)
       \<and> consumes r1 (concat (map print xs)) r')"
    using count_fits by metis
  also have "\<dots> \<longleftrightarrow> (length xs < 2 ^ 32 \<and> mem (length xs) \<and> (\<forall>x \<in> set xs. wf x))
       \<and> consumes r (print_vector print xs) r'"
    using ok by (auto simp: print_vector_def consumes_append u32_count)
  finally show ?thesis .
qed

end

sublocale counted_codec \<subseteq> vec: wire_codec "reader_vector err oom mem minimum parse" "print_vector print"
    "\<lambda>xs. length xs < 2 ^ 32 \<and> mem (length xs) \<and> (\<forall>x \<in> set xs. wf x)" for err oom mem
  by unfold_locales (rule vector_iff)

end
