(* ===== verification/Metadata_Canonical.thy ===== *)
theory Metadata_Canonical
  imports Metadata_Base Wire_Codec "HOL-Library.Multiset"
begin

text \<open>
  Canonical metadata (\<open>rust/src/metadata_canonical.rs\<close>): validation, normalization of a raw
  record, the field writer, encoding and hashing. A \<open>CanonicalMetadata\<close> is a record that
  \<open>metadata_validate\<close> accepts; \<open>metadata_canonical\<close> says the same declaratively. The byte
  strings passed to the writer's \<open>put\<close> callback, in order, are the list \<open>write_chunks\<close>; each
  client folds over it. \<open>sort_unstable_by\<close> is modelled by the library's insertion sort: the
  code rejects equal keys of attributes and access entries, and \<open>merge_holes\<close> is shown not to
  depend on how equal offsets are ordered.
\<close>

section \<open>Validation\<close>

definition wire_length :: "nat \<Rightarrow> meta_error + unit" where
  "wire_length n = (case u32_try_from n of Some _ \<Rightarrow> Inr () | None \<Rightarrow> Inl BadMetadata)"

definition xattr_key :: "xattr \<Rightarrow> xattr_class \<times> bytes" where
  "xattr_key x = (x_class x, x_name x)"

definition ace_key :: "ace \<Rightarrow> ace_tag \<times> bytes" where
  "ace_key a = (ace_kind a, ace_name a)"

text \<open>The order check of an element against the previous one.\<close>

definition check_order :: "('a \<Rightarrow> 'k::linorder) \<Rightarrow> meta_error \<Rightarrow> 'a option \<Rightarrow> 'a \<Rightarrow> meta_error + unit" where
  "check_order key duplicate previous x =
     (case previous of
        None \<Rightarrow> Inr ()
      | Some p \<Rightarrow> if key p = key x then Inl duplicate
          else if key p \<ge> key x then Inl BadMetadata else Inr ())"

fun validate_xattrs :: "xattr option \<Rightarrow> xattr list \<Rightarrow> meta_error + unit" where
  "validate_xattrs previous [] = Inr ()"
| "validate_xattrs previous (x # xs) =
     and_then (validate_xattr_name (x_class x) (x_name x)) (\<lambda>_.
     and_then (wire_length (length (x_value x))) (\<lambda>_.
     and_then (check_order xattr_key DuplicateXattr previous x) (\<lambda>_.
     validate_xattrs (Some x) xs)))"

fun validate_aces :: "ace option \<Rightarrow> ace list \<Rightarrow> meta_error + unit" where
  "validate_aces previous [] = Inr ()"
| "validate_aces previous (a # as) =
     and_then (validate_ace_name (ace_kind a) (ace_name a)) (\<lambda>_.
     and_then (wire_length (length (ace_name a))) (\<lambda>_.
     and_then (check_order ace_key DuplicateAce previous a) (\<lambda>_.
     validate_aces (Some a) as)))"

definition validate_native_acl :: "native_acl option \<Rightarrow> meta_error + unit" where
  "validate_native_acl acl =
     (case acl of
        None \<Rightarrow> Inr ()
      | Some a \<Rightarrow> if acl_bytes a = [] then Inl EmptyNativeAcl else wire_length (length (acl_bytes a)))"

definition time_values :: "times \<Rightarrow> time list" where
  "time_values t = List.map_filter id [mtime t, atime t, btime t]"

definition validate_times :: "times \<Rightarrow> meta_error + unit" where
  "validate_times t =
     for_each (\<lambda>v. if nsec v \<ge> 1000000000 then Inl InvalidNsec else Inr ()) (time_values t)"

fun validate_holes :: "u64 option \<Rightarrow> hole list \<Rightarrow> meta_error + unit" where
  "validate_holes previous_end [] = Inr ()"
| "validate_holes previous_end (h # hs) =
     (if hole_length h = 0 then Inl ZeroLengthHole
      else and_then (ok_or HoleOverflow (checked_add (hole_offset h) (hole_length h))) (\<lambda>stop.
        if (case previous_end of Some e \<Rightarrow> hole_offset h \<le> e | None \<Rightarrow> False) then Inl BadMetadata
        else validate_holes (Some stop) hs))"

definition metadata_validate :: "metadata \<Rightarrow> meta_error + unit" where
  "metadata_validate m =
     and_then (wire_length (length (xattrs m))) (\<lambda>_.
     and_then (validate_xattrs None (xattrs m)) (\<lambda>_.
     and_then (wire_length (length (aces m))) (\<lambda>_.
     and_then (validate_aces None (aces m)) (\<lambda>_.
     and_then (validate_native_acl (native_acl m)) (\<lambda>_.
     and_then (validate_times (mtimes m)) (\<lambda>_.
     and_then (wire_length (length (holes m))) (\<lambda>_.
     and_then (validate_holes None (holes m)) (\<lambda>_.
     case hardlink_to m of Some path \<Rightarrow> validate_hardlink path | None \<Rightarrow> Inr ()))))))))"

definition metadata_new :: "metadata \<Rightarrow> meta_error + metadata" where
  "metadata_new m = and_then (metadata_validate m) (\<lambda>_. Inr m)"

section \<open>Normalization\<close>

fun omit_family :: "family \<Rightarrow> metadata \<Rightarrow> metadata" where
  "omit_family Xattr m = m\<lparr>xattrs := []\<rparr>"
| "omit_family Acl m = m\<lparr>aces := [], native_acl := None\<rparr>"
| "omit_family Timestamps m = m\<lparr>mtimes := times_default\<rparr>"
| "omit_family Finder m = m\<lparr>finder_flags := 0, finder_info := None\<rparr>"
| "omit_family Sparse m = m\<lparr>holes := []\<rparr>"
| "omit_family Hardlink m = m\<lparr>hardlink_to := None\<rparr>"

definition omit_families :: "omit \<Rightarrow> metadata \<Rightarrow> metadata" where
  "omit_families omit m =
     fold (\<lambda>f m. if omit_contains omit f then omit_family f m else m) family_all m"

definition check_xattr :: "xattr \<Rightarrow> meta_error + unit" where
  "check_xattr x =
     and_then (validate_xattr_name (x_class x) (x_name x)) (\<lambda>_. wire_length (length (x_value x)))"

definition check_ace :: "ace \<Rightarrow> meta_error + unit" where
  "check_ace a =
     and_then (validate_ace_name (ace_kind a) (ace_name a)) (\<lambda>_. wire_length (length (ace_name a)))"

definition check_hole :: "hole \<Rightarrow> meta_error + unit" where
  "check_hole h =
     (if hole_length h = 0 then Inl ZeroLengthHole
      else and_then (ok_or HoleOverflow (checked_add (hole_offset h) (hole_length h))) (\<lambda>_. Inr ()))"

text \<open>\<open>windows(2)\<close>: no two neighbours of the sorted vector share a key.\<close>

fun check_neighbours :: "('a \<Rightarrow> 'k) \<Rightarrow> meta_error \<Rightarrow> 'a list \<Rightarrow> meta_error + unit" where
  "check_neighbours key duplicate (x # y # ys) =
     (if key x = key y then Inl duplicate else check_neighbours key duplicate (y # ys))"
| "check_neighbours key duplicate _ = Inr ()"

text \<open>
  The in-place merge: \<open>out\<close> is \<open>holes[..count]\<close> reversed, so its head is the hole that the next
  one is compared with.
\<close>

definition hole_end :: "hole \<Rightarrow> u64" where
  "hole_end h = hole_offset h + hole_length h"

fun merge_step :: "hole list \<Rightarrow> hole \<Rightarrow> hole list" where
  "merge_step [] h = [h]"
| "merge_step (p # out) h =
     (if hole_offset h \<le> hole_end p
      then p\<lparr>hole_length := max (hole_end p) (hole_end h) - hole_offset p\<rparr> # out
      else h # p # out)"

definition merge_holes :: "hole list \<Rightarrow> hole list" where
  "merge_holes hs = rev (foldl merge_step [] hs)"

definition metadata_normalize :: "metadata \<Rightarrow> omit \<Rightarrow> meta_error + metadata" where
  "metadata_normalize raw omit =
     (let m = omit_families omit raw in
      and_then (wire_length (length (xattrs m))) (\<lambda>_.
      and_then (for_each check_xattr (xattrs m)) (\<lambda>_.
      let xs = sort_key xattr_key (xattrs m) in
      and_then (check_neighbours xattr_key DuplicateXattr xs) (\<lambda>_.
      and_then (wire_length (length (aces m))) (\<lambda>_.
      and_then (for_each check_ace (aces m)) (\<lambda>_.
      let as = sort_key ace_key (aces m) in
      and_then (check_neighbours ace_key DuplicateAce as) (\<lambda>_.
      and_then (validate_native_acl (native_acl m)) (\<lambda>_.
      and_then (validate_times (mtimes m)) (\<lambda>_.
      and_then (wire_length (length (holes m))) (\<lambda>_.
      and_then (for_each check_hole (holes m)) (\<lambda>_.
      let hs = merge_holes (sort_key hole_offset (holes m)) in
      metadata_new (m\<lparr>xattrs := xs, aces := as, holes := hs\<rparr>))))))))))))"

section \<open>The field writer\<close>

definition xattr_chunks :: "xattr \<Rightarrow> bytes list" where
  "xattr_chunks x = [[xattr_class_tag (x_class x)], le_bytes (as_u32 (length (x_name x))), x_name x,
     le_bytes (as_u32 (length (x_value x))), x_value x]"

definition ace_chunks :: "ace \<Rightarrow> bytes list" where
  "ace_chunks a = [[ace_tag_tag (ace_kind a), ace_permissions a],
     le_bytes (as_u32 (length (ace_name a))), ace_name a]"

definition native_acl_chunks :: "native_acl option \<Rightarrow> bytes list" where
  "native_acl_chunks acl =
     (case acl of
        None \<Rightarrow> [[0]]
      | Some a \<Rightarrow> [[os_tag (acl_origin a)], le_bytes (as_u32 (length (acl_bytes a))), acl_bytes a])"

definition times_flags :: "times \<Rightarrow> u8" where
  "times_flags t = fold (\<lambda>(index, v) bits. bits OR push_bit index (if v \<noteq> None then 1 else 0))
     (List.enumerate 0 [mtime t, atime t, btime t]) 0"

definition times_chunks :: "times \<Rightarrow> bytes list" where
  "times_chunks t =
     [times_flags t] # concat (map (\<lambda>v. [le_bytes (sec v), le_bytes (nsec v)]) (time_values t))"

definition finder_info_chunks :: "bytes option \<Rightarrow> bytes list" where
  "finder_info_chunks info = (case info of None \<Rightarrow> [[0]] | Some bs \<Rightarrow> [[1], bs])"

definition hole_chunks :: "hole \<Rightarrow> bytes list" where
  "hole_chunks h = [le_bytes (hole_offset h), le_bytes (hole_length h)]"

definition hardlink_chunks :: "bytes option \<Rightarrow> bytes list" where
  "hardlink_chunks link =
     (case link of None \<Rightarrow> [[0]] | Some path \<Rightarrow> [[1], le_bytes (as_u32 (length path)), path])"

definition write_chunks :: "metadata \<Rightarrow> bytes list" where
  "write_chunks m =
     [le_bytes (as_u32 (length (xattrs m)))] @ concat (map xattr_chunks (xattrs m))
     @ [le_bytes (as_u32 (length (aces m)))] @ concat (map ace_chunks (aces m))
     @ native_acl_chunks (native_acl m) @ times_chunks (mtimes m)
     @ [le_bytes (finder_flags m)] @ finder_info_chunks (finder_info m)
     @ [le_bytes (as_u32 (length (holes m)))] @ concat (map hole_chunks (holes m))
     @ hardlink_chunks (hardlink_to m)"

fun add_lengths :: "usize \<Rightarrow> bytes list \<Rightarrow> meta_error + usize" where
  "add_lengths n [] = Inr n"
| "add_lengths n (c # cs) =
     and_then (ok_or BadMetadata (checked_add_usize n (length c))) (\<lambda>n. add_lengths n cs)"

definition metadata_encoded_len :: "metadata \<Rightarrow> meta_error + usize" where
  "metadata_encoded_len m = add_lengths 0 (write_chunks m)"

definition metadata_encode :: "allocator \<Rightarrow> metadata \<Rightarrow> meta_error + bytes" where
  "metadata_encode mem m =
     and_then (metadata_encoded_len m) (\<lambda>n.
     and_then (reserve mem n OutOfMemory) (\<lambda>_.
     Inr (fold (\<lambda>chunk output. output @ chunk) (write_chunks m) [])))"

text \<open>The incremental hasher's digest is that of the concatenation of its updates.\<close>

definition metadata_hash :: "(bytes \<Rightarrow> bytes) \<Rightarrow> metadata \<Rightarrow> bytes" where
  "metadata_hash H m =
     H (fold (\<lambda>chunk input. input @ chunk) (write_chunks m) (ascii ''DIFZMETA'' @ [1]))"

section \<open>The declarative reading\<close>

definition hole_start :: "hole \<Rightarrow> nat" where
  "hole_start h = unat (hole_offset h)"

definition hole_stop :: "hole \<Rightarrow> nat" where
  "hole_stop h = unat (hole_offset h) + unat (hole_length h)"

definition hole_ok :: "hole \<Rightarrow> bool" where
  "hole_ok h \<longleftrightarrow> hole_length h \<noteq> 0 \<and> hole_stop h < 2 ^ 64"

text \<open>The file offsets inside a hole of the list.\<close>

definition covered :: "hole list \<Rightarrow> nat set" where
  "covered hs = (\<Union>h \<in> set hs. {hole_start h ..< hole_stop h})"

text \<open>Holes in order, with at least one byte of data between any two.\<close>

definition separated :: "hole list \<Rightarrow> bool" where
  "separated hs \<longleftrightarrow> (\<forall>h \<in> set hs. hole_ok h) \<and> sorted_wrt (\<lambda>a b. hole_stop a < hole_start b) hs"

definition metadata_canonical :: "metadata \<Rightarrow> bool" where
  "metadata_canonical m \<longleftrightarrow>
     length (xattrs m) < 2 ^ 32 \<and> (\<forall>x \<in> set (xattrs m). check_xattr x = Inr ())
     \<and> sorted_wrt (<) (map xattr_key (xattrs m))
     \<and> length (aces m) < 2 ^ 32 \<and> (\<forall>a \<in> set (aces m). check_ace a = Inr ())
     \<and> sorted_wrt (<) (map ace_key (aces m))
     \<and> (\<forall>acl. native_acl m = Some acl \<longrightarrow> acl_bytes acl \<noteq> [] \<and> length (acl_bytes acl) < 2 ^ 32)
     \<and> (\<forall>t \<in> set (time_values (mtimes m)). valid_time t)
     \<and> length (holes m) < 2 ^ 32 \<and> separated (holes m)
     \<and> (\<forall>path. hardlink_to m = Some path \<longrightarrow> validate_hardlink path = Inr ())"

section \<open>Validation lemmas\<close>

lemma wire_length_Inr [result_simps]: "wire_length n = Inr u \<longleftrightarrow> n < 2 ^ 32"
  by (auto simp: wire_length_def u32_try_from_def)

lemma check_order_Inr:
  "check_order key d p x = Inr u \<longleftrightarrow> (\<forall>q. p = Some q \<longrightarrow> key q < key x)"
  by (auto simp: check_order_def split: option.splits if_splits)

lemma sorted_wrt_less_Cons:
  "sorted_wrt (<) (map key (x # xs)) \<longleftrightarrow>
     sorted_wrt (<) (map key xs) \<and> (xs \<noteq> [] \<longrightarrow> key x < (key (hd xs) :: 'k::linorder))"
  by (cases xs) (auto intro: less_trans)

lemma validate_xattrs_iff:
  "validate_xattrs previous xs = Inr u \<longleftrightarrow>
     (\<forall>x \<in> set xs. check_xattr x = Inr ()) \<and> sorted_wrt (<) (map xattr_key xs)
     \<and> (\<forall>q. previous = Some q \<and> xs \<noteq> [] \<longrightarrow> xattr_key q < xattr_key (hd xs))"
  by (induction previous xs rule: validate_xattrs.induct)
    (auto simp: result_simps check_xattr_def check_order_Inr sorted_wrt_less_Cons
      simp del: list.map(2) sorted_wrt.simps(2))

lemma validate_aces_iff:
  "validate_aces previous as = Inr u \<longleftrightarrow>
     (\<forall>a \<in> set as. check_ace a = Inr ()) \<and> sorted_wrt (<) (map ace_key as)
     \<and> (\<forall>q. previous = Some q \<and> as \<noteq> [] \<longrightarrow> ace_key q < ace_key (hd as))"
  by (induction previous as rule: validate_aces.induct)
    (auto simp: result_simps check_ace_def check_order_Inr sorted_wrt_less_Cons
      simp del: list.map(2) sorted_wrt.simps(2))

lemma checked_add_hole:
  "checked_add (hole_offset h) (hole_length h) = (if hole_stop h < 2 ^ 64 then Some (hole_end h) else None)"
  by (simp add: checked_add_def hole_stop_def hole_end_def)

lemma unat_hole_end: "hole_ok h \<Longrightarrow> unat (hole_end h) = hole_stop h"
  by (simp add: hole_ok_def hole_end_def hole_stop_def unat_word_ariths)

lemma check_hole_iff: "check_hole h = Inr u \<longleftrightarrow> hole_ok h"
  by (auto simp: check_hole_def result_simps checked_add_hole hole_ok_def)

lemma hole_ok_less: "hole_ok h \<Longrightarrow> hole_start h < hole_stop h"
  by (simp add: hole_ok_def hole_start_def hole_stop_def unat_gt_0)

lemma separated_Cons:
  "separated (h # hs) \<longleftrightarrow>
     hole_ok h \<and> separated hs \<and> (hs \<noteq> [] \<longrightarrow> hole_stop h < hole_start (hd hs))"
proof (cases hs)
  case (Cons g gs)
  have "hole_stop h < hole_start x"
    if "hole_stop h < hole_start g" "hole_ok g" "hole_stop g < hole_start x" for x
    using that hole_ok_less [of g] by simp
  then show ?thesis using Cons by (auto simp: separated_def)
qed (simp add: separated_def)

lemma validate_holes_iff:
  "validate_holes previous hs = Inr u \<longleftrightarrow>
     separated hs \<and> (\<forall>e. previous = Some e \<and> hs \<noteq> [] \<longrightarrow> unat e < hole_start (hd hs))"
proof (induction hs arbitrary: previous)
  case Nil
  then show ?case by (simp add: separated_def)
next
  case (Cons h hs)
  have "validate_holes previous (h # hs) = Inr u \<longleftrightarrow> hole_ok h
      \<and> (\<forall>e. previous = Some e \<longrightarrow> unat e < hole_start h) \<and> validate_holes (Some (hole_end h)) hs = Inr u"
    by (auto simp: result_simps checked_add_hole hole_ok_def hole_start_def word_le_nat_alt not_le
        split: option.splits if_splits)
  also have "\<dots> \<longleftrightarrow> separated (h # hs) \<and> (\<forall>e. previous = Some e \<longrightarrow> unat e < hole_start h)"
    using Cons.IH [of "Some (hole_end h)"] by (auto simp: separated_Cons unat_hole_end)
  finally show ?case by simp
qed

lemma validate_times_iff: "validate_times t = Inr u \<longleftrightarrow> (\<forall>v \<in> set (time_values t). valid_time v)"
  by (auto simp: validate_times_def for_each_Inr valid_time_def not_le)

lemma validate_native_acl_iff:
  "validate_native_acl acl = Inr u \<longleftrightarrow>
     (\<forall>a. acl = Some a \<longrightarrow> acl_bytes a \<noteq> [] \<and> length (acl_bytes a) < 2 ^ 32)"
  by (auto simp: validate_native_acl_def result_simps split: option.splits)

lemma metadata_validate_iff: "metadata_validate m = Inr u \<longleftrightarrow> metadata_canonical m"
  unfolding metadata_validate_def metadata_canonical_def result_simps validate_xattrs_iff
    validate_aces_iff validate_native_acl_iff validate_times_iff validate_holes_iff
  by (auto split: option.splits)

lemma metadata_new_iff: "metadata_new m = Inr c \<longleftrightarrow> c = m \<and> metadata_canonical m"
  by (auto simp: metadata_new_def and_then_Inr metadata_validate_iff)

section \<open>Canonical hole lists are unique\<close>

lemma covered_Nil [simp]: "covered [] = {}"
  by (simp add: covered_def)

lemma covered_Cons: "covered (h # hs) = {hole_start h ..< hole_stop h} \<union> covered hs"
  by (simp add: covered_def)

lemma separated_after:
  assumes "separated (h # hs)" and "i \<in> covered hs"
  shows "hole_stop h < i"
proof -
  from assms(2) obtain g where "g \<in> set hs" and "hole_start g \<le> i" by (auto simp: covered_def)
  then show ?thesis using assms(1) by (auto simp: separated_def)
qed

lemma separated_first:
  assumes "separated (h # hs)"
  shows "hole_start h \<in> covered (h # hs) \<and> (\<forall>i \<in> covered (h # hs). hole_start h \<le> i)"
  using assms separated_after [OF assms] hole_ok_less [of h]
  by (fastforce simp: covered_Cons separated_Cons)

lemma separated_gap:
  assumes "separated (h # hs)"
  shows "hole_stop h \<notin> covered (h # hs) \<and> (\<forall>i. hole_start h \<le> i \<and> i < hole_stop h \<longrightarrow> i \<in> covered (h # hs))"
  using separated_after [OF assms] by (auto simp: covered_Cons)

lemma separated_head_unique:
  assumes "separated (g # gs)" "separated (h # hs)" "covered (g # gs) = covered (h # hs)"
  shows "hole_start g = hole_start h \<and> hole_stop g = hole_stop h"
proof -
  have start: "hole_start g = hole_start h"
    using separated_first [OF assms(1)] separated_first [OF assms(2)] assms(3)
    by (metis le_antisym)
  have "hole_start g \<le> hole_stop g" "hole_start h \<le> hole_stop h"
    using assms(1,2) hole_ok_less by (auto simp: separated_Cons less_imp_le)
  then have "\<not> hole_stop g < hole_stop h" "\<not> hole_stop h < hole_stop g"
    using separated_gap [OF assms(1)] separated_gap [OF assms(2)] assms(3) start by metis+
  then show ?thesis using start by simp
qed

lemma hole_eqI: "hole_start g = hole_start h \<Longrightarrow> hole_stop g = hole_stop h \<Longrightarrow> g = (h :: hole)"
  by (simp add: hole_start_def hole_stop_def word_unat_eq_iff [symmetric])

lemma separated_unique:
  "separated gs \<Longrightarrow> separated hs \<Longrightarrow> covered gs = covered hs \<Longrightarrow> gs = hs"
proof (induction gs arbitrary: hs)
  case Nil
  then show ?case using separated_first by (cases hs) auto
next
  case (Cons g gs)
  then obtain h hs' where hs: "hs = h # hs'"
    using separated_first [OF Cons.prems(1)] by (cases hs) auto
  have gh: "g = h"
    using separated_head_unique [of g gs h hs'] Cons.prems hs by (simp add: hole_eqI)
  have "covered gs = covered (g # gs) - {hole_start g ..< hole_stop g}"
    using separated_after [OF Cons.prems(1)] by (fastforce simp: covered_Cons)
  also have "\<dots> = covered hs'"
    using separated_after [of h hs'] Cons.prems hs gh by (fastforce simp: covered_Cons)
  finally show ?case using Cons hs gh by (simp add: separated_Cons)
qed

section \<open>Merging holes\<close>

lemma hole_ok_merge:
  assumes "hole_ok p" "hole_ok h" "hole_start p \<le> hole_start h"
  defines "q \<equiv> p\<lparr>hole_length := max (hole_end p) (hole_end h) - hole_offset p\<rparr>"
  shows "hole_ok q \<and> hole_start q = hole_start p \<and> hole_stop q = max (hole_stop p) (hole_stop h)"
proof -
  have m: "unat (max (hole_end p) (hole_end h)) = max (hole_stop p) (hole_stop h)"
    using assms(1,2) by (simp add: max_def word_le_nat_alt unat_hole_end)
  have "hole_offset p \<le> max (hole_end p) (hole_end h)"
    using m hole_ok_less [OF assms(1)] by (simp add: word_le_nat_alt hole_start_def)
  then have "unat (hole_length q) = max (hole_stop p) (hole_stop h) - hole_start p"
    by (simp add: q_def unat_sub m hole_start_def)
  then have "hole_stop q = max (hole_stop p) (hole_stop h)" "hole_start q = hole_start p"
    using hole_ok_less [OF assms(1)] by (simp_all add: hole_stop_def hole_start_def q_def)
  moreover have "hole_stop q < 2 ^ 64" using calculation assms(1,2) by (auto simp: hole_ok_def)
  moreover have "hole_length q \<noteq> 0"
    using calculation hole_ok_less [OF assms(1)] by (auto simp: hole_stop_def hole_start_def)
  ultimately show ?thesis by (simp add: hole_ok_def)
qed

text \<open>What the merge loop keeps of \<open>holes[..count]\<close>, written in reverse.\<close>

definition merge_inv :: "hole list \<Rightarrow> bool" where
  "merge_inv out \<longleftrightarrow> (\<forall>p \<in> set out. hole_ok p) \<and> sorted_wrt (\<lambda>a b. hole_stop b < hole_start a) out"

lemma merge_step_inv:
  assumes inv: "merge_inv out" and h: "hole_ok h"
    and order: "\<And>p. p \<in> set out \<Longrightarrow> hole_start p \<le> hole_start h"
  shows "merge_inv (merge_step out h) \<and> covered (merge_step out h) = covered out \<union> covered [h]
    \<and> (\<forall>p \<in> set (merge_step out h). hole_start p \<le> hole_start h)"
proof (cases out)
  case Nil
  then show ?thesis using h by (simp add: merge_inv_def)
next
  case (Cons p ps)
  have p: "hole_ok p" "hole_start p \<le> hole_start h" using inv order Cons by (auto simp: merge_inv_def)
  show ?thesis
  proof (cases "hole_offset h \<le> hole_end p")
    case True
    let ?q = "p\<lparr>hole_length := max (hole_end p) (hole_end h) - hole_offset p\<rparr>"
    have q: "hole_ok ?q" "hole_start ?q = hole_start p" "hole_stop ?q = max (hole_stop p) (hole_stop h)"
      using hole_ok_merge [OF p(1) h p(2)] by auto
    have "hole_start h \<le> hole_stop p"
      using True p(1) by (simp add: word_le_nat_alt unat_hole_end hole_start_def)
    then have "{hole_start ?q ..< hole_stop ?q} = {hole_start p ..< hole_stop p} \<union> {hole_start h ..< hole_stop h}"
      using p q hole_ok_less [OF h] by auto
    moreover have "merge_inv (?q # ps)" using inv q Cons by (auto simp: merge_inv_def)
    ultimately show ?thesis using True Cons q order by (auto simp: covered_Cons)
  next
    case False
    then have "hole_stop p < hole_start h"
      using p(1) by (simp add: word_le_nat_alt unat_hole_end hole_start_def)
    moreover have "hole_stop r < hole_start h" if "r \<in> set ps" for r
      using that inv p Cons by (force simp: merge_inv_def)
    ultimately have "merge_inv (h # p # ps)" using inv h Cons by (auto simp: merge_inv_def)
    then show ?thesis using False Cons order by (auto simp: covered_Cons)
  qed
qed

lemma merge_loop_inv:
  "merge_inv out \<Longrightarrow> \<forall>h \<in> set hs. hole_ok h \<Longrightarrow> sorted (map hole_offset hs) \<Longrightarrow>
   \<forall>p \<in> set out. \<forall>h \<in> set hs. hole_start p \<le> hole_start h \<Longrightarrow>
   merge_inv (foldl merge_step out hs) \<and> covered (foldl merge_step out hs) = covered out \<union> covered hs"
proof (induction hs arbitrary: out)
  case (Cons h hs)
  have step: "merge_inv (merge_step out h)" "covered (merge_step out h) = covered out \<union> covered [h]"
    "\<forall>p \<in> set (merge_step out h). hole_start p \<le> hole_start h"
    using merge_step_inv [of out h] Cons.prems by auto
  moreover have "hole_start h \<le> hole_start g" if "g \<in> set hs" for g
    using Cons.prems(3) that by (auto simp: hole_start_def word_le_nat_alt)
  ultimately show ?case
    using Cons.IH [of "merge_step out h"] Cons.prems by (fastforce simp: covered_Cons)
qed simp

lemma merge_holes_separated:
  assumes "\<forall>h \<in> set hs. hole_ok h" and "sorted (map hole_offset hs)"
  shows "separated (merge_holes hs) \<and> covered (merge_holes hs) = covered hs"
  using merge_loop_inv [of "[]" hs] assms
  by (simp add: merge_inv_def merge_holes_def separated_def sorted_wrt_rev covered_def)

lemma merge_holes_id: "separated hs \<Longrightarrow> merge_holes hs = hs"
proof (rule separated_unique)
  assume sep: "separated hs"
  have "hole_offset a \<le> hole_offset b" if "a \<in> set hs" "hole_stop a < hole_start b" for a b
    using that sep hole_ok_less [of a] by (auto simp: separated_def word_le_nat_alt hole_start_def)
  then have "sorted_wrt (\<lambda>a b. hole_offset a \<le> hole_offset b) hs"
    using sep sorted_wrt_mono_rel [of hs "\<lambda>a b. hole_stop a < hole_start b"]
    by (simp add: separated_def)
  then have "sorted (map hole_offset hs)" by (simp add: sorted_wrt_map)
  then show "separated (merge_holes hs)" "covered (merge_holes hs) = covered hs"
    using merge_holes_separated [of hs] sep by (auto simp: separated_def)
qed

section \<open>Normalization lemmas\<close>

lemma check_neighbours_iff:
  "sorted (map (key :: 'a \<Rightarrow> 'k::linorder) xs) \<Longrightarrow>
     check_neighbours key d xs = Inr u \<longleftrightarrow> sorted_wrt (<) (map key xs)"
proof (induction key d xs rule: check_neighbours.induct)
  case (1 key d x y ys)
  have "sorted (map key (y # ys))" and "key x \<le> key y" using "1.prems" by auto
  then show ?case
    using "1.IH" by (auto simp: sorted_wrt_less_Cons [of key x] simp del: list.map)
qed auto

lemma omit_families_select [simp]:
  "xattrs (omit_families omit m) = (if omit_contains omit Xattr then [] else xattrs m)"
  "aces (omit_families omit m) = (if omit_contains omit Acl then [] else aces m)"
  "native_acl (omit_families omit m) = (if omit_contains omit Acl then None else native_acl m)"
  "mtimes (omit_families omit m) = (if omit_contains omit Timestamps then times_default else mtimes m)"
  "finder_flags (omit_families omit m) = (if omit_contains omit Finder then 0 else finder_flags m)"
  "finder_info (omit_families omit m) = (if omit_contains omit Finder then None else finder_info m)"
  "holes (omit_families omit m) = (if omit_contains omit Sparse then [] else holes m)"
  "hardlink_to (omit_families omit m) = (if omit_contains omit Hardlink then None else hardlink_to m)"
  by (simp_all add: omit_families_def family_all_def)

text \<open>Acceptance of a raw record: every family valid, and no two attributes or entries of one key.\<close>

definition normalizable :: "metadata \<Rightarrow> bool" where
  "normalizable m \<longleftrightarrow>
     length (xattrs m) < 2 ^ 32 \<and> (\<forall>x \<in> set (xattrs m). check_xattr x = Inr ())
     \<and> distinct (map xattr_key (xattrs m))
     \<and> length (aces m) < 2 ^ 32 \<and> (\<forall>a \<in> set (aces m). check_ace a = Inr ())
     \<and> distinct (map ace_key (aces m))
     \<and> (\<forall>acl. native_acl m = Some acl \<longrightarrow> acl_bytes acl \<noteq> [] \<and> length (acl_bytes acl) < 2 ^ 32)
     \<and> (\<forall>t \<in> set (time_values (mtimes m)). valid_time t)
     \<and> length (holes m) < 2 ^ 32 \<and> (\<forall>h \<in> set (holes m). hole_ok h)
     \<and> (\<forall>path. hardlink_to m = Some path \<longrightarrow> validate_hardlink path = Inr ())"

definition normal_form :: "metadata \<Rightarrow> metadata" where
  "normal_form m = m\<lparr>xattrs := sort_key xattr_key (xattrs m), aces := sort_key ace_key (aces m),
     holes := merge_holes (sort_key hole_offset (holes m))\<rparr>"

lemma strict_sort_key:
  "sorted_wrt (<) (map key (sort_key key xs)) \<longleftrightarrow> distinct (map (key :: 'a \<Rightarrow> 'k::linorder) xs)"
proof -
  have "sorted_wrt (<) (map key (sort_key key xs)) \<longleftrightarrow> distinct (map key (sort_key key xs))"
    by (simp add: strict_sorted_iff)
  also have "\<dots> \<longleftrightarrow> distinct (map key xs)"
    by (metis distinct_map distinct_sort set_sort)
  finally show ?thesis .
qed

lemma length_merge_step: "length (merge_step out h) \<le> Suc (length out)"
  by (cases out) simp_all

lemma length_merge_holes: "length (merge_holes hs) \<le> length hs"
proof -
  have "length (foldl merge_step out hs) \<le> length out + length hs" for out
  proof (induction hs arbitrary: out)
    case (Cons h hs)
    show ?case using Cons.IH [of "merge_step out h"] length_merge_step [of out h] by simp
  qed simp
  from this [of "[]"] show ?thesis by (simp add: merge_holes_def)
qed

lemma merge_sorted_holes:
  "\<forall>h \<in> set hs. hole_ok h \<Longrightarrow> separated (merge_holes (sort_key hole_offset hs))
     \<and> covered (merge_holes (sort_key hole_offset hs)) = covered hs"
  using merge_holes_separated [of "sort_key hole_offset hs"] by (simp add: covered_def)

lemma normal_form_canonical:
  assumes "normalizable m"
  shows "metadata_canonical (normal_form m)"
  using assms merge_sorted_holes [of "holes m"] length_merge_holes [of "sort_key hole_offset (holes m)"]
  by (auto simp: metadata_canonical_def normalizable_def normal_form_def strict_sort_key)

lemma metadata_normalize_iff:
  "metadata_normalize raw omit = Inr m \<longleftrightarrow>
     normalizable (omit_families omit raw) \<and> m = normal_form (omit_families omit raw)"
proof -
  let ?m = "omit_families omit raw"
  have "metadata_normalize raw omit = Inr m \<longleftrightarrow>
     length (xattrs ?m) < 2 ^ 32 \<and> (\<forall>x \<in> set (xattrs ?m). check_xattr x = Inr ())
     \<and> distinct (map xattr_key (xattrs ?m))
     \<and> length (aces ?m) < 2 ^ 32 \<and> (\<forall>a \<in> set (aces ?m). check_ace a = Inr ())
     \<and> distinct (map ace_key (aces ?m))
     \<and> (\<forall>acl. native_acl ?m = Some acl \<longrightarrow> acl_bytes acl \<noteq> [] \<and> length (acl_bytes acl) < 2 ^ 32)
     \<and> (\<forall>t \<in> set (time_values (mtimes ?m)). valid_time t)
     \<and> length (holes ?m) < 2 ^ 32 \<and> (\<forall>h \<in> set (holes ?m). hole_ok h)
     \<and> metadata_new (normal_form ?m) = Inr m"
    unfolding metadata_normalize_def Let_def result_simps check_neighbours_iff [OF sorted_sort_key]
      strict_sort_key validate_native_acl_iff validate_times_iff check_hole_iff normal_form_def
    by simp
  also have "\<dots> \<longleftrightarrow> normalizable ?m \<and> m = normal_form ?m"
    using normal_form_canonical [of ?m]
    by (auto simp: metadata_new_iff normalizable_def metadata_canonical_def normal_form_def
        simp del: omit_families_select)
  finally show ?thesis .
qed

lemma sort_key_canonical:
  assumes "mset xs = mset ys" and "sorted_wrt (<) (map (key :: 'a \<Rightarrow> 'k::linorder) ys)"
  shows "sort_key key xs = ys"
proof (rule sort_key_inj_key_eq)
  have "distinct (map key ys)" and sorted: "sorted (map key ys)"
    using assms(2) by (auto simp: strict_sorted_iff)
  moreover have "set xs = set ys" using assms(1) by (metis set_mset_mset)
  ultimately show "inj_on key (set xs)" and "sorted (map key ys)" by (simp_all add: distinct_map)
qed (rule assms(1))

lemma normal_form_id: "metadata_canonical m \<Longrightarrow> normal_form m = m"
proof -
  assume c: "metadata_canonical m"
  then have "sort_key xattr_key (xattrs m) = xattrs m" "sort_key ace_key (aces m) = aces m"
    by (auto simp: metadata_canonical_def intro: sort_key_canonical)
  moreover have "\<forall>h \<in> set (holes m). hole_ok h" using c by (simp add: metadata_canonical_def separated_def)
  then have "merge_holes (sort_key hole_offset (holes m)) = holes m"
    using c merge_sorted_holes separated_unique by (metis metadata_canonical_def)
  ultimately show "normal_form m = m" by (simp add: normal_form_def)
qed

lemma canonical_normalizable: "metadata_canonical m \<Longrightarrow> normalizable m"
  by (auto simp: metadata_canonical_def normalizable_def strict_sorted_iff separated_def)

lemma canonical_omit: "metadata_canonical m \<Longrightarrow> metadata_canonical (omit_families omit m)"
  by (auto simp: metadata_canonical_def separated_def time_values_def times_default_def
      List.map_filter_def)

lemma omit_families_none [simp]: "omit_families 0 m = m"
  by (simp add: omit_families_def family_all_def)

lemma metadata_normalize_of_canonical:
  "metadata_canonical m \<Longrightarrow> metadata_normalize m omit = Inr (omit_families omit m)"
  by (simp add: metadata_normalize_iff canonical_omit canonical_normalizable normal_form_id)

text \<open>A captured record for instances: two attributes and three holes out of order, and its normal form.\<close>

definition sample_metadata :: metadata where
  "sample_metadata = metadata_default\<lparr>
     xattrs := [\<lparr>x_class = Raw, x_name = ascii ''security.selinux'', x_value = [7]\<rparr>,
                \<lparr>x_class = Logical, x_name = ascii ''note'', x_value = [1, 2]\<rparr>],
     holes := [\<lparr>hole_offset = 8, hole_length = 4\<rparr>, \<lparr>hole_offset = 0, hole_length = 2\<rparr>,
               \<lparr>hole_offset = 2, hole_length = 3\<rparr>],
     finder_flags := 5\<rparr>"

definition sample_normal :: metadata where
  "sample_normal = metadata_default\<lparr>
     xattrs := [\<lparr>x_class = Logical, x_name = ascii ''note'', x_value = [1, 2]\<rparr>,
                \<lparr>x_class = Raw, x_name = ascii ''security.selinux'', x_value = [7]\<rparr>],
     holes := [\<lparr>hole_offset = 0, hole_length = 5\<rparr>, \<lparr>hole_offset = 8, hole_length = 4\<rparr>],
     finder_flags := 5\<rparr>"

lemma sample_normalizes: "metadata_normalize sample_metadata 0 = Inr sample_normal"
  by code_simp

lemma sample_normal_canonical: "metadata_canonical sample_normal"
  using sample_normalizes normal_form_canonical by (metis metadata_normalize_iff)

section \<open>Properties of canonical metadata\<close>

text \<open>C13. Validation is exactly the declarative notion of a canonical record: attributes and access
  entries valid and strictly ordered by their keys, counts and blobs within 32-bit lengths, times in
  range, holes non-empty, in order, without overflow and with data between any two, and a valid
  hard-link path.\<close>

theorem metadata_validate_canonical:
  "metadata_validate m = Inr () \<longleftrightarrow> metadata_canonical m"
  by (rule metadata_validate_iff)

text \<open>C14. Normalization returns a canonical record that keeps the meaning of what it was given: the
  omitted families are empty, the attributes and access entries are the same up to order, the holes
  cover exactly the same bytes, and every other field is unchanged. Normalizing it again changes
  nothing.\<close>

theorem metadata_normalize_keeps:
  assumes "metadata_normalize raw omit = Inr m"
  shows "metadata_canonical m \<and> metadata_normalize m 0 = Inr m
    \<and> mset (xattrs m) = (if omit_contains omit Xattr then {#} else mset (xattrs raw))
    \<and> mset (aces m) = (if omit_contains omit Acl then {#} else mset (aces raw))
    \<and> native_acl m = (if omit_contains omit Acl then None else native_acl raw)
    \<and> mtimes m = (if omit_contains omit Timestamps then times_default else mtimes raw)
    \<and> finder_flags m = (if omit_contains omit Finder then 0 else finder_flags raw)
    \<and> finder_info m = (if omit_contains omit Finder then None else finder_info raw)
    \<and> covered (holes m) = (if omit_contains omit Sparse then {} else covered (holes raw))
    \<and> hardlink_to m = (if omit_contains omit Hardlink then None else hardlink_to raw)"
proof -
  from assms have n: "normalizable (omit_families omit raw)"
    and m: "m = normal_form (omit_families omit raw)"
    by (simp_all add: metadata_normalize_iff)
  have c: "metadata_canonical m" using n m normal_form_canonical by simp
  have "\<forall>h \<in> set (holes (omit_families omit raw)). hole_ok h" using n by (simp add: normalizable_def)
  from merge_sorted_holes [OF this] c show ?thesis
    by (simp add: metadata_normalize_of_canonical m normal_form_def)
qed

theorem metadata_normalize_keeps_witness:
  "metadata_canonical sample_normal \<and> metadata_normalize sample_normal 0 = Inr sample_normal
     \<and> mset (xattrs sample_normal) = mset (xattrs sample_metadata)
     \<and> covered (holes sample_normal) = covered (holes sample_metadata)"
  using metadata_normalize_keeps [OF sample_normalizes] by simp

text \<open>C15. The normal form does not depend on how the record was captured: two records with the same
  attributes and entries in any order and holes that cover the same bytes normalize to the same
  canonical record, whatever order the code's unstable sorts give to equal hole offsets.\<close>

theorem metadata_normalize_unique:
  assumes "metadata_normalize raw omit = Inr m" and "metadata_normalize raw' omit = Inr m'"
    and "mset (xattrs raw) = mset (xattrs raw')" and "mset (aces raw) = mset (aces raw')"
    and "covered (holes raw) = covered (holes raw')"
    and "native_acl raw = native_acl raw'" "mtimes raw = mtimes raw'"
      "finder_flags raw = finder_flags raw'" "finder_info raw = finder_info raw'"
      "hardlink_to raw = hardlink_to raw'"
  shows "m = m'"
proof -
  let ?r = "omit_families omit raw" and ?s = "omit_families omit raw'"
  have r: "normalizable ?r" "m = normal_form ?r" and s: "normalizable ?s" "m' = normal_form ?s"
    using assms(1,2) by (simp_all add: metadata_normalize_iff)
  have c: "metadata_canonical (normal_form ?s)" using s normal_form_canonical by simp
  have "sort_key xattr_key (xattrs ?r) = xattrs (normal_form ?s)"
    "sort_key ace_key (aces ?r) = aces (normal_form ?s)"
    using c assms(3,4) by (intro sort_key_canonical; simp add: metadata_canonical_def normal_form_def)+
  moreover have "merge_holes (sort_key hole_offset (holes ?r)) = merge_holes (sort_key hole_offset (holes ?s))"
    using r(1) s(1) assms(5) merge_sorted_holes [of "holes ?r"] merge_sorted_holes [of "holes ?s"]
    by (intro separated_unique) (auto simp: normalizable_def)
  ultimately show ?thesis
    using assms(6-) by (simp add: r(2) s(2) normal_form_def)
qed

theorem metadata_normalize_unique_witness:
  "\<exists>m m'. metadata_normalize sample_metadata 0 = Inr m
     \<and> metadata_normalize (sample_metadata\<lparr>xattrs := rev (xattrs sample_metadata),
         holes := rev (holes sample_metadata)\<rparr>) 0 = Inr m' \<and> m = m'"
proof -
  have "metadata_normalize (sample_metadata\<lparr>xattrs := rev (xattrs sample_metadata),
     holes := rev (holes sample_metadata)\<rparr>) 0 = Inr sample_normal"
    by code_simp
  with metadata_normalize_unique [OF sample_normalizes this] sample_normalizes
  show ?thesis by (auto simp: covered_def)
qed

end
