(* ===== verification/Metadata_Restore.thy ===== *)
theory Metadata_Restore
  imports Metadata_Canonical
begin

text \<open>
  Native attribute names (\<open>rust/src/attribute_name.rs\<close>) and the pure restoration plan
  (\<open>rust/src/metadata_restore.rs\<close>). \<open>to_native\<close> writes into a caller's buffer: its model
  returns the new content of the buffer, and the name in front of the terminator is the resulting C
  string. The plan's fixed array of compromises with its used length is the list of the used slots;
  a push beyond the array's ten slots is the error of the code.
\<close>

section \<open>Native attribute names\<close>

datatype name_error = InvalidName

definition to_native :: "os \<Rightarrow> xattr_class \<Rightarrow> bytes \<Rightarrow> bytes \<Rightarrow> name_error + bytes" where
  "to_native os class name output =
     and_then
       (case class of
          Logical \<Rightarrow> map_err (\<lambda>_. InvalidName) (validate_logical_name name)
        | Raw \<Rightarrow>
            (let maximum = (case os of Macos \<Rightarrow> 127 | _ \<Rightarrow> 255) in
             if name = [] \<or> length name > maximum \<or> 0 \<in> set name
               \<or> os = Mswin \<and> (list_ex (\<lambda>b. b \<in> {58, 92, 47}) name \<or> \<not> from_utf8_ok name)
             then Inl InvalidName else Inr ())) (\<lambda>_.
     let p = (if os = Linux \<and> class = Logical then ascii ''user.'' else []);
         n = length p + length name in
     if length output \<le> n then Inl InvalidName
     else
       let output = p @ name @ [0] @ drop (n + 1) output in
       (if 0 \<in> set (take n output) then Inl InvalidName else Inr output))"

text \<open>The C string at the start of a buffer.\<close>

definition c_string :: "bytes \<Rightarrow> bytes" where
  "c_string output = takeWhile (\<lambda>b. b \<noteq> 0) output"

definition from_native :: "os \<Rightarrow> xattr_class \<Rightarrow> bytes \<Rightarrow> bytes option" where
  "from_native os class native =
     (case class of
        Raw \<Rightarrow> Some native
      | Logical \<Rightarrow>
          Option.bind (case os of Linux \<Rightarrow> strip_prefix native (ascii ''user.'') | _ \<Rightarrow> Some native)
            (\<lambda>logical. if validate_logical_name logical = Inr () then Some logical else None))"

section \<open>Restoration plans\<close>

datatype restore_error = PlanImpossible

record capabilities =
  cap_os :: os
  cap_set_btime :: bool
  cap_punch_holes :: bool
  cap_hardlink :: bool
  cap_portable_acl :: bool
  cap_native_acl :: bool
  cap_bsd_flags :: bool
  cap_finder_info :: bool
  cap_logical_xattr :: bool

definition for_os :: "os \<Rightarrow> capabilities" where
  "for_os os =
     (case os of
        Linux \<Rightarrow> \<lparr>cap_os = os, cap_set_btime = False, cap_punch_holes = True, cap_hardlink = True,
          cap_portable_acl = True, cap_native_acl = True, cap_bsd_flags = False,
          cap_finder_info = False, cap_logical_xattr = True\<rparr>
      | Macos \<Rightarrow> \<lparr>cap_os = os, cap_set_btime = True, cap_punch_holes = True, cap_hardlink = True,
          cap_portable_acl = True, cap_native_acl = True, cap_bsd_flags = True,
          cap_finder_info = True, cap_logical_xattr = True\<rparr>
      | Mswin \<Rightarrow> \<lparr>cap_os = os, cap_set_btime = True, cap_punch_holes = False, cap_hardlink = True,
          cap_portable_acl = False, cap_native_acl = True, cap_bsd_flags = False,
          cap_finder_info = False, cap_logical_xattr = True\<rparr>)"

record restore_actions =
  act_logical_xattr :: bool
  act_raw_xattr :: bool
  act_raw_xattr_sidecar :: bool
  act_portable_acl :: bool
  act_portable_acl_sidecar :: bool
  act_native_acl :: bool
  act_native_acl_sidecar :: bool
  act_mtime_atime :: bool
  act_btime :: bool
  act_btime_sidecar :: bool
  act_bsd_flags :: bool
  act_bsd_flags_sidecar :: bool
  act_finder_info :: bool
  act_finder_info_sidecar :: bool
  act_punch_holes :: bool
  act_sparse_sidecar :: bool
  act_hardlink :: bool
  act_hardlink_copy :: bool

definition actions_default :: restore_actions where
  "actions_default = \<lparr>act_logical_xattr = False, act_raw_xattr = False, act_raw_xattr_sidecar = False,
     act_portable_acl = False, act_portable_acl_sidecar = False, act_native_acl = False,
     act_native_acl_sidecar = False, act_mtime_atime = False, act_btime = False,
     act_btime_sidecar = False, act_bsd_flags = False, act_bsd_flags_sidecar = False,
     act_finder_info = False, act_finder_info_sidecar = False, act_punch_holes = False,
     act_sparse_sidecar = False, act_hardlink = False, act_hardlink_copy = False\<rparr>"

datatype compromise_code = Code_NativeAclPreserved | Code_PortableAclPreserved
  | Code_FinderFlagsPreserved | Code_FinderInfoPreserved | Code_BirthTimePreserved
  | Code_SparsePreserved | Code_HardlinkCopied | Code_RawXattrPreserved
  | Code_SymlinkMetadataPreserved | Code_ModificationTimePreserved

fun compromise_code_tag :: "compromise_code \<Rightarrow> nat" where
  "compromise_code_tag Code_NativeAclPreserved = 1"
| "compromise_code_tag Code_PortableAclPreserved = 2"
| "compromise_code_tag Code_FinderFlagsPreserved = 3"
| "compromise_code_tag Code_FinderInfoPreserved = 4"
| "compromise_code_tag Code_BirthTimePreserved = 5"
| "compromise_code_tag Code_SparsePreserved = 6"
| "compromise_code_tag Code_HardlinkCopied = 7"
| "compromise_code_tag Code_RawXattrPreserved = 8"
| "compromise_code_tag Code_SymlinkMetadataPreserved = 9"
| "compromise_code_tag Code_ModificationTimePreserved = 10"

datatype compromise = NativeAclPreserved os bool | PortableAclPreserved | FinderFlagsPreserved
  | FinderInfoPreserved | BirthTimePreserved | SparsePreserved | HardlinkCopied | RawXattrPreserved

fun compromise_code_of :: "compromise \<Rightarrow> compromise_code" where
  "compromise_code_of (NativeAclPreserved _ _) = Code_NativeAclPreserved"
| "compromise_code_of PortableAclPreserved = Code_PortableAclPreserved"
| "compromise_code_of FinderFlagsPreserved = Code_FinderFlagsPreserved"
| "compromise_code_of FinderInfoPreserved = Code_FinderInfoPreserved"
| "compromise_code_of BirthTimePreserved = Code_BirthTimePreserved"
| "compromise_code_of SparsePreserved = Code_SparsePreserved"
| "compromise_code_of HardlinkCopied = Code_HardlinkCopied"
| "compromise_code_of RawXattrPreserved = Code_RawXattrPreserved"

fun compromise_family :: "compromise \<Rightarrow> family" where
  "compromise_family (NativeAclPreserved _ _) = Acl"
| "compromise_family PortableAclPreserved = Acl"
| "compromise_family FinderFlagsPreserved = Finder"
| "compromise_family FinderInfoPreserved = Finder"
| "compromise_family BirthTimePreserved = Timestamps"
| "compromise_family SparsePreserved = Sparse"
| "compromise_family HardlinkCopied = Hardlink"
| "compromise_family RawXattrPreserved = Xattr"

type_synonym restore_report = u32

definition report_add :: "restore_report \<Rightarrow> compromise_code \<Rightarrow> restore_report" where
  "report_add report code = report OR push_bit (compromise_code_tag code - 1) 1"

record restore_plan =
  plan_actions :: restore_actions
  plan_compromises :: "compromise list"

definition COMPROMISE_CODES :: nat where
  "COMPROMISE_CODES = 10"

definition plan_push :: "compromise \<Rightarrow> restore_plan \<Rightarrow> restore_error + restore_plan" where
  "plan_push c plan =
     (if length (plan_compromises plan) < COMPROMISE_CODES
      then Inr (plan\<lparr>plan_compromises := plan_compromises plan @ [c]\<rparr>)
      else Inl PlanImpossible)"

definition act :: "(restore_actions \<Rightarrow> restore_actions) \<Rightarrow> restore_plan \<Rightarrow> restore_plan" where
  "act f plan = plan\<lparr>plan_actions := f (plan_actions plan)\<rparr>"

definition require_transport :: "capabilities \<Rightarrow> restore_error + unit" where
  "require_transport caps = (if cap_logical_xattr caps then Inr () else Inl PlanImpossible)"

definition plan_xattr :: "capabilities \<Rightarrow> xattr \<Rightarrow> restore_plan \<Rightarrow> restore_plan" where
  "plan_xattr caps x plan =
     (case x_class x of
        Logical \<Rightarrow> act (act_logical_xattr_update (\<lambda>_. True)) plan
      | Raw \<Rightarrow>
          if raw_accepted (cap_os caps) (x_name x) then act (act_raw_xattr_update (\<lambda>_. True)) plan
          else act (act_raw_xattr_sidecar_update (\<lambda>_. True)) plan)"

definition plan_xattrs :: "capabilities \<Rightarrow> xattr list \<Rightarrow> restore_plan \<Rightarrow> restore_error + restore_plan" where
  "plan_xattrs caps xs plan =
     (let plan = fold (plan_xattr caps) xs plan; a = plan_actions plan in
      and_then (if act_logical_xattr a \<or> act_raw_xattr_sidecar a then require_transport caps else Inr ())
        (\<lambda>_. if act_raw_xattr_sidecar a then plan_push RawXattrPreserved plan else Inr plan))"

definition plan_acl ::
  "capabilities \<Rightarrow> ace list \<Rightarrow> native_acl option \<Rightarrow> restore_plan \<Rightarrow> restore_error + restore_plan" where
  "plan_acl caps as acl plan =
     (case acl of
        Some acl \<Rightarrow>
          if cap_native_acl caps \<and> acl_origin acl = cap_os caps
          then Inr (act (act_native_acl_update (\<lambda>_. True)) plan)
          else
            and_then (require_transport caps) (\<lambda>_.
            let applied = (as \<noteq> [] \<and> cap_portable_acl caps);
                sidecar = (as \<noteq> [] \<and> \<not> cap_portable_acl caps);
                plan = act (\<lambda>a. a\<lparr>act_native_acl_sidecar := True, act_portable_acl := applied,
                         act_portable_acl_sidecar := sidecar\<rparr>) plan in
            and_then (plan_push (NativeAclPreserved (acl_origin acl) applied) plan) (\<lambda>plan.
            if sidecar then plan_push PortableAclPreserved plan else Inr plan))
      | None \<Rightarrow>
          if as \<noteq> [] then
            if cap_portable_acl caps then Inr (act (act_portable_acl_update (\<lambda>_. True)) plan)
            else
              and_then (require_transport caps) (\<lambda>_.
              plan_push PortableAclPreserved (act (act_portable_acl_sidecar_update (\<lambda>_. True)) plan))
          else Inr plan)"

text \<open>
  The shape the remaining families share: nothing when the field is absent, the native action when
  the capability is there, otherwise transport, the sidecar action and the compromise.
\<close>

definition plan_field :: "capabilities \<Rightarrow> bool \<Rightarrow> bool \<Rightarrow> (restore_actions \<Rightarrow> restore_actions)
    \<Rightarrow> (restore_actions \<Rightarrow> restore_actions) \<Rightarrow> compromise \<Rightarrow> restore_plan \<Rightarrow> restore_error + restore_plan" where
  "plan_field caps present capable native sidecar c plan =
     (if present then
        if capable then Inr (act native plan)
        else and_then (require_transport caps) (\<lambda>_. plan_push c (act sidecar plan))
      else Inr plan)"

definition restore_plan_new :: "metadata \<Rightarrow> capabilities \<Rightarrow> restore_error + restore_plan" where
  "restore_plan_new m caps =
     (let plan = \<lparr>plan_actions = actions_default, plan_compromises = []\<rparr> in
      and_then (plan_xattrs caps (xattrs m) plan) (\<lambda>plan.
      and_then (plan_acl caps (aces m) (native_acl m) plan) (\<lambda>plan.
      let plan = act (act_mtime_atime_update
            (\<lambda>_. mtime (mtimes m) \<noteq> None \<or> atime (mtimes m) \<noteq> None)) plan in
      and_then (plan_field caps (btime (mtimes m) \<noteq> None) (cap_set_btime caps)
        (act_btime_update (\<lambda>_. True)) (act_btime_sidecar_update (\<lambda>_. True)) BirthTimePreserved plan) (\<lambda>plan.
      and_then (plan_field caps (finder_flags m \<noteq> 0) (cap_bsd_flags caps)
        (act_bsd_flags_update (\<lambda>_. True)) (act_bsd_flags_sidecar_update (\<lambda>_. True)) FinderFlagsPreserved plan) (\<lambda>plan.
      and_then (plan_field caps (finder_info m \<noteq> None) (cap_finder_info caps)
        (act_finder_info_update (\<lambda>_. True)) (act_finder_info_sidecar_update (\<lambda>_. True)) FinderInfoPreserved plan) (\<lambda>plan.
      and_then (plan_field caps (holes m \<noteq> []) (cap_punch_holes caps)
        (act_punch_holes_update (\<lambda>_. True)) (act_sparse_sidecar_update (\<lambda>_. True)) SparsePreserved plan) (\<lambda>plan.
      plan_field caps (hardlink_to m \<noteq> None) (cap_hardlink caps)
        (act_hardlink_update (\<lambda>_. True)) (act_hardlink_copy_update (\<lambda>_. True)) HardlinkCopied plan)))))))"

section \<open>What a plan should contain\<close>

definition has_logical :: "metadata \<Rightarrow> bool" where
  "has_logical m \<longleftrightarrow> (\<exists>x \<in> set (xattrs m). x_class x = Logical)"

definition has_raw :: "bool \<Rightarrow> capabilities \<Rightarrow> metadata \<Rightarrow> bool" where
  "has_raw accepted caps m \<longleftrightarrow>
     (\<exists>x \<in> set (xattrs m). x_class x = Raw \<and> raw_accepted (cap_os caps) (x_name x) = accepted)"

text \<open>The native ACL can be applied as it is.\<close>

definition acl_native :: "capabilities \<Rightarrow> metadata \<Rightarrow> bool" where
  "acl_native caps m \<longleftrightarrow>
     (\<exists>acl. native_acl m = Some acl \<and> cap_native_acl caps \<and> acl_origin acl = cap_os caps)"

definition acl_foreign :: "capabilities \<Rightarrow> metadata \<Rightarrow> bool" where
  "acl_foreign caps m \<longleftrightarrow> native_acl m \<noteq> None \<and> \<not> acl_native caps m"

text \<open>Portable entries matter unless the native ACL stands for them.\<close>

definition aces_wanted :: "capabilities \<Rightarrow> metadata \<Rightarrow> bool" where
  "aces_wanted caps m \<longleftrightarrow> aces m \<noteq> [] \<and> \<not> acl_native caps m"

definition lost :: "bool \<Rightarrow> bool \<Rightarrow> compromise \<Rightarrow> compromise list" where
  "lost present capable c = (if present \<and> \<not> capable then [c] else [])"

definition expected_compromises :: "capabilities \<Rightarrow> metadata \<Rightarrow> compromise list" where
  "expected_compromises caps m =
     lost (has_raw False caps m) False RawXattrPreserved
     @ lost (acl_foreign caps m) False
         (NativeAclPreserved (acl_origin (the (native_acl m))) (aces m \<noteq> [] \<and> cap_portable_acl caps))
     @ lost (aces_wanted caps m) (cap_portable_acl caps) PortableAclPreserved
     @ lost (btime (mtimes m) \<noteq> None) (cap_set_btime caps) BirthTimePreserved
     @ lost (finder_flags m \<noteq> 0) (cap_bsd_flags caps) FinderFlagsPreserved
     @ lost (finder_info m \<noteq> None) (cap_finder_info caps) FinderInfoPreserved
     @ lost (holes m \<noteq> []) (cap_punch_holes caps) SparsePreserved
     @ lost (hardlink_to m \<noteq> None) (cap_hardlink caps) HardlinkCopied"

definition expected_actions :: "capabilities \<Rightarrow> metadata \<Rightarrow> restore_actions" where
  "expected_actions caps m = \<lparr>
     act_logical_xattr = has_logical m,
     act_raw_xattr = has_raw True caps m,
     act_raw_xattr_sidecar = has_raw False caps m,
     act_portable_acl = (aces_wanted caps m \<and> cap_portable_acl caps),
     act_portable_acl_sidecar = (aces_wanted caps m \<and> \<not> cap_portable_acl caps),
     act_native_acl = acl_native caps m,
     act_native_acl_sidecar = acl_foreign caps m,
     act_mtime_atime = (mtime (mtimes m) \<noteq> None \<or> atime (mtimes m) \<noteq> None),
     act_btime = (btime (mtimes m) \<noteq> None \<and> cap_set_btime caps),
     act_btime_sidecar = (btime (mtimes m) \<noteq> None \<and> \<not> cap_set_btime caps),
     act_bsd_flags = (finder_flags m \<noteq> 0 \<and> cap_bsd_flags caps),
     act_bsd_flags_sidecar = (finder_flags m \<noteq> 0 \<and> \<not> cap_bsd_flags caps),
     act_finder_info = (finder_info m \<noteq> None \<and> cap_finder_info caps),
     act_finder_info_sidecar = (finder_info m \<noteq> None \<and> \<not> cap_finder_info caps),
     act_punch_holes = (holes m \<noteq> [] \<and> cap_punch_holes caps),
     act_sparse_sidecar = (holes m \<noteq> [] \<and> \<not> cap_punch_holes caps),
     act_hardlink = (hardlink_to m \<noteq> None \<and> cap_hardlink caps),
     act_hardlink_copy = (hardlink_to m \<noteq> None \<and> \<not> cap_hardlink caps)\<rparr>"

text \<open>Some part of the record has to be carried by an attribute.\<close>

definition needs_transport :: "capabilities \<Rightarrow> metadata \<Rightarrow> bool" where
  "needs_transport caps m \<longleftrightarrow> has_logical m \<or> expected_compromises caps m \<noteq> []"

section \<open>Plan lemmas\<close>

lemma length_lost: "length (lost p c x) \<le> 1"
  by (simp add: lost_def)

lemma and_then_if_Inl: "and_then (if b then Inl e else r) f = (if b then Inl e else and_then r f)"
  by simp

definition field_action :: "bool \<Rightarrow> bool \<Rightarrow> (restore_actions \<Rightarrow> restore_actions)
    \<Rightarrow> (restore_actions \<Rightarrow> restore_actions) \<Rightarrow> restore_actions \<Rightarrow> restore_actions" where
  "field_action present capable native sidecar a =
     (if present then if capable then native a else sidecar a else a)"

lemma plan_field_eq:
  "length cs < 10 \<Longrightarrow> plan_field caps p c n s k \<lparr>plan_actions = a, plan_compromises = cs\<rparr> =
     (if p \<and> \<not> c \<and> \<not> cap_logical_xattr caps then Inl PlanImpossible
      else Inr \<lparr>plan_actions = field_action p c n s a, plan_compromises = cs @ lost p c k\<rparr>)"
  by (simp add: plan_field_def require_transport_def plan_push_def act_def COMPROMISE_CODES_def lost_def
      field_action_def)

lemma fold_plan_xattr:
  "fold (plan_xattr caps) xs \<lparr>plan_actions = a, plan_compromises = cs\<rparr> =
     \<lparr>plan_actions = a\<lparr>
        act_logical_xattr := act_logical_xattr a \<or> (\<exists>x \<in> set xs. x_class x = Logical),
        act_raw_xattr := act_raw_xattr a
          \<or> (\<exists>x \<in> set xs. x_class x = Raw \<and> raw_accepted (cap_os caps) (x_name x)),
        act_raw_xattr_sidecar := act_raw_xattr_sidecar a
          \<or> (\<exists>x \<in> set xs. x_class x = Raw \<and> \<not> raw_accepted (cap_os caps) (x_name x))\<rparr>,
      plan_compromises = cs\<rparr>"
proof (induction xs arbitrary: a)
  case (Cons x xs)
  then show ?case by (cases "x_class x") (auto simp: plan_xattr_def act_def)
qed simp

lemma plan_xattrs_eq:
  "plan_xattrs caps (xattrs m) \<lparr>plan_actions = actions_default, plan_compromises = []\<rparr> =
     (if (has_logical m \<or> has_raw False caps m) \<and> \<not> cap_logical_xattr caps then Inl PlanImpossible
      else Inr \<lparr>plan_actions = actions_default\<lparr>act_logical_xattr := has_logical m,
           act_raw_xattr := has_raw True caps m, act_raw_xattr_sidecar := has_raw False caps m\<rparr>,
         plan_compromises = lost (has_raw False caps m) False RawXattrPreserved\<rparr>)"
  by (auto simp: plan_xattrs_def fold_plan_xattr has_logical_def has_raw_def require_transport_def
      plan_push_def COMPROMISE_CODES_def lost_def actions_default_def Let_def)

lemma plan_acl_eq:
  assumes "length cs \<le> 1" and "\<not> act_portable_acl a" "\<not> act_portable_acl_sidecar a"
    "\<not> act_native_acl a" "\<not> act_native_acl_sidecar a"
  shows "plan_acl caps (aces m) (native_acl m) \<lparr>plan_actions = a, plan_compromises = cs\<rparr> =
     (if (acl_foreign caps m \<or> aces_wanted caps m \<and> \<not> cap_portable_acl caps)
         \<and> \<not> cap_logical_xattr caps then Inl PlanImpossible
      else Inr \<lparr>plan_actions = a\<lparr>act_portable_acl := aces_wanted caps m \<and> cap_portable_acl caps,
             act_portable_acl_sidecar := aces_wanted caps m \<and> \<not> cap_portable_acl caps,
             act_native_acl := acl_native caps m, act_native_acl_sidecar := acl_foreign caps m\<rparr>,
         plan_compromises = cs @ lost (acl_foreign caps m) False
             (NativeAclPreserved (acl_origin (the (native_acl m))) (aces m \<noteq> [] \<and> cap_portable_acl caps))
           @ lost (aces_wanted caps m) (cap_portable_acl caps) PortableAclPreserved\<rparr>)"
  using assms
  by (cases "native_acl m")
    (auto simp: plan_acl_def acl_foreign_def acl_native_def aces_wanted_def require_transport_def
      plan_push_def COMPROMISE_CODES_def lost_def act_def Let_def intro!: restore_actions.equality)

lemma actions_default_acl:
  "\<not> act_portable_acl actions_default"
  "\<not> act_portable_acl_sidecar actions_default"
  "\<not> act_native_acl actions_default"
  "\<not> act_native_acl_sidecar actions_default"
  by (simp_all add: actions_default_def)

lemma act_eq:
  "act f \<lparr>plan_actions = a, plan_compromises = cs\<rparr> = \<lparr>plan_actions = f a, plan_compromises = cs\<rparr>"
  by (simp add: act_def)

text \<open>The field actions in the order of the plan build the expected actions.\<close>

lemma field_actions_expected:
  "field_action (hardlink_to m \<noteq> None) (cap_hardlink caps)
        (act_hardlink_update (\<lambda>_. True)) (act_hardlink_copy_update (\<lambda>_. True))
      (field_action (holes m \<noteq> []) (cap_punch_holes caps)
        (act_punch_holes_update (\<lambda>_. True)) (act_sparse_sidecar_update (\<lambda>_. True))
      (field_action (finder_info m \<noteq> None) (cap_finder_info caps)
        (act_finder_info_update (\<lambda>_. True)) (act_finder_info_sidecar_update (\<lambda>_. True))
      (field_action (finder_flags m \<noteq> 0) (cap_bsd_flags caps)
        (act_bsd_flags_update (\<lambda>_. True)) (act_bsd_flags_sidecar_update (\<lambda>_. True))
      (field_action (btime (mtimes m) \<noteq> None) (cap_set_btime caps)
        (act_btime_update (\<lambda>_. True)) (act_btime_sidecar_update (\<lambda>_. True))
      (actions_default\<lparr>act_logical_xattr := has_logical m, act_raw_xattr := has_raw True caps m,
         act_raw_xattr_sidecar := has_raw False caps m,
         act_portable_acl := aces_wanted caps m \<and> cap_portable_acl caps,
         act_portable_acl_sidecar := aces_wanted caps m \<and> \<not> cap_portable_acl caps,
         act_native_acl := acl_native caps m, act_native_acl_sidecar := acl_foreign caps m,
         act_mtime_atime := mtime (mtimes m) \<noteq> None \<or> atime (mtimes m) \<noteq> None\<rparr>))))) =
      expected_actions caps m"
  by (rule restore_actions.equality) (simp_all add: field_action_def expected_actions_def actions_default_def)

lemma expected_compromises_Nil:
  "expected_compromises caps m = [] \<longleftrightarrow>
     \<not> (has_raw False caps m \<or> acl_foreign caps m \<or> aces_wanted caps m \<and> \<not> cap_portable_acl caps
      \<or> btime (mtimes m) \<noteq> None \<and> \<not> cap_set_btime caps \<or> finder_flags m \<noteq> 0 \<and> \<not> cap_bsd_flags caps
      \<or> finder_info m \<noteq> None \<and> \<not> cap_finder_info caps \<or> holes m \<noteq> [] \<and> \<not> cap_punch_holes caps
      \<or> hardlink_to m \<noteq> None \<and> \<not> cap_hardlink caps)"
  by (simp add: expected_compromises_def lost_def)

lemma restore_plan_transport:
  assumes "cap_logical_xattr caps"
  shows "restore_plan_new m caps = Inr \<lparr>plan_actions = expected_actions caps m,
    plan_compromises = expected_compromises caps m\<rparr>"
proof -
  note bound = length_lost [of "has_raw False caps m" False RawXattrPreserved]
    length_lost [of "acl_foreign caps m" False
      "NativeAclPreserved (acl_origin (the (native_acl m))) (aces m \<noteq> [] \<and> cap_portable_acl caps)"]
    length_lost [of "aces_wanted caps m" "cap_portable_acl caps" PortableAclPreserved]
    length_lost [of "btime (mtimes m) \<noteq> None" "cap_set_btime caps" BirthTimePreserved]
    length_lost [of "finder_flags m \<noteq> 0" "cap_bsd_flags caps" FinderFlagsPreserved]
    length_lost [of "finder_info m \<noteq> None" "cap_finder_info caps" FinderInfoPreserved]
    length_lost [of "holes m \<noteq> []" "cap_punch_holes caps" SparsePreserved]
  show ?thesis
    unfolding restore_plan_new_def Let_def plan_xattrs_eq expected_compromises_def
      field_actions_expected [symmetric]
    using bound assms
    by (simp add: plan_acl_eq plan_field_eq act_eq actions_default_acl del: not_None_eq)
qed

lemma plan_field_untransported:
  "\<not> cap_logical_xattr caps \<Longrightarrow> plan_field caps p c n s k \<lparr>plan_actions = a, plan_compromises = []\<rparr> =
     (if p \<and> \<not> c then Inl PlanImpossible
      else Inr \<lparr>plan_actions = field_action p c n s a, plan_compromises = []\<rparr>)"
  by (simp add: plan_field_eq lost_def)

lemma restore_plan_untransported:
  assumes "\<not> cap_logical_xattr caps"
  shows "restore_plan_new m caps =
    (if has_logical m \<or> expected_compromises caps m \<noteq> [] then Inl PlanImpossible
     else Inr \<lparr>plan_actions = expected_actions caps m, plan_compromises = []\<rparr>)"
proof (cases "has_logical m \<or> has_raw False caps m")
  case True
  then show ?thesis
    using assms by (auto simp: restore_plan_new_def Let_def plan_xattrs_eq expected_compromises_Nil)
next
  case False
  then have "lost (has_raw False caps m) False RawXattrPreserved = []" by (simp add: lost_def)
  then show ?thesis
    unfolding restore_plan_new_def Let_def plan_xattrs_eq expected_compromises_Nil
      field_actions_expected [symmetric]
    using assms False
    by (simp add: plan_acl_eq plan_field_untransported act_eq actions_default_acl lost_def
        and_then_if_Inl del: not_None_eq)
qed

lemma restore_plan_new_eq:
  "restore_plan_new m caps =
     (if (has_logical m \<or> expected_compromises caps m \<noteq> []) \<and> \<not> cap_logical_xattr caps
      then Inl PlanImpossible
      else Inr \<lparr>plan_actions = expected_actions caps m,
                plan_compromises = expected_compromises caps m\<rparr>)"
  by (cases "cap_logical_xattr caps") (auto simp: restore_plan_transport restore_plan_untransported)

lemma logical_name_no_nul: "validate_logical_name name = Inr u \<Longrightarrow> 0 \<notin> set name"
  by (auto simp: validate_logical_name_def list_ex_iff split: if_splits)

lemma takeWhile_terminated: "(0 :: u8) \<notin> set xs \<Longrightarrow> takeWhile (\<lambda>b. b \<noteq> 0) (xs @ 0 # ys) = xs"
  by (induction xs) auto

lemma to_native_Inr:
  assumes "to_native os class name output = Inr output'"
  shows "\<exists>p. output' = p @ name @ [0] @ drop (length p + length name + 1) output
    \<and> p = (if os = Linux \<and> class = Logical then ascii ''user.'' else [])
    \<and> length p + length name < length output \<and> 0 \<notin> set (p @ name)
    \<and> (class = Logical \<longrightarrow> validate_logical_name name = Inr ())"
proof -
  let ?p = "if os = Linux \<and> class = Logical then ascii ''user.'' else []"
  have "class = Logical \<longrightarrow> validate_logical_name name = Inr ()"
    using assms by (auto simp: to_native_def result_simps split: xattr_class.splits)
  moreover have "0 \<notin> set (?p @ name)"
    using assms by (cases "class") (auto simp: to_native_def Let_def result_simps split: if_splits)
  moreover have "output' = ?p @ name @ [0] @ drop (length ?p + length name + 1) output
      \<and> length ?p + length name < length output"
    using assms by (auto simp: to_native_def Let_def result_simps)
  ultimately show ?thesis by blast
qed

section \<open>Properties of names and plans\<close>

text \<open>C28. The plan is exactly what the record and the capabilities call for: planning fails only when
  logical attributes or some sidecar are needed and the filesystem has no attribute to carry them;
  otherwise each family that is present is either restored natively or kept in its sidecar with one
  compromise in the report, in a fixed order, and nothing else is reported. The report never
  overflows its ten slots.\<close>

theorem restore_plan_spec:
  "restore_plan_new m caps =
     (if needs_transport caps m \<and> \<not> cap_logical_xattr caps
      then Inl PlanImpossible
      else Inr \<lparr>plan_actions = expected_actions caps m,
                plan_compromises = expected_compromises caps m\<rparr>)"
  by (simp add: restore_plan_new_eq needs_transport_def)

text \<open>Native attribute names round-trip: the C string written for a name is listed back as that
  name, and the rest of the caller's buffer is untouched.\<close>

lemma native_name_roundtrip:
  assumes "to_native os class name output = Inr output'"
  shows "from_native os class (c_string output') = Some name \<and> length output' = length output
    \<and> drop (length (c_string output') + 1) output' = drop (length (c_string output') + 1) output"
proof -
  from to_native_Inr [OF assms] obtain p where
    out: "output' = p @ name @ [0] @ drop (length p + length name + 1) output"
    and p: "p = (if os = Linux \<and> class = Logical then ascii ''user.'' else [])"
    and len: "length p + length name < length output" and nul: "0 \<notin> set (p @ name)"
    and valid: "class = Logical \<longrightarrow> validate_logical_name name = Inr ()" by blast
  have c: "c_string output' = p @ name"
    using takeWhile_terminated [OF nul] by (simp add: c_string_def out)
  have "from_native os class (p @ name) = Some name"
    using valid p
    by (cases "class"; cases os) (auto simp: from_native_def strip_prefix_def starts_with_def)
  moreover have "length output' = length output" using len by (simp add: out)
  moreover have "drop (length (p @ name) + 1) output' = drop (length (p @ name) + 1) output"
    by (simp add: out)
  ultimately show ?thesis by (simp only: c)
qed

end
