(* ===== verification/Tree_Path.thy ===== *)
theory Tree_Path
  imports Difz_Prelude
begin

text \<open>
  The portable path grammar of \<open>rust/src/directory.rs\<close>: which byte strings are tree paths, and
  which symlink targets stay inside the tree. \<open>resolve\<close> is the abstract reading of a relative
  path as a walk over directory components; \<open>validate_symlink_target\<close> is shown to accept exactly
  the targets whose walk never leaves the root.
\<close>

definition MAX_ENTRIES :: usize where "MAX_ENTRIES = 1000000"
definition MAX_PATH_BYTES :: usize where "MAX_PATH_BYTES = 4096"

datatype path_error = EmptyPath | InvalidUtf8 | AbsolutePath | BackslashSeparator | NulByte
  | InvalidComponent | DrivePrefix | PathsNotSorted | DuplicatePath | MissingParent
  | ParentNotDirectory | InvalidMode | InvalidEntryData | SymlinkEscapesRoot | TooManyEntries
  | PathTooLong | InvalidHardlinkRelation | InvalidSparseExtent

abbreviation slash :: u8 where "slash \<equiv> 47"
abbreviation backslash :: u8 where "backslash \<equiv> 92"
abbreviation colon :: u8 where "colon \<equiv> 58"
abbreviation dot :: u8 where "dot \<equiv> 46"

definition has_drive_prefix :: "bytes \<Rightarrow> bool" where
  "has_drive_prefix bs \<longleftrightarrow>
     (case bs of a # b # _ \<Rightarrow> is_ascii_alphabetic a \<and> b = colon | _ \<Rightarrow> False)"

definition validate_text :: "bytes \<Rightarrow> path_error + unit" where
  "validate_text bs =
     (if \<not> from_utf8_ok bs then Inl InvalidUtf8
      else if starts_with bs [slash] then Inl AbsolutePath
      else if backslash \<in> set bs then Inl BackslashSeparator
      else if 0 \<in> set bs then Inl NulByte
      else if has_drive_prefix bs then Inl DrivePrefix
      else Inr ())"

definition bad_component :: "bytes \<Rightarrow> bool" where
  "bad_component part \<longleftrightarrow> part = [] \<or> part = [dot] \<or> part = [dot, dot]"

definition validate_path :: "bytes \<Rightarrow> path_error + unit" where
  "validate_path path =
     (if path = [] then Inl EmptyPath
      else if length path > MAX_PATH_BYTES then Inl PathTooLong
      else and_then (validate_text path) (\<lambda>_.
        if list_ex bad_component (split_on slash path) then Inl InvalidComponent else Inr ()))"

fun walk_target :: "nat \<Rightarrow> bytes list \<Rightarrow> path_error + unit" where
  "walk_target depth [] = Inr ()"
| "walk_target depth (part # parts) =
     (if part = [] then Inl InvalidComponent
      else if part = [dot] then walk_target depth parts
      else if part = [dot, dot] then
        (if depth = 0 then Inl SymlinkEscapesRoot else walk_target (depth - 1) parts)
      else walk_target (depth + 1) parts)"

definition validate_symlink_target :: "bytes \<Rightarrow> bytes \<Rightarrow> path_error + unit" where
  "validate_symlink_target link_path target =
     and_then (validate_path link_path) (\<lambda>_.
     if target = [] then Inl InvalidEntryData
     else and_then (validate_text target) (\<lambda>_.
       walk_target (length (filter (\<lambda>b. b = slash) link_path)) (split_on slash target)))"

section \<open>Paths\<close>

definition valid_text :: "bytes \<Rightarrow> bool" where
  "valid_text bs \<longleftrightarrow> from_utf8_ok bs \<and> \<not> starts_with bs [slash] \<and> backslash \<notin> set bs
     \<and> 0 \<notin> set bs \<and> \<not> has_drive_prefix bs"

lemma validate_text_Inr [result_simps]: "validate_text bs = Inr u \<longleftrightarrow> valid_text bs"
  by (simp add: validate_text_def valid_text_def)

definition valid_path :: "bytes \<Rightarrow> bool" where
  "valid_path path \<longleftrightarrow> path \<noteq> [] \<and> length path \<le> MAX_PATH_BYTES \<and> valid_text path
     \<and> (\<forall>part \<in> set (split_on slash path). \<not> bad_component part)"

lemma validate_path_Inr [result_simps]: "validate_path path = Inr u \<longleftrightarrow> valid_path path"
  by (auto simp: validate_path_def valid_path_def and_then_Inr validate_text_Inr list_ex_iff)

lemma valid_path_length: "valid_path path \<Longrightarrow> 0 < length path \<and> length path \<le> 4096"
  by (simp add: valid_path_def MAX_PATH_BYTES_def)

section \<open>Symlink containment\<close>

text \<open>
  The directory a walk stands in is the list of its components below the root, innermost first.
  \<open>resolve\<close> follows a relative path from there; leaving the root is \<open>None\<close>.
\<close>

fun resolve :: "bytes list \<Rightarrow> bytes list \<Rightarrow> bytes list option" where
  "resolve dir [] = Some dir"
| "resolve dir (part # parts) =
     (if part = [dot] then resolve dir parts
      else if part = [dot, dot] then (case dir of [] \<Rightarrow> None | _ # up \<Rightarrow> resolve up parts)
      else resolve (part # dir) parts)"

definition link_directory :: "bytes \<Rightarrow> bytes list" where
  "link_directory link_path = tl (rev (split_on slash link_path))"

lemma walk_target_resolve:
  "walk_target (length dir) parts = Inr () \<longleftrightarrow>
     (\<forall>part \<in> set parts. part \<noteq> []) \<and> resolve dir parts \<noteq> None"
proof (induction parts arbitrary: dir)
  case (Cons part parts)
  show ?case
  proof (cases "part = [dot, dot]")
    case True
    then show ?thesis by (cases dir) (auto simp: Cons.IH)
  next
    case False
    then show ?thesis using Cons.IH [of dir] Cons.IH [of "part # dir"] by auto
  qed
qed simp

lemma length_link_directory:
  "length (link_directory link) = length (filter (\<lambda>b. b = slash) link)"
  by (simp add: link_directory_def length_split_on)

text \<open>C25. Symlink containment: a link target is accepted if and only if the link path is a valid tree
  path, the target is non-empty portable text without empty components, and following the target
  component by component from the link's directory never climbs above the root of the tree.\<close>

theorem symlink_target_contained:
  "validate_symlink_target link target = Inr () \<longleftrightarrow>
     valid_path link \<and> target \<noteq> [] \<and> valid_text target
     \<and> (\<forall>part \<in> set (split_on slash target). part \<noteq> [])
     \<and> resolve (link_directory link) (split_on slash target) \<noteq> None"
  using walk_target_resolve [of "link_directory link" "split_on slash target"]
  by (auto simp: validate_symlink_target_def and_then_Inr result_simps length_link_directory)

theorem symlink_target_contained_witness:
  "(validate_symlink_target (ascii ''a/b/link'') (ascii ''../c/./d'') = Inr ()) \<and>
   resolve (link_directory (ascii ''a/b/link'')) (split_on slash (ascii ''../c/./d'')) \<noteq> None \<and>
   validate_symlink_target (ascii ''a/b/link'') (ascii ''../../../d'') = Inl SymlinkEscapesRoot"
proof -
  have ok: "validate_symlink_target (ascii ''a/b/link'') (ascii ''../c/./d'') = Inr ()"
    by code_simp
  moreover have "validate_symlink_target (ascii ''a/b/link'') (ascii ''../../../d'')
      = Inl SymlinkEscapesRoot"
    by code_simp
  ultimately show ?thesis
    using symlink_target_contained [of "ascii ''a/b/link''" "ascii ''../c/./d''"] by simp
qed

end
