(* ===== verification/Ordered_Search.thy ===== *)
theory Ordered_Search
  imports Difz_Prelude
begin

text \<open>
  Three-way comparison and \<open>slice::binary_search_by\<close>, the lookup that the path lookups of the
  snapshot and patch code and of the symlink transport rely on. The loop is the one of the standard
  library (halve the window, keep the half whose first element is not greater). All callers discard
  the insertion point with \<open>ok()\<close>, so the result is an optional index.

  The locale \<open>keyed_lookup\<close> states what a caller may rely on: on a strictly sorted slice the
  lookup finds exactly the index that holds the key.
\<close>

datatype ordering = Less | Equal | Greater

definition cmp :: "'a::linorder \<Rightarrow> 'a \<Rightarrow> ordering" where
  "cmp x y = (if x < y then Less else if x = y then Equal else Greater)"

function bisect :: "('a \<Rightarrow> ordering) \<Rightarrow> 'a list \<Rightarrow> nat \<Rightarrow> nat \<Rightarrow> nat" where
  "bisect f xs base len =
     (if len > 1
      then bisect f xs (if f (xs ! (base + len div 2)) = Greater then base else base + len div 2)
             (len - len div 2)
      else base)"
  by pat_completeness auto
termination
  by (relation "measure (\<lambda>(f, xs, base, len). len)") auto

declare bisect.simps [simp del]

definition binary_search_by :: "('a \<Rightarrow> ordering) \<Rightarrow> 'a list \<Rightarrow> nat option" where
  "binary_search_by f xs =
     (if xs = [] then None
      else (let i = bisect f xs 0 (length xs) in if f (xs ! i) = Equal then Some i else None))"

lemma cmp_simps [simp]:
  "cmp x y = Less \<longleftrightarrow> x < y" "cmp x y = Equal \<longleftrightarrow> x = y" "cmp x y = Greater \<longleftrightarrow> y < x"
  by (auto simp: cmp_def)

lemma bisect_bounds: "0 < len \<Longrightarrow> base \<le> bisect f xs base len \<and> bisect f xs base len < base + len"
proof (induction f xs base len rule: bisect.induct)
  case (1 f xs base len)
  show ?case
  proof (cases "len > 1")
    case True
    then have "0 < len - len div 2" by simp
    with 1 True show ?thesis
      by (fastforce simp: bisect.simps [of f xs base len])
  next
    case False
    with 1 show ?thesis by (simp add: bisect.simps [of f xs base len])
  qed
qed

lemma bisect_finds:
  assumes "sorted_wrt (<) (map key xs)" and "i < length xs" and "key (xs ! i) = k"
    and "base \<le> i" and "i < base + len" and "base + len \<le> length xs"
  shows "bisect (\<lambda>x. cmp (key x) k) xs base len = i"
  using assms
proof (induction "\<lambda>x. cmp (key x) k" xs base len rule: bisect.induct)
  case (1 xs base len)
  show ?case
  proof (cases "len > 1")
    case True
    let ?mid = "base + len div 2"
    have mid: "?mid < length xs" using 1(7) True by simp
    have less: "key (xs ! a) < key (xs ! b)" if "a < b" "b < length xs" for a b
      using 1(2) that by (auto simp: sorted_wrt_iff_nth_less)
    have gt: "k < key (xs ! ?mid) \<longleftrightarrow> i < ?mid"
      using less [of i ?mid] less [of ?mid i] mid 1(3,4)
      by (metis less_asym less_irrefl linorder_neqE_nat)
    have "bisect (\<lambda>x. cmp (key x) k) xs (if k < key (xs ! ?mid) then base else ?mid)
        (len - len div 2) = i"
    proof (cases "i < ?mid")
      case lt: True
      have "base + (len - len div 2) \<le> length xs" and "i < base + (len - len div 2)"
        using 1(6,7) lt by auto
      then show ?thesis using 1(1) [OF True] 1(2-5) gt lt by simp
    next
      case False
      have "?mid + (len - len div 2) = base + len" by simp
      then show ?thesis using 1(1) [OF True] 1(2-7) gt False by simp
    qed
    then show ?thesis
      using True by (simp add: bisect.simps [of _ xs base len])
  next
    case False
    with 1 show ?thesis by (simp add: bisect.simps [of _ xs base len])
  qed
qed

lemma binary_search_iff:
  assumes "sorted_wrt (<) (map key xs)"
  shows "binary_search_by (\<lambda>x. cmp (key x) k) xs = Some i \<longleftrightarrow> i < length xs \<and> key (xs ! i) = k"
proof
  assume "binary_search_by (\<lambda>x. cmp (key x) k) xs = Some i"
  then show "i < length xs \<and> key (xs ! i) = k"
    using bisect_bounds [of "length xs" 0 "\<lambda>x. cmp (key x) k" xs]
    by (auto simp: binary_search_by_def Let_def split: if_splits)
next
  assume "i < length xs \<and> key (xs ! i) = k"
  then show "binary_search_by (\<lambda>x. cmp (key x) k) xs = Some i"
    using bisect_finds [OF assms, of i k 0 "length xs"]
    by (auto simp: binary_search_by_def Let_def)
qed

locale keyed_lookup =
  fixes lookup :: "'a list \<Rightarrow> 'k::linorder \<Rightarrow> nat option"
    and key :: "'a \<Rightarrow> 'k"
  assumes lookup_iff:
    "sorted_wrt (<) (map key xs) \<Longrightarrow> lookup xs k = Some i \<longleftrightarrow> i < length xs \<and> key (xs ! i) = k"
begin

lemma lookup_None_iff:
  assumes "sorted_wrt (<) (map key xs)"
  shows "lookup xs k = None \<longleftrightarrow> k \<notin> key ` set xs"
proof -
  have "lookup xs k \<noteq> None \<longleftrightarrow> (\<exists>i < length xs. key (xs ! i) = k)"
    using lookup_iff [OF assms] by fastforce
  also have "\<dots> \<longleftrightarrow> k \<in> key ` set xs"
    by (metis (no_types, lifting) image_iff in_set_conv_nth)
  finally show ?thesis by blast
qed

lemma lookup_elem:
  assumes "sorted_wrt (<) (map key xs)" and "x \<in> set xs"
  shows "\<exists>i < length xs. lookup xs (key x) = Some i \<and> xs ! i = x"
  using assms by (metis in_set_conv_nth lookup_iff)

lemma lookup_nth:
  assumes "sorted_wrt (<) (map key xs)" and "lookup xs k = Some i"
  shows "xs ! i \<in> set xs \<and> key (xs ! i) = k"
  using assms lookup_iff by auto

lemma lookup_ex:
  assumes "sorted_wrt (<) (map key xs)"
  shows "(\<exists>i. lookup xs k = Some i \<and> P (xs ! i)) \<longleftrightarrow> (\<exists>x \<in> set xs. key x = k \<and> P x)"
  using lookup_elem [OF assms] lookup_nth [OF assms] by metis

lemma lookup_keys_cong:
  assumes "sorted_wrt (<) (map key xs)" and "map key ys = map key xs"
  shows "lookup ys k = lookup xs k"
proof -
  have "length ys = length xs" using assms(2) map_eq_imp_length_eq by blast
  moreover have "key (ys ! i) = key (xs ! i)" if "i < length xs" for i
    using assms(2) that calculation by (metis nth_map)
  ultimately have "lookup ys k = Some i \<longleftrightarrow> lookup xs k = Some i" for i
    using assms lookup_iff [of xs k i] lookup_iff [of ys k i] by auto
  then show ?thesis by (metis not_None_eq)
qed

end

interpretation slice_search: keyed_lookup "\<lambda>xs k. binary_search_by (\<lambda>x. cmp (key x) k) xs" key for key
  by unfold_locales (rule binary_search_iff)

end
