(* ===== verification/Metadata_Decode.thy ===== *)
theory Metadata_Decode
  imports Metadata_Canonical
begin

text \<open>
  The metadata decoder (\<open>rust/src/metadata_decode.rs\<close>) and the borrowing projection
  (\<open>rust/src/metadata_borrow.rs\<close>). The decoder is composed of one reader per record, in the order
  of the code; each is shown to be a \<open>wire_codec\<close> with the field writer's chunks as its printed
  form, so decoding is the exact inverse of encoding on canonical records.
\<close>

section \<open>Readers\<close>

definition read_xattr :: "reader \<Rightarrow> meta_error + xattr \<times> reader" where
  "read_xattr r =
     and_then (reader_byte TruncatedMetadata r) (\<lambda>(t, r).
     and_then (xattr_class_try_from t) (\<lambda>class.
     and_then (reader_blob TruncatedMetadata r) (\<lambda>(name, r).
     and_then (reader_blob TruncatedMetadata r) (\<lambda>(v, r).
     Inr (\<lparr>x_class = class, x_name = name, x_value = v\<rparr>, r)))))"

definition read_ace :: "reader \<Rightarrow> meta_error + ace \<times> reader" where
  "read_ace r =
     and_then (reader_byte TruncatedMetadata r) (\<lambda>(t, r).
     and_then (ace_tag_try_from t) (\<lambda>tag.
     and_then (reader_byte TruncatedMetadata r) (\<lambda>(b, r).
     and_then (permissions_from_bits b) (\<lambda>permissions.
     and_then (reader_blob TruncatedMetadata r) (\<lambda>(name, r).
     Inr (\<lparr>ace_kind = tag, ace_permissions = permissions, ace_name = name\<rparr>, r))))))"

definition read_native_acl :: "reader \<Rightarrow> meta_error + native_acl option \<times> reader" where
  "read_native_acl r =
     and_then (reader_byte TruncatedMetadata r) (\<lambda>(origin, r).
     if origin = 0 then Inr (None, r)
     else
       and_then (os_try_from origin) (\<lambda>origin.
       and_then (reader_blob TruncatedMetadata r) (\<lambda>(bs, r).
       Inr (Some \<lparr>acl_origin = origin, acl_bytes = bs\<rparr>, r))))"

definition read_time :: "reader \<Rightarrow> meta_error + time \<times> reader" where
  "read_time r =
     and_then (reader_take TruncatedMetadata 12 r) (\<lambda>(bs, r).
     and_then (time_decode bs) (\<lambda>t. Inr (t, r)))"

definition read_flagged_time :: "bool \<Rightarrow> reader \<Rightarrow> meta_error + time option \<times> reader" where
  "read_flagged_time present r =
     (if present then and_then (read_time r) (\<lambda>(t, r). Inr (Some t, r)) else Inr (None, r))"

definition read_times :: "reader \<Rightarrow> meta_error + times \<times> reader" where
  "read_times r =
     and_then (reader_byte TruncatedMetadata r) (\<lambda>(flags, r).
     if flags AND NOT 7 \<noteq> 0 then Inl BadMetadata
     else
       and_then (read_flagged_time (flags AND 1 \<noteq> 0) r) (\<lambda>(m, r).
       and_then (read_flagged_time (flags AND 2 \<noteq> 0) r) (\<lambda>(a, r).
       and_then (read_flagged_time (flags AND 4 \<noteq> 0) r) (\<lambda>(b, r).
       Inr (\<lparr>mtime = m, atime = a, btime = b\<rparr>, r)))))"

text \<open>An optional field behind a presence byte.\<close>

definition read_optional ::
  "(reader \<Rightarrow> meta_error + 'a \<times> reader) \<Rightarrow> reader \<Rightarrow> meta_error + 'a option \<times> reader" where
  "read_optional p r =
     and_then (reader_byte TruncatedMetadata r) (\<lambda>(flag, r).
     if flag = 0 then Inr (None, r)
     else if flag = 1 then and_then (p r) (\<lambda>(x, r). Inr (Some x, r))
     else Inl BadMetadata)"

definition read_hole :: "reader \<Rightarrow> meta_error + hole \<times> reader" where
  "read_hole r =
     and_then (reader_u64 TruncatedMetadata r) (\<lambda>(offset, r).
     and_then (reader_u64 TruncatedMetadata r) (\<lambda>(n, r).
     Inr (\<lparr>hole_offset = offset, hole_length = n\<rparr>, r)))"

definition read_metadata :: "allocator \<Rightarrow> reader \<Rightarrow> meta_error + metadata \<times> reader" where
  "read_metadata mem r =
     and_then (reader_vector TruncatedMetadata OutOfMemory mem 9 read_xattr r) (\<lambda>(xs, r).
     and_then (reader_vector TruncatedMetadata OutOfMemory mem 6 read_ace r) (\<lambda>(as, r).
     and_then (read_native_acl r) (\<lambda>(acl, r).
     and_then (read_times r) (\<lambda>(ts, r).
     and_then (reader_u32 TruncatedMetadata r) (\<lambda>(flags, r).
     and_then (read_optional (reader_take TruncatedMetadata 32) r) (\<lambda>(info, r).
     and_then (reader_vector TruncatedMetadata OutOfMemory mem 16 read_hole r) (\<lambda>(hs, r).
     and_then (read_optional (reader_blob TruncatedMetadata) r) (\<lambda>(link, r).
     Inr (\<lparr>xattrs = xs, aces = as, native_acl = acl, mtimes = ts, finder_flags = flags,
           finder_info = info, holes = hs, hardlink_to = link\<rparr>, r)))))))))"

definition metadata_decode :: "allocator \<Rightarrow> bytes \<Rightarrow> meta_error + metadata" where
  "metadata_decode mem bs =
     and_then (read_metadata mem (read_from bs)) (\<lambda>(m, r).
     if rd_pos r \<noteq> length bs then Inl TrailingMetadata else metadata_new m)"

section \<open>Borrowing projection\<close>

fun borrow_family :: "allocator \<Rightarrow> metadata \<Rightarrow> family \<Rightarrow> metadata \<Rightarrow> meta_error + metadata" where
  "borrow_family mem m Xattr v =
     and_then (reserve mem (length (xattrs m)) OutOfMemory) (\<lambda>_. Inr (v\<lparr>xattrs := xattrs m\<rparr>))"
| "borrow_family mem m Acl v =
     and_then (reserve mem (length (aces m)) OutOfMemory) (\<lambda>_.
     Inr (v\<lparr>aces := aces m, native_acl := native_acl m\<rparr>))"
| "borrow_family mem m Timestamps v = Inr (v\<lparr>mtimes := mtimes m\<rparr>)"
| "borrow_family mem m Finder v =
     Inr (v\<lparr>finder_flags := finder_flags m, finder_info := finder_info m\<rparr>)"
| "borrow_family mem m Sparse v =
     and_then (reserve mem (length (holes m)) OutOfMemory) (\<lambda>_. Inr (v\<lparr>holes := holes m\<rparr>))"
| "borrow_family mem m Hardlink v = Inr (v\<lparr>hardlink_to := hardlink_to m\<rparr>)"

fun borrow_families ::
  "allocator \<Rightarrow> omit \<Rightarrow> metadata \<Rightarrow> family list \<Rightarrow> metadata \<Rightarrow> meta_error + metadata" where
  "borrow_families mem omit m [] v = Inr v"
| "borrow_families mem omit m (f # fs) v =
     (if omit_contains omit f then borrow_families mem omit m fs v
      else and_then (borrow_family mem m f v) (borrow_families mem omit m fs))"

definition borrowing_omitting :: "allocator \<Rightarrow> metadata \<Rightarrow> omit \<Rightarrow> meta_error + metadata" where
  "borrowing_omitting mem m omit =
     and_then (borrow_families mem omit m family_all metadata_default) metadata_new"

section \<open>Printed forms\<close>

definition print_xattr :: "xattr \<Rightarrow> bytes" where
  "print_xattr x = [xattr_class_tag (x_class x)] @ print_blob (x_name x) @ print_blob (x_value x)"

definition print_ace :: "ace \<Rightarrow> bytes" where
  "print_ace a = [ace_tag_tag (ace_kind a)] @ [ace_permissions a] @ print_blob (ace_name a)"

definition print_native_acl :: "native_acl option \<Rightarrow> bytes" where
  "print_native_acl acl =
     (case acl of None \<Rightarrow> [0] | Some a \<Rightarrow> [os_tag (acl_origin a)] @ print_blob (acl_bytes a))"

definition print_option :: "('a \<Rightarrow> bytes) \<Rightarrow> 'a option \<Rightarrow> bytes" where
  "print_option print v = (case v of None \<Rightarrow> [0] | Some x \<Rightarrow> [1] @ print x)"

definition print_flagged_time :: "time option \<Rightarrow> bytes" where
  "print_flagged_time v = (case v of None \<Rightarrow> [] | Some t \<Rightarrow> print_time t)"

definition print_times :: "times \<Rightarrow> bytes" where
  "print_times t = [times_flags t] @ print_flagged_time (mtime t) @ print_flagged_time (atime t)
     @ print_flagged_time (btime t)"

definition print_hole :: "hole \<Rightarrow> bytes" where
  "print_hole h = le_bytes (hole_offset h) @ le_bytes (hole_length h)"

definition print_metadata :: "metadata \<Rightarrow> bytes" where
  "print_metadata m =
     print_vector print_xattr (xattrs m) @ print_vector print_ace (aces m)
     @ print_native_acl (native_acl m) @ print_times (mtimes m) @ le_bytes (finder_flags m)
     @ print_option (\<lambda>bs. bs) (finder_info m) @ print_vector print_hole (holes m)
     @ print_option print_blob (hardlink_to m)"

lemma concat_write_chunks: "concat (write_chunks m) = print_metadata m"
proof -
  have xs: "concat (concat (map xattr_chunks xs)) = concat (map print_xattr xs)" for xs
    by (induction xs) (simp_all add: xattr_chunks_def print_xattr_def print_blob_def)
  have as: "concat (concat (map ace_chunks as)) = concat (map print_ace as)" for as
    by (induction as) (simp_all add: ace_chunks_def print_ace_def print_blob_def)
  have hs: "concat (concat (map hole_chunks hs)) = concat (map print_hole hs)" for hs
    by (induction hs) (simp_all add: hole_chunks_def print_hole_def)
  have ts: "concat (times_chunks t) = print_times t" for t
    by (simp add: times_chunks_def print_times_def time_values_def List.map_filter_def
        print_flagged_time_def print_time_def split: option.splits)
  show ?thesis
    by (simp add: write_chunks_def print_metadata_def print_vector_def xs as hs ts print_blob_def
        native_acl_chunks_def print_native_acl_def finder_info_chunks_def hardlink_chunks_def
        print_option_def split: option.splits)
qed

section \<open>Codecs of the records\<close>

lemma xattr_class_then:
  "and_then (xattr_class_try_from t) f = Inr y \<longleftrightarrow> (\<exists>c. t = xattr_class_tag c \<and> f c = Inr y)"
  by (auto simp: and_then_Inr xattr_class_try_from_iff)

lemma ace_tag_then:
  "and_then (ace_tag_try_from t) f = Inr y \<longleftrightarrow> (\<exists>c. t = ace_tag_tag c \<and> f c = Inr y)"
  by (auto simp: and_then_Inr ace_tag_try_from_iff)

lemma os_then: "and_then (os_try_from t) f = Inr y \<longleftrightarrow> (\<exists>c. t = os_tag c \<and> f c = Inr y)"
  by (auto simp: and_then_Inr os_try_from_iff)

lemma permissions_then:
  "and_then (permissions_from_bits b) f = Inr y \<longleftrightarrow> b \<le> 7 \<and> f b = Inr y"
  by (auto simp: and_then_Inr permissions_from_bits_iff)

lemmas tag_thens = xattr_class_then ace_tag_then os_then permissions_then

interpretation xattr_codec: counted_codec read_xattr print_xattr
  "\<lambda>x. length (x_name x) < 2 ^ 32 \<and> length (x_value x) < 2 ^ 32" 9
proof unfold_locales
  fix r r' and x :: xattr
  assume ok: "reader_ok r"
  show "read_xattr r = Inr (x, r') \<longleftrightarrow>
    (length (x_name x) < 2 ^ 32 \<and> length (x_value x) < 2 ^ 32) \<and> consumes r (print_xattr x) r'"
    using ok
    by (cases x) (auto simp: read_xattr_def print_xattr_def byte_codec.parse_then blob_codec.parse_then
        tag_thens consumes_append simp del: append_Cons cong: conj_cong, blast)
qed (simp_all add: print_xattr_def print_blob_def)

interpretation ace_codec: counted_codec read_ace print_ace
  "\<lambda>a. ace_permissions a \<le> 7 \<and> length (ace_name a) < 2 ^ 32" 6
proof unfold_locales
  fix r r' and a :: ace
  assume ok: "reader_ok r"
  show "read_ace r = Inr (a, r') \<longleftrightarrow>
    (ace_permissions a \<le> 7 \<and> length (ace_name a) < 2 ^ 32) \<and> consumes r (print_ace a) r'"
    using ok
    by (cases a) (auto simp: read_ace_def print_ace_def byte_codec.parse_then blob_codec.parse_then
        tag_thens consumes_append simp del: append_Cons cong: conj_cong)
qed (simp_all add: print_ace_def print_blob_def)

interpretation hole_codec: counted_codec read_hole print_hole "\<lambda>_. True" 16
proof unfold_locales
  fix r r' and h :: hole
  assume ok: "reader_ok r"
  show "read_hole r = Inr (h, r') \<longleftrightarrow> True \<and> consumes r (print_hole h) r'"
    using ok
    by (cases h) (auto simp: read_hole_def print_hole_def u64_codec.parse_then consumes_append
        cong: conj_cong)
qed (simp_all add: print_hole_def)

interpretation native_acl_codec: wire_codec read_native_acl print_native_acl
  "\<lambda>acl. \<forall>a. acl = Some a \<longrightarrow> length (acl_bytes a) < 2 ^ 32"
proof unfold_locales
  fix r r' and acl :: "native_acl option"
  assume ok: "reader_ok r"
  show "read_native_acl r = Inr (acl, r') \<longleftrightarrow>
    (\<forall>a. acl = Some a \<longrightarrow> length (acl_bytes a) < 2 ^ 32) \<and> consumes r (print_native_acl acl) r'"
  proof (cases acl)
    case None
    have "read_native_acl r = Inr (None, r') \<longleftrightarrow> consumes r [0] r'"
      using ok by (auto simp: read_native_acl_def result_simps byte_codec.parse_iff split: if_splits)
    then show ?thesis using None by (simp add: print_native_acl_def)
  next
    case (Some a)
    have "read_native_acl r = Inr (Some a, r') \<longleftrightarrow>
      (\<exists>c r1. consumes r [os_tag c] r1 \<and> (\<exists>bs. length bs < 2 ^ 32 \<and> consumes r1 (print_blob bs) r'
         \<and> a = \<lparr>acl_origin = c, acl_bytes = bs\<rparr>))"
      using ok by (auto simp: read_native_acl_def byte_codec.parse_then blob_codec.parse_then os_then
          cong: conj_cong split: if_splits) (metis os_tag_nonzero)
    also have "\<dots> \<longleftrightarrow> length (acl_bytes a) < 2 ^ 32 \<and> consumes r (print_native_acl (Some a)) r'"
      using ok by (cases a) (auto simp: print_native_acl_def consumes_append simp del: append_Cons)
    finally show ?thesis using Some by simp
  qed
qed

interpretation time_codec: wire_codec read_time print_time valid_time
proof unfold_locales
  fix r r' and t :: time
  assume "reader_ok r"
  then show "read_time r = Inr (t, r') \<longleftrightarrow> valid_time t \<and> consumes r (print_time t) r'"
    by (auto simp: read_time_def result_simps reader_take_iff time_decode_iff)
qed

definition flagged_time :: "bool \<Rightarrow> time option \<Rightarrow> bool" where
  "flagged_time present v \<longleftrightarrow> present = (v \<noteq> None) \<and> (\<forall>t. v = Some t \<longrightarrow> valid_time t)"

lemma read_flagged_time_iff:
  "reader_ok r \<Longrightarrow> read_flagged_time b r = Inr (v, r') \<longleftrightarrow>
     flagged_time b v \<and> consumes r (print_flagged_time v) r'"
  by (cases v)
    (auto simp: flagged_time_def read_flagged_time_def print_flagged_time_def time_codec.parse_then)

interpretation flagged_time_codec: wire_codec "read_flagged_time b" print_flagged_time
  "flagged_time b" for b
  by unfold_locales (rule read_flagged_time_iff)

lemma times_flags_iff:
  "flags = times_flags t \<longleftrightarrow> flags AND NOT 7 = 0 \<and> (flags AND 1 \<noteq> 0) = (mtime t \<noteq> None)
     \<and> (flags AND 2 \<noteq> 0) = (atime t \<noteq> None) \<and> (flags AND 4 \<noteq> 0) = (btime t \<noteq> None)"
proof -
  have "flags \<in> {0, 1, 2, 3, 4, 5, 6, 7}" if "flags AND NOT 7 = 0"
  proof -
    have "flags \<le> 7" using that permissions_from_bits_iff [of flags flags] by (simp add: permissions_from_bits_def)
    then have "unat flags \<in> {0, 1, 2, 3, 4, 5, 6, 7}" by (auto simp: word_le_nat_alt)
    then obtain n where "n \<in> {0, 1, 2, 3, 4, 5, 6, 7}" and "flags = of_nat n"
      by (metis of_nat_unat ucast_id)
    then show ?thesis by auto
  qed
  then show ?thesis
    by (auto simp: times_flags_def split: if_splits)
qed

interpretation times_codec: wire_codec read_times print_times
  "\<lambda>t. \<forall>v \<in> set (time_values t). valid_time v"
proof unfold_locales
  fix r r' and t :: times
  assume ok: "reader_ok r"
  have "read_times r = Inr (t, r') \<longleftrightarrow> (\<exists>flags r1 r2 r3. consumes r [flags] r1 \<and> flags AND NOT 7 = 0
      \<and> flagged_time (flags AND 1 \<noteq> 0) (mtime t) \<and> flagged_time (flags AND 2 \<noteq> 0) (atime t)
      \<and> flagged_time (flags AND 4 \<noteq> 0) (btime t)
      \<and> consumes r1 (print_flagged_time (mtime t)) r2 \<and> consumes r2 (print_flagged_time (atime t)) r3
      \<and> consumes r3 (print_flagged_time (btime t)) r')"
    using ok
    by (cases t) (simp add: read_times_def byte_codec.parse_then flagged_time_codec.parse_then
        if_err_Inr cong: conj_cong, blast)
  also have "\<dots> \<longleftrightarrow> (\<exists>flags r1 r2 r3. consumes r [flags] r1 \<and> flags = times_flags t
      \<and> (\<forall>v \<in> set (time_values t). valid_time v)
      \<and> consumes r1 (print_flagged_time (mtime t)) r2 \<and> consumes r2 (print_flagged_time (atime t)) r3
      \<and> consumes r3 (print_flagged_time (btime t)) r')"
    unfolding times_flags_iff flagged_time_def
    by (rule ex_cong1)+ (auto simp: time_values_def List.map_filter_def)
  also have "\<dots> \<longleftrightarrow> (\<forall>v \<in> set (time_values t). valid_time v) \<and> consumes r (print_times t) r'"
    using ok
    by (simp add: print_times_def consumes_append cong: conj_cong del: append_Cons) blast
  finally show "read_times r = Inr (t, r') \<longleftrightarrow>
    (\<forall>v \<in> set (time_values t). valid_time v) \<and> consumes r (print_times t) r'" .
qed

locale optional_codec = wire_codec parse print wf
  for parse :: "reader \<Rightarrow> meta_error + 'a \<times> reader" and print and wf
begin

lemma optional_iff:
  assumes ok: "reader_ok r"
  shows "read_optional parse r = Inr (v, r') \<longleftrightarrow>
    (\<forall>x. v = Some x \<longrightarrow> wf x) \<and> consumes r (print_option print v) r'"
proof -
  have "read_optional parse r = Inr (v, r') \<longleftrightarrow> (\<exists>r1. (v = None \<and> consumes r [0] r1 \<and> r1 = r')
      \<or> (\<exists>x. v = Some x \<and> wf x \<and> consumes r [1] r1 \<and> consumes r1 (print x) r'))"
    using ok
    by (auto simp: read_optional_def byte_codec.parse_then parse_then cong: conj_cong split: if_splits)
  also have "\<dots> \<longleftrightarrow> (\<forall>x. v = Some x \<longrightarrow> wf x) \<and> consumes r (print_option print v) r'"
    using ok by (cases v) (auto simp: print_option_def consumes_append simp del: append_Cons)
  finally show ?thesis .
qed

end

sublocale optional_codec \<subseteq> opt: wire_codec "read_optional parse" "print_option print"
    "\<lambda>v. \<forall>x. v = Some x \<longrightarrow> wf x"
  by unfold_locales (rule optional_iff)

interpretation finder_codec: optional_codec "reader_take TruncatedMetadata 32" "\<lambda>bs. bs"
  "\<lambda>bs. length bs = 32" ..

interpretation hardlink_codec: optional_codec "reader_blob TruncatedMetadata" print_blob
  "\<lambda>bs. length bs < 2 ^ 32" ..

section \<open>The metadata codec\<close>

text \<open>Types the record fields have in the code: permission bits below 8, Finder info of 32 bytes.\<close>

definition metadata_typed :: "metadata \<Rightarrow> bool" where
  "metadata_typed m \<longleftrightarrow> (\<forall>a \<in> set (aces m). ace_permissions a \<le> 7)
     \<and> (\<forall>info. finder_info m = Some info \<longrightarrow> length info = 32)"

text \<open>Storage granted for the three descriptor vectors.\<close>

definition descriptors_granted :: "allocator \<Rightarrow> metadata \<Rightarrow> bool" where
  "descriptors_granted mem m \<longleftrightarrow>
     mem (length (xattrs m)) \<and> mem (length (aces m)) \<and> mem (length (holes m))"

definition metadata_wire :: "allocator \<Rightarrow> metadata \<Rightarrow> bool" where
  "metadata_wire mem m \<longleftrightarrow>
     (length (xattrs m) < 2 ^ 32 \<and> mem (length (xattrs m))
        \<and> (\<forall>x \<in> set (xattrs m). length (x_name x) < 2 ^ 32 \<and> length (x_value x) < 2 ^ 32))
     \<and> (length (aces m) < 2 ^ 32 \<and> mem (length (aces m))
        \<and> (\<forall>a \<in> set (aces m). ace_permissions a \<le> 7 \<and> length (ace_name a) < 2 ^ 32))
     \<and> (\<forall>a. native_acl m = Some a \<longrightarrow> length (acl_bytes a) < 2 ^ 32)
     \<and> (\<forall>v \<in> set (time_values (mtimes m)). valid_time v)
     \<and> (\<forall>info. finder_info m = Some info \<longrightarrow> length info = 32)
     \<and> (length (holes m) < 2 ^ 32 \<and> mem (length (holes m)))
     \<and> (\<forall>path. hardlink_to m = Some path \<longrightarrow> length path < 2 ^ 32)"

interpretation metadata_codec: wire_codec "read_metadata mem" print_metadata "metadata_wire mem" for mem
proof unfold_locales
  fix r r' and m :: metadata
  assume ok: "reader_ok r"
  show "read_metadata mem r = Inr (m, r') \<longleftrightarrow> metadata_wire mem m \<and> consumes r (print_metadata m) r'"
    using ok
    by (cases m) (simp add: read_metadata_def metadata_wire_def print_metadata_def consumes_append
        xattr_codec.vec.parse_then ace_codec.vec.parse_then hole_codec.vec.parse_then
        native_acl_codec.parse_then times_codec.parse_then u32_codec.parse_then
        finder_codec.opt.parse_then hardlink_codec.opt.parse_then cong: conj_cong, blast)
qed

lemma validate_xattr_name_length:
  "validate_xattr_name c name = Inr u \<Longrightarrow> 0 < length name \<and> length name \<le> 255"
  by (cases c) (auto simp: validate_xattr_name_def validate_logical_name_def split: if_splits)

lemma validate_hardlink_length: "validate_hardlink path = Inr u \<Longrightarrow> length path \<le> 4096"
  by (auto simp: validate_hardlink_def split: if_splits)

lemma canonical_wire:
  assumes "metadata_canonical m"
  shows "metadata_wire mem m \<longleftrightarrow> metadata_typed m \<and> descriptors_granted mem m"
proof -
  have "length (x_name x) < 2 ^ 32 \<and> length (x_value x) < 2 ^ 32" if "x \<in> set (xattrs m)" for x
    using that assms validate_xattr_name_length
    by (fastforce simp: metadata_canonical_def check_xattr_def result_simps)
  moreover have "length (ace_name a) < 2 ^ 32" if "a \<in> set (aces m)" for a
    using that assms by (auto simp: metadata_canonical_def check_ace_def result_simps)
  moreover have "length path < 2 ^ 32" if "hardlink_to m = Some path" for path
    using that assms validate_hardlink_length [of path] by (force simp: metadata_canonical_def)
  ultimately show ?thesis
    using assms
    by (auto simp: metadata_wire_def metadata_typed_def descriptors_granted_def metadata_canonical_def)
qed

lemma metadata_decode_iff:
  assumes "in_memory bs"
  shows "metadata_decode mem bs = Inr m \<longleftrightarrow>
    metadata_canonical m \<and> metadata_typed m \<and> descriptors_granted mem m \<and> bs = print_metadata m"
proof -
  have "metadata_decode mem bs = Inr m \<longleftrightarrow> metadata_canonical m \<and> metadata_wire mem m
      \<and> (\<exists>r. consumes (read_from bs) (print_metadata m) r \<and> rd_pos r = length bs)"
    using assms
    by (auto simp: metadata_decode_def metadata_codec.parse_then metadata_new_iff if_err_Inr)
  also have "(\<exists>r. consumes (read_from bs) (print_metadata m) r \<and> rd_pos r = length bs)
      \<longleftrightarrow> bs = print_metadata m"
    using assms consumes_all by blast
  finally show ?thesis using canonical_wire by blast
qed

lemma fold_append: "fold (\<lambda>c out. out @ c) cs out = out @ concat cs"
  by (induction cs arbitrary: out) simp_all

lemma add_lengths_iff:
  "n < 2 ^ 64 \<Longrightarrow> add_lengths n cs = Inr k \<longleftrightarrow> k = n + length (concat cs) \<and> k < 2 ^ 64"
  by (induction cs arbitrary: n) (auto simp: result_simps checked_add_usize_def)

lemma metadata_encoded_len_iff:
  "metadata_encoded_len m = Inr n \<longleftrightarrow> n = length (print_metadata m) \<and> n < 2 ^ 64"
  by (auto simp: metadata_encoded_len_def add_lengths_iff concat_write_chunks)

lemma metadata_encode_iff:
  "metadata_encode mem m = Inr bs \<longleftrightarrow>
     length bs < 2 ^ 64 \<and> mem (length bs) \<and> bs = print_metadata m"
  by (auto simp: metadata_encode_def result_simps metadata_encoded_len_iff fold_append
      concat_write_chunks)

lemma metadata_hash_print: "metadata_hash H m = H (ascii ''DIFZMETA'' @ [1] @ print_metadata m)"
  by (simp add: metadata_hash_def fold_append concat_write_chunks)

lemma print_metadata_inj:
  assumes "metadata_canonical m" "metadata_canonical m'" "metadata_typed m" "metadata_typed m'"
    and "print_metadata m @ as = print_metadata m' @ bs" "in_memory (print_metadata m @ as)"
  shows "m = m' \<and> as = bs"
  using assms canonical_wire [of _ "\<lambda>_. True"]
  by (intro metadata_codec.print_prefix_free [of "\<lambda>_. True"]) (auto simp: descriptors_granted_def)

lemma length_print_metadata: "20 \<le> length (print_metadata m)"
  by (simp add: print_metadata_def print_vector_def print_native_acl_def print_times_def
      print_option_def split: option.splits)

lemma borrow_families_all:
  "borrow_families mem omit m family_all metadata_default =
     (if \<not> omit_contains omit Xattr \<and> \<not> mem (length (xattrs m))
        \<or> \<not> omit_contains omit Acl \<and> \<not> mem (length (aces m))
        \<or> \<not> omit_contains omit Sparse \<and> \<not> mem (length (holes m)) then Inl OutOfMemory
      else Inr (omit_families omit m))"
  by (simp add: family_all_def metadata_default_def omit_families_def reserve_def)

lemma borrowing_omitting_canonical:
  assumes "metadata_canonical m"
  shows "borrowing_omitting mem m omit =
     (if \<not> omit_contains omit Xattr \<and> \<not> mem (length (xattrs m))
        \<or> \<not> omit_contains omit Acl \<and> \<not> mem (length (aces m))
        \<or> \<not> omit_contains omit Sparse \<and> \<not> mem (length (holes m)) then Inl OutOfMemory
      else Inr (omit_families omit m))"
  using canonical_omit [OF assms]
  by (simp add: borrowing_omitting_def borrow_families_all metadata_new_iff)

section \<open>Properties of the metadata codec\<close>

text \<open>C16. Encoding and decoding are inverse on canonical records, and only their encodings decode: with
  memory granted, a byte string decodes to a record exactly when the record is canonical and the byte
  string is its encoding. Forged counts, unknown tags, unsorted or duplicate entries, padding and
  trailing bytes are all refused.\<close>

theorem metadata_decode_inverts_encode:
  assumes "in_memory bs" and "\<forall>n. mem n" and "metadata_typed m"
  shows "metadata_decode mem bs = Inr m \<longleftrightarrow> metadata_canonical m \<and> metadata_encode mem m = Inr bs"
  using assms by (auto simp: metadata_decode_iff metadata_encode_iff descriptors_granted_def)

theorem metadata_decode_inverts_encode_witness:
  "\<exists>bs. metadata_encode (\<lambda>_. True) sample_normal = Inr bs \<and> length bs = 93
     \<and> metadata_decode (\<lambda>_. True) bs = Inr sample_normal"
proof -
  let ?bs = "print_metadata sample_normal"
  have len: "length ?bs = 93"
    by (simp add: print_metadata_def sample_normal_def metadata_default_def print_vector_def
        print_xattr_def print_blob_def ascii_def print_native_acl_def print_times_def
        times_default_def print_flagged_time_def print_option_def print_hole_def)
  then have enc: "metadata_encode (\<lambda>_. True) sample_normal = Inr ?bs"
    by (simp add: metadata_encode_iff)
  have "metadata_typed sample_normal"
    by (simp add: metadata_typed_def sample_normal_def metadata_default_def)
  with len enc sample_normal_canonical metadata_decode_inverts_encode [of ?bs "\<lambda>_. True" sample_normal]
  show ?thesis by (auto simp: in_memory_def)
qed

text \<open>The metadata hash identifies the record: the hashed bytes of two different canonical records
  differ, so two records with the same hash are equal unless the hash function collides on them.\<close>

lemma metadata_hash_identifies:
  assumes "metadata_canonical m" "metadata_canonical m'" "metadata_typed m" "metadata_typed m'"
    and "metadata_encode mem m = Inr bs" "in_memory bs"
    and "metadata_hash H m = metadata_hash H m'"
    and collision_free: "inj_on H {ascii ''DIFZMETA'' @ [1] @ concat (write_chunks x) | x. x = m \<or> x = m'}"
  shows "m = m'"
proof -
  have "print_metadata m = print_metadata m'"
    using assms(7) inj_onD [OF collision_free]
    by (fastforce simp: metadata_hash_print concat_write_chunks)
  then show ?thesis
    using print_metadata_inj [OF assms(1-4), of "[]" "[]"] assms(5,6) by (simp add: metadata_encode_iff)
qed

text \<open>C17. Projecting a canonical record by borrowing is normalization with the same omission: it needs
  storage only for the retained descriptor vectors, yields a canonical record without sorting, and
  fails only when that storage is refused.\<close>

theorem borrowing_matches_normalize:
  assumes "metadata_canonical m"
  shows "borrowing_omitting mem m omit =
    (if (omit_contains omit Xattr \<or> mem (length (xattrs m)))
       \<and> (omit_contains omit Acl \<or> mem (length (aces m)))
       \<and> (omit_contains omit Sparse \<or> mem (length (holes m)))
     then metadata_normalize m omit else Inl OutOfMemory)"
  using assms by (auto simp: borrowing_omitting_canonical metadata_normalize_of_canonical)

theorem borrowing_matches_normalize_witness:
  "borrowing_omitting (\<lambda>n. n < 2) sample_normal 17 = Inr (metadata_default\<lparr>finder_flags := 5\<rparr>)"
proof -
  note c = sample_normal_canonical
  from borrowing_matches_normalize [OF c, of "\<lambda>n. n < 2" 17] metadata_normalize_of_canonical [OF c, of 17]
  show ?thesis
    by (simp add: omit_contains_def family_bit_def omit_families_def family_all_def sample_normal_def
        metadata_default_def)
qed

end
