(* ===== verification/Zstd_Frame.thy ===== *)
theory Zstd_Frame
  imports Difz_Prelude
begin

text \<open>
  The safe wrapper around the zstd library (\<open>rust/zstdz/src/lib.rs\<close>): the window rule, the
  compression of one source-prefix frame and its bounded decompression. The C library itself is
  not part of the repository: it is a record of functions over abstract compression and
  decompression contexts, one field per native function that the wrapper calls, and every status,
  null context and allocation failure is a branch of the wrapper's model. Each native call returns
  its status and the context it leaves behind; \<open>ZSTD_compress2\<close> and
  \<open>ZSTD_decompressDCtx\<close> also return the bytes written to the destination.

  \<open>zstd_prefix_frames\<close> states what the zstd manual documents and the file format relies on: a
  frame compressed with a referenced prefix decompresses, with the same prefix referenced and a
  window limit that covers it, to the compressed content.
\<close>

datatype zstd_error = OutOfMemory | WindowTooLarge | CompressionFailed | DecompressionFailed

datatype c_parameter = C_compressionLevel | C_nbWorkers | C_enableLongDistanceMatching | C_windowLog
  | C_chainLog | C_hashLog | C_searchLog | C_minMatch | C_targetLength | C_strategy

record c_params =
  chainLog :: u32
  hashLog :: u32
  searchLog :: u32
  minMatch :: u32
  targetLength :: u32
  strategy :: u32

record ('c, 'd) native =
  ZSTD_isError :: "u64 \<Rightarrow> bool"
  ZSTD_btlazy2 :: u32
  ZSTD_getCParams :: "u32 \<Rightarrow> u64 \<Rightarrow> u64 \<Rightarrow> c_params"
  ZSTD_createCCtx :: "'c option"
  ZSTD_CCtx_setParameter :: "'c \<Rightarrow> c_parameter \<Rightarrow> u32 \<Rightarrow> u64 \<times> 'c"
  ZSTD_CCtx_refPrefix :: "'c \<Rightarrow> bytes \<Rightarrow> u64 \<times> 'c"
  ZSTD_compressBound :: "u64 \<Rightarrow> u64"
  ZSTD_compress2 :: "'c \<Rightarrow> u64 \<Rightarrow> bytes \<Rightarrow> u64 \<times> bytes"
  ZSTD_createDCtx :: "'d option"
  ZSTD_DCtx_setMaxWindowSize :: "'d \<Rightarrow> u64 \<Rightarrow> u64 \<times> 'd"
  ZSTD_DCtx_refPrefix :: "'d \<Rightarrow> bytes \<Rightarrow> u64 \<times> 'd"
  ZSTD_decompressDCtx :: "'d \<Rightarrow> u64 \<Rightarrow> bytes \<Rightarrow> u64 \<times> bytes"

definition MAX_INPUT_LEN :: u64 where
  "MAX_INPUT_LEN = push_bit 31 1"

text \<open>The number of significant bits, \<open>64 - leading_zeros\<close>.\<close>

fun bit_width :: "nat \<Rightarrow> nat" where
  "bit_width n = (if n = 0 then 0 else Suc (bit_width (n div 2)))"

declare bit_width.simps [simp del]

definition leading_zeros :: "u64 \<Rightarrow> nat" where
  "leading_zeros w = 64 - bit_width (unat w)"

definition window_log :: "u64 \<Rightarrow> u64 \<Rightarrow> zstd_error + u32" where
  "window_log source target =
     (if source > MAX_INPUT_LEN \<or> target > MAX_INPUT_LEN then Inl WindowTooLarge
      else Inr (of_nat (min 31 (max 10 (64 - leading_zeros (max source target))))))"

definition checked :: "('c, 'd) native \<Rightarrow> u64 \<Rightarrow> zstd_error \<Rightarrow> zstd_error + u64" where
  "checked N status err = (if ZSTD_isError N status then Inl err else Inr status)"

text \<open>A native call: its status is checked before anything it produced is used.\<close>

definition checked_call ::
  "('c, 'd) native \<Rightarrow> zstd_error \<Rightarrow> u64 \<times> 'x \<Rightarrow> zstd_error + u64 \<times> 'x" where
  "checked_call N err p = and_then (checked N (fst p) err) (\<lambda>status. Inr (status, snd p))"

fun set_parameters ::
  "('c, 'd) native \<Rightarrow> 'c \<Rightarrow> (c_parameter \<times> u32) list \<Rightarrow> zstd_error + 'c" where
  "set_parameters N c [] = Inr c"
| "set_parameters N c ((p, v) # pvs) =
     and_then (checked_call N CompressionFailed (ZSTD_CCtx_setParameter N c p v))
       (\<lambda>(_, c). set_parameters N c pvs)"

definition frame_parameters :: "c_params \<Rightarrow> u32 \<Rightarrow> bool \<Rightarrow> (c_parameter \<times> u32) list" where
  "frame_parameters ps window ldm =
     [(C_compressionLevel, 9), (C_nbWorkers, 0),
      (C_enableLongDistanceMatching, if ldm then 1 else 0),
      (C_windowLog, window), (C_chainLog, chainLog ps), (C_hashLog, hashLog ps),
      (C_searchLog, searchLog ps), (C_minMatch, minMatch ps),
      (C_targetLength, targetLength ps), (C_strategy, strategy ps)]"

text \<open>An empty source is not referenced as a prefix.\<close>

definition reference_prefix ::
  "('c, 'd) native \<Rightarrow> zstd_error \<Rightarrow> ('x \<Rightarrow> bytes \<Rightarrow> u64 \<times> 'x) \<Rightarrow> 'x \<Rightarrow> bytes \<Rightarrow> zstd_error + 'x" where
  "reference_prefix N err ref context source =
     (if source \<noteq> [] then and_then (checked_call N err (ref context source)) (\<lambda>(_, c). Inr c)
      else Inr context)"

definition append_frame ::
  "allocator \<Rightarrow> ('c, 'd) native \<Rightarrow> bytes \<Rightarrow> bytes \<Rightarrow> bytes \<Rightarrow> zstd_error + bytes" where
  "append_frame mem N source target output =
     and_then (window_log (as_u64 (length source)) (as_u64 (length target))) (\<lambda>window.
     and_then (ok_or OutOfMemory (ZSTD_createCCtx N)) (\<lambda>context.
     let parameters = ZSTD_getCParams N 9 (as_u64 (length target)) (as_u64 (length source));
         raw_log = 64 - leading_zeros (as_u64 (max (length source) (length target))) in
     and_then (ok_or CompressionFailed
        (checked_sub (chainLog parameters) (if strategy parameters \<ge> ZSTD_btlazy2 N then 1 else 0)))
      (\<lambda>cycle_log.
     and_then (set_parameters N context
        (frame_parameters parameters window (raw_log > unat cycle_log))) (\<lambda>context.
     and_then (reference_prefix N CompressionFailed (ZSTD_CCtx_refPrefix N) context source)
      (\<lambda>context.
     and_then (checked N (ZSTD_compressBound N (as_u64 (length target))) CompressionFailed) (\<lambda>bound.
     and_then (reserve mem (unat bound) OutOfMemory) (\<lambda>_.
     and_then (checked_call N CompressionFailed (ZSTD_compress2 N context bound target))
      (\<lambda>(written, dst).
     if written > bound then Inl CompressionFailed
     else Inr (output @ take (unat written) dst)))))))))"

definition decode ::
  "allocator \<Rightarrow> ('c, 'd) native \<Rightarrow> bytes \<Rightarrow> bytes \<Rightarrow> usize \<Rightarrow> zstd_error + bytes" where
  "decode mem N source frame expected =
     and_then (window_log (as_u64 (length source)) (as_u64 expected)) (\<lambda>_.
     and_then (reserve mem expected OutOfMemory) (\<lambda>_.
     and_then (ok_or OutOfMemory (ZSTD_createDCtx N)) (\<lambda>context.
     and_then (checked_call N DecompressionFailed
        (ZSTD_DCtx_setMaxWindowSize N context MAX_INPUT_LEN)) (\<lambda>(_, context).
     and_then (reference_prefix N DecompressionFailed (ZSTD_DCtx_refPrefix N) context source)
      (\<lambda>context.
     and_then (checked_call N DecompressionFailed
        (ZSTD_decompressDCtx N context (as_u64 expected) frame)) (\<lambda>(written, dst).
     if written \<noteq> as_u64 expected then Inl DecompressionFailed
     else Inr (take (unat written) dst)))))))"

section \<open>The native contract\<close>

inductive configured :: "('c, 'd) native \<Rightarrow> 'c \<Rightarrow> bool" for N where
  fresh: "ZSTD_createCCtx N = Some c \<Longrightarrow> configured N c"
| parameter: "configured N c \<Longrightarrow> ZSTD_CCtx_setParameter N c p v = (status, c') \<Longrightarrow>
     \<not> ZSTD_isError N status \<Longrightarrow> configured N c'"

definition encoder_for :: "('c, 'd) native \<Rightarrow> bytes \<Rightarrow> 'c \<Rightarrow> bool" where
  "encoder_for N prefix c \<longleftrightarrow>
     (if prefix = [] then configured N c
      else (\<exists>c0 status. configured N c0 \<and> ZSTD_CCtx_refPrefix N c0 prefix = (status, c)
              \<and> \<not> ZSTD_isError N status))"

definition decoder_for :: "('c, 'd) native \<Rightarrow> bytes \<Rightarrow> 'd \<Rightarrow> bool" where
  "decoder_for N prefix d \<longleftrightarrow>
     (\<exists>d0 d1 status. ZSTD_createDCtx N = Some d0
        \<and> ZSTD_DCtx_setMaxWindowSize N d0 MAX_INPUT_LEN = (status, d1) \<and> \<not> ZSTD_isError N status
        \<and> (if prefix = [] then d = d1
           else (\<exists>status. ZSTD_DCtx_refPrefix N d1 prefix = (status, d) \<and> \<not> ZSTD_isError N status)))"

definition zstd_prefix_frames :: "('c, 'd) native \<Rightarrow> bool" where
  "zstd_prefix_frames N \<longleftrightarrow>
     (\<forall>prefix target c d cap status dst.
        length prefix \<le> 2 ^ 31 \<and> length target \<le> 2 ^ 31
        \<and> encoder_for N prefix c \<and> decoder_for N prefix d
        \<and> ZSTD_compress2 N c cap target = (status, dst)
        \<and> \<not> ZSTD_isError N status \<and> status \<le> cap
        \<longrightarrow> \<not> ZSTD_isError N (as_u64 (length target))
          \<and> ZSTD_decompressDCtx N d (as_u64 (length target)) (take (unat status) dst)
              = (as_u64 (length target), target))"

text \<open>
  The native library writes no more than the destination holds, and a success status counts the
  bytes it wrote.
\<close>

definition zstd_bounded_output :: "('c, 'd) native \<Rightarrow> bool" where
  "zstd_bounded_output N \<longleftrightarrow>
     (\<forall>d cap frame status dst.
        ZSTD_decompressDCtx N d cap frame = (status, dst) \<and> \<not> ZSTD_isError N status
        \<longrightarrow> unat status \<le> length dst)"

text \<open>
  A library that satisfies the contract: it stores the content as the frame. It instantiates the
  hypotheses of the theorems below at concrete inputs.
\<close>

definition stored_native :: "(unit, unit) native" where
  "stored_native =
     \<lparr>ZSTD_isError = (\<lambda>s. s > 0xFFFFFFFFFFFFFF87), ZSTD_btlazy2 = 6,
      ZSTD_getCParams = (\<lambda>_ _ _. \<lparr>chainLog = 17, hashLog = 17, searchLog = 5, minMatch = 5,
        targetLength = 16, strategy = 5\<rparr>),
      ZSTD_createCCtx = Some (), ZSTD_CCtx_setParameter = (\<lambda>c _ _. (0, c)),
      ZSTD_CCtx_refPrefix = (\<lambda>c _. (0, c)), ZSTD_compressBound = (\<lambda>n. n + 64),
      ZSTD_compress2 = (\<lambda>_ cap content. if length content \<le> unat cap
        then (as_u64 (length content), content) else (0xFFFFFFFFFFFFFFBA, [])),
      ZSTD_createDCtx = Some (), ZSTD_DCtx_setMaxWindowSize = (\<lambda>d _. (0, d)),
      ZSTD_DCtx_refPrefix = (\<lambda>d _. (0, d)),
      ZSTD_decompressDCtx = (\<lambda>_ cap frame. if length frame \<le> unat cap
        then (as_u64 (length frame), frame) else (0xFFFFFFFFFFFFFFBA, []))\<rparr>"

section \<open>Window rule\<close>

lemma bit_width_bounds: "n < 2 ^ bit_width n \<and> (n \<noteq> 0 \<longrightarrow> 2 ^ (bit_width n - 1) \<le> n)"
proof (induction n rule: bit_width.induct)
  case (1 n)
  show ?case
  proof (cases "n = 0")
    case True
    then show ?thesis by (simp add: bit_width.simps)
  next
    case False
    with 1 have IH: "n div 2 < 2 ^ bit_width (n div 2)"
      "n div 2 \<noteq> 0 \<longrightarrow> 2 ^ (bit_width (n div 2) - 1) \<le> n div 2"
      by auto
    have "2 ^ bit_width (n div 2) \<le> n"
    proof (cases "n div 2 = 0")
      case True
      then show ?thesis using False by (simp add: bit_width.simps [of 0])
    next
      case nz: False
      then have "bit_width (n div 2) = Suc (bit_width (n div 2) - 1)"
        by (simp add: bit_width.simps [of "n div 2"])
      then show ?thesis
        using IH(2) nz by (metis (no_types, lifting) div_times_less_eq_dividend le_trans mult.commute
            mult_le_mono1 power_Suc2)
    qed
    with IH False show ?thesis
      by (auto simp: bit_width.simps [of n])
  qed
qed

lemma bit_width_u64: "bit_width (unat (w :: u64)) \<le> 64"
proof (cases "unat w = 0")
  case False
  have "unat w < 2 ^ 64" using unsigned_less [of w] by simp
  with False have "(2::nat) ^ (bit_width (unat w) - 1) < 2 ^ 64"
    using bit_width_bounds [of "unat w"] by (meson le_less_trans)
  then have "bit_width (unat w) - 1 < 64"
    using power_less_imp_less_exp by (metis one_less_numeral_iff semiring_norm(76))
  then show ?thesis by simp
qed (simp add: bit_width.simps)

lemma window_log_Inr:
  "window_log s t = Inr w \<longleftrightarrow>
     unat s \<le> 2 ^ 31 \<and> unat t \<le> 2 ^ 31
     \<and> w = of_nat (min 31 (max 10 (bit_width (unat (max s t)))))"
  using bit_width_u64 [of "max s t"]
  by (auto simp: window_log_def leading_zeros_def MAX_INPUT_LEN_def word_less_nat_alt not_less)

lemma window_log_covers:
  assumes "window_log s t = Inr w"
  shows "10 \<le> unat w \<and> unat w \<le> 31 \<and> unat s \<le> 2 ^ unat w \<and> unat t \<le> 2 ^ unat w"
proof -
  let ?b = "bit_width (unat (max s t))"
  have w: "unat w = min 31 (max 10 ?b)" and le: "unat (max s t) \<le> 2 ^ 31"
    using assms by (auto simp: window_log_Inr unsigned_of_nat take_bit_nat_eq_self max_def)
  have "unat (max s t) \<le> 2 ^ min 31 (max 10 ?b)"
  proof (cases "?b \<le> 31")
    case True
    then have "?b \<le> min 31 (max 10 ?b)" by simp
    then have "(2::nat) ^ ?b \<le> 2 ^ min 31 (max 10 ?b)"
      by (intro power_increasing) auto
    then show ?thesis
      using bit_width_bounds [of "unat (max s t)"] by linarith
  next
    case False
    then show ?thesis using le by (simp add: min_def)
  qed
  moreover have "unat s \<le> unat (max s t)" and "unat t \<le> unat (max s t)"
    by (auto simp: max_def word_le_nat_alt)
  ultimately show ?thesis using w by auto
qed

section \<open>Frames\<close>

lemma checked_Inr: "checked N s err = Inr s' \<longleftrightarrow> s' = s \<and> \<not> ZSTD_isError N s"
  by (auto simp: checked_def)

lemma checked_call_Inr:
  "checked_call N err p = Inr (s, x) \<longleftrightarrow> p = (s, x) \<and> \<not> ZSTD_isError N s"
  by (cases p) (auto simp: checked_call_def checked_def)

lemma reference_prefix_Inr:
  "reference_prefix N err ref c source = Inr c' \<longleftrightarrow>
     (if source = [] then c' = c
      else (\<exists>status. ref c source = (status, c') \<and> \<not> ZSTD_isError N status))"
  by (auto simp: reference_prefix_def and_then_pair_Inr checked_call_Inr)

lemmas native_simps = if_err_Inr and_then_Inr and_then_pair_Inr ok_or_Inr reserve_Inr checked_Inr checked_call_Inr

lemma set_parameters_configured:
  "set_parameters N c pvs = Inr c' \<Longrightarrow> configured N c \<Longrightarrow> configured N c'"
proof (induction pvs arbitrary: c)
  case Nil
  then show ?case by simp
next
  case (Cons pv pvs)
  then show ?case
    by (cases pv) (auto simp: native_simps intro: configured.parameter)
qed

lemma append_frame_Inr:
  assumes "append_frame mem N source target output = Inr out"
  shows "\<exists>c cap status dst. encoder_for N source c \<and> ZSTD_compress2 N c cap target = (status, dst)
    \<and> \<not> ZSTD_isError N status \<and> status \<le> cap \<and> out = output @ take (unat status) dst"
proof -
  from assms obtain c0 pvs c1 c cap status dst where
    c0: "ZSTD_createCCtx N = Some c0" "set_parameters N c0 pvs = Inr c1"
    and c1: "reference_prefix N CompressionFailed (ZSTD_CCtx_refPrefix N) c1 source = Inr c"
    and c: "ZSTD_compress2 N c cap target = (status, dst)" "\<not> ZSTD_isError N status"
      "\<not> status > cap" "out = output @ take (unat status) dst"
    by (clarsimp simp: append_frame_def Let_def native_simps)
  have "configured N c1"
    using c0 by (auto intro: set_parameters_configured configured.fresh)
  then have "encoder_for N source c"
    using c1 by (auto simp: encoder_for_def reference_prefix_Inr split: if_splits)
  then show ?thesis using c by (auto simp: not_less)
qed

lemma decode_prefix_frame:
  assumes law: "zstd_prefix_frames N" and d: "decoder_for N source d"
    and c: "encoder_for N source c" "ZSTD_compress2 N c cap target = (status, dst)"
    "\<not> ZSTD_isError N status" "status \<le> cap"
    and len: "length source \<le> 2 ^ 31" "length target \<le> 2 ^ 31" and mem: "mem (length target)"
  shows "decode mem N source (take (unat status) dst) (length target) = Inr target"
proof -
  from len obtain w where w: "window_log (as_u64 (length source)) (as_u64 (length target)) = Inr w"
    by (simp add: window_log_Inr)
  have dec: "\<not> ZSTD_isError N (as_u64 (length target))
      \<and> ZSTD_decompressDCtx N d (as_u64 (length target)) (take (unat status) dst)
          = (as_u64 (length target), target)"
    using law c d len unfolding zstd_prefix_frames_def by blast
  show ?thesis
    using d dec len(2) mem
    by (auto simp: decode_def w decoder_for_def checked_call_def checked_def reference_prefix_def
        split: if_splits)
qed

lemma decode_Inr:
  assumes "decode mem N source frame expected = Inr out"
  shows "unat (as_u64 expected) \<le> 2 ^ 31 \<and> mem expected
    \<and> (\<exists>d dst. decoder_for N source d
        \<and> ZSTD_decompressDCtx N d (as_u64 expected) frame = (as_u64 expected, dst)
        \<and> \<not> ZSTD_isError N (as_u64 expected) \<and> out = take (unat (as_u64 expected)) dst)"
proof -
  from assms obtain w d0 s d1 d dst where
    w: "window_log (as_u64 (length source)) (as_u64 expected) = Inr w" and mem: "mem expected"
    and d0: "ZSTD_createDCtx N = Some d0"
      "ZSTD_DCtx_setMaxWindowSize N d0 MAX_INPUT_LEN = (s, d1)" "\<not> ZSTD_isError N s"
    and d1: "reference_prefix N DecompressionFailed (ZSTD_DCtx_refPrefix N) d1 source = Inr d"
    and d: "ZSTD_decompressDCtx N d (as_u64 expected) frame = (as_u64 expected, dst)"
      "\<not> ZSTD_isError N (as_u64 expected)" "out = take (unat (as_u64 expected)) dst"
    by (clarsimp simp: decode_def native_simps)
  have "decoder_for N source d"
    using d0 d1 by (auto simp: decoder_for_def reference_prefix_Inr split: if_splits)
  then show ?thesis using w mem d by (auto simp: window_log_Inr)
qed

section \<open>The stored-frame instance\<close>

lemma stored_native_frames: "zstd_prefix_frames stored_native"
  by (auto simp: zstd_prefix_frames_def stored_native_def word_less_nat_alt not_less
      split: if_splits)

lemma stored_native_decoder: "decoder_for stored_native prefix ()"
  by (auto simp: decoder_for_def stored_native_def)

text \<open>C24. The window rule: \<open>window_log\<close> accepts exactly the input pairs of at most 2 GiB each, and the
  window it returns lies between 10 and 31 and spans both inputs, so the decoder's fixed 2 GiB limit
  admits every frame the encoder can produce.\<close>

theorem window_log_spans_inputs:
  "(\<exists>w. window_log s t = Inr w) = (unat s \<le> 2 ^ 31 \<and> unat t \<le> 2 ^ 31) \<and>
   (case window_log s t of
      Inl e \<Rightarrow> e = WindowTooLarge
    | Inr w \<Rightarrow> 10 \<le> unat w \<and> unat w \<le> 31 \<and> unat s \<le> 2 ^ unat w \<and> unat t \<le> 2 ^ unat w)"
proof -
  have "(\<exists>w. window_log s t = Inr w) = (unat s \<le> 2 ^ 31 \<and> unat t \<le> 2 ^ 31)"
    by (auto simp: window_log_Inr)
  moreover have "e = WindowTooLarge" if "window_log s t = Inl e" for e
    using that by (simp add: window_log_def split: if_splits)
  ultimately show ?thesis
    using window_log_covers [of s t] by (simp split: sum.splits)
qed

end
