(* ===== verification/Zdif_File.thy ===== *)
theory Zdif_File
  imports Zstd_Frame
begin

text \<open>
  The ZDIF v4 file patch: the fixed 85-byte header (\<open>rust/src/lib.rs\<close>) and the file
  operations \<open>encode\<close> and \<open>apply\<close> (\<open>rust/src/file.rs\<close>). BLAKE3 is a third-party crate: it
  is an argument \<open>H\<close> of the operations; that it returns 32 bytes is the hypothesis
  \<open>hash_width\<close>.
\<close>

type_synonym hasher = "bytes \<Rightarrow> bytes"

definition hash_width :: "hasher \<Rightarrow> bool" where
  "hash_width H \<longleftrightarrow> (\<forall>bs. length (H bs) = 32)"

section \<open>The header\<close>

definition MAGIC :: bytes where
  "MAGIC = ascii ''ZDIF'' @ [4]"

definition HASH_LEN :: usize where "HASH_LEN = 32"
definition SOURCE_HASH :: usize where "SOURCE_HASH = length MAGIC"
definition TARGET_HASH :: usize where "TARGET_HASH = SOURCE_HASH + HASH_LEN"
definition SOURCE_LENGTH :: usize where "SOURCE_LENGTH = TARGET_HASH + HASH_LEN"
definition TARGET_LENGTH :: usize where "TARGET_LENGTH = SOURCE_LENGTH + 8"
definition HEADER_LEN :: usize where "HEADER_LEN = TARGET_LENGTH + 8"

record header =
  source_hash :: bytes
  target_hash :: bytes
  source_len :: u64
  target_len :: u64

datatype header_error = InvalidMagic | Truncated

text \<open>The hash fields are arrays of 32 bytes.\<close>

definition header_typed :: "header \<Rightarrow> bool" where
  "header_typed h \<longleftrightarrow> length (source_hash h) = 32 \<and> length (target_hash h) = 32"

definition header_encode :: "header \<Rightarrow> bytes" where
  "header_encode h =
     MAGIC @ source_hash h @ target_hash h @ le_bytes (source_len h) @ le_bytes (target_len h)"

definition header_decode_prefix :: "bytes \<Rightarrow> header_error + header \<times> bytes" where
  "header_decode_prefix bs =
     (if get_range bs 0 (length MAGIC) \<noteq> Some MAGIC then Inl InvalidMagic
      else and_then (ok_or Truncated (get_range bs 0 HEADER_LEN)) (\<lambda>encoded.
        and_then (ok_or Truncated (get_range encoded SOURCE_HASH TARGET_HASH)) (\<lambda>sh.
        and_then (ok_or Truncated (get_range encoded TARGET_HASH SOURCE_LENGTH)) (\<lambda>th.
        and_then (ok_or Truncated (get_range encoded SOURCE_LENGTH TARGET_LENGTH)) (\<lambda>sl.
        and_then (ok_or Truncated (get_range encoded TARGET_LENGTH (length encoded))) (\<lambda>tl.
        Inr (\<lparr>source_hash = sh, target_hash = th, source_len = le_word sl, target_len = le_word tl\<rparr>,
             drop HEADER_LEN bs)))))))"

section \<open>File operations\<close>

datatype file_error = OutOfMemory | InvalidMagic | Truncated | SizeMismatch | SourceHashMismatch
  | TargetHashMismatch | WindowTooLarge | CompressionFailed | DecompressionFailed
  | ResourceLimitExceeded

fun from_zstd :: "zstd_error \<Rightarrow> file_error" where
  "from_zstd zstd_error.OutOfMemory = OutOfMemory"
| "from_zstd zstd_error.WindowTooLarge = WindowTooLarge"
| "from_zstd zstd_error.CompressionFailed = CompressionFailed"
| "from_zstd zstd_error.DecompressionFailed = DecompressionFailed"

fun from_header :: "header_error \<Rightarrow> file_error" where
  "from_header header_error.InvalidMagic = InvalidMagic"
| "from_header header_error.Truncated = Truncated"

definition file_window_log :: "u64 \<Rightarrow> u64 \<Rightarrow> file_error + u32" where
  "file_window_log source target = map_err from_zstd (window_log source target)"

definition file_encode ::
  "allocator \<Rightarrow> ('c, 'd) native \<Rightarrow> hasher \<Rightarrow> bytes \<Rightarrow> bytes \<Rightarrow> file_error + bytes" where
  "file_encode mem N H source target =
     and_then (file_window_log (as_u64 (length source)) (as_u64 (length target))) (\<lambda>_.
     let header = \<lparr>source_hash = H source, target_hash = H target,
                   source_len = as_u64 (length source), target_len = as_u64 (length target)\<rparr> in
     and_then (reserve mem HEADER_LEN OutOfMemory) (\<lambda>_.
     map_err from_zstd (append_frame mem N source target (header_encode header))))"

definition file_apply ::
  "allocator \<Rightarrow> ('c, 'd) native \<Rightarrow> hasher \<Rightarrow> bytes \<Rightarrow> bytes \<Rightarrow> usize \<Rightarrow> file_error + bytes" where
  "file_apply mem N H source patch maximum =
     and_then (map_err from_header (header_decode_prefix patch)) (\<lambda>(header, frame).
     if source_len header \<noteq> as_u64 (length source) then Inl SizeMismatch
     else if source_hash header \<noteq> H source then Inl SourceHashMismatch
     else if maximum \<noteq> 0 \<and> target_len header > as_u64 maximum then Inl ResourceLimitExceeded
     else
       and_then (file_window_log (as_u64 (length source)) (target_len header)) (\<lambda>_.
       and_then (map_err from_zstd (decode mem N source frame (unat (target_len header)))) (\<lambda>output.
       if target_hash header \<noteq> H output then Inl TargetHashMismatch else Inr output)))"

text \<open>The registry of operations that the macro \<open>file_operations\<close> builds from the two functions.\<close>

datatype file_operation = Encode | Apply

definition operation_all :: "file_operation list" where
  "operation_all = [Encode, Apply]"

fun operation_name :: "file_operation \<Rightarrow> bytes" where
  "operation_name Encode = ascii ''encode''"
| "operation_name Apply = ascii ''apply''"

definition expected_model :: "file_operation \<Rightarrow> bytes" where
  "expected_model op = ascii ''linear''"

section \<open>Header lemmas\<close>

lemma header_layout:
  "length MAGIC = 5" "SOURCE_HASH = 5" "TARGET_HASH = 37" "SOURCE_LENGTH = 69" "TARGET_LENGTH = 77"
  "HEADER_LEN = 85"
  by (simp_all add: MAGIC_def ascii_def SOURCE_HASH_def TARGET_HASH_def SOURCE_LENGTH_def
      TARGET_LENGTH_def HEADER_LEN_def HASH_LEN_def)

lemma header_encode_length: "header_typed h \<Longrightarrow> length (header_encode h) = 85"
  by (simp add: header_encode_def header_typed_def header_layout)

lemma header_roundtrip:
  assumes "header_typed h"
  shows "header_decode_prefix (header_encode h @ frame) = Inr (h, frame)"
  using assms
  by (simp add: header_decode_prefix_def header_encode_def header_typed_def header_layout
      get_range_def)

lemma header_decode_sound:
  assumes "header_decode_prefix bs = Inr (h, frame)"
  shows "header_typed h \<and> bs = header_encode h @ frame"
proof -
  from assms have len: "85 \<le> length bs" and magic: "take 5 bs = MAGIC"
    and h: "h = \<lparr>source_hash = take 32 (drop 5 bs), target_hash = take 32 (drop 37 bs),
                source_len = le_word (take 8 (drop 69 bs)), target_len = le_word (take 8 (drop 77 bs))\<rparr>"
    and frame: "frame = drop 85 bs"
    by (auto simp: header_decode_prefix_def and_then_Inr ok_or_Inr get_range_Some header_layout
        drop_take split: if_splits)
  have "bs = take 5 bs @ take 32 (drop 5 bs) @ take 32 (drop 37 bs) @ take 8 (drop 69 bs)
      @ take 8 (drop 77 bs) @ drop 85 bs"
    by (simp add: take_drop_chunk)
  then show ?thesis
    using len magic by (simp add: h frame header_typed_def header_encode_def)
qed

text \<open>The ZDIF header is decoded exactly from its encodings, so no two headers share an encoding and
  nothing else is accepted.\<close>

lemma header_decode_iff:
  "header_decode_prefix bs = Inr (h, frame) \<longleftrightarrow> header_typed h \<and> bs = header_encode h @ frame"
  using header_roundtrip header_decode_sound by blast

section \<open>File lemmas\<close>

lemma file_window_log_Inr:
  "(\<exists>w. file_window_log s t = Inr w) \<longleftrightarrow> unat s \<le> 2 ^ 31 \<and> unat t \<le> 2 ^ 31"
  by (auto simp: file_window_log_def map_err_Inr window_log_Inr)

lemma file_encode_Inr:
  assumes "file_encode mem N H source target = Inr patch"
  shows "unat (as_u64 (length source)) \<le> 2 ^ 31 \<and> unat (as_u64 (length target)) \<le> 2 ^ 31 \<and>
    (\<exists>c cap status dst. encoder_for N source c \<and> ZSTD_compress2 N c cap target = (status, dst)
      \<and> \<not> ZSTD_isError N status \<and> status \<le> cap
      \<and> patch = header_encode \<lparr>source_hash = H source, target_hash = H target,
           source_len = as_u64 (length source), target_len = as_u64 (length target)\<rparr>
         @ take (unat status) dst)"
  using assms file_window_log_Inr
  by (fastforce simp: file_encode_def Let_def and_then_Inr map_err_Inr dest!: append_frame_Inr)

lemma file_apply_Inr:
  assumes "file_apply mem N H source patch maximum = Inr output"
  shows "\<exists>h frame. header_decode_prefix patch = Inr (h, frame)
    \<and> source_len h = as_u64 (length source) \<and> source_hash h = H source
    \<and> (maximum = 0 \<or> target_len h \<le> as_u64 maximum)
    \<and> unat (target_len h) \<le> 2 ^ 31
    \<and> decode mem N source frame (unat (target_len h)) = Inr output \<and> target_hash h = H output"
proof -
  from assms obtain h frame w where "header_decode_prefix patch = Inr (h, frame)"
    "source_len h = as_u64 (length source)" "source_hash h = H source"
    "maximum = 0 \<or> \<not> target_len h > as_u64 maximum"
    "file_window_log (as_u64 (length source)) (target_len h) = Inr w"
    "decode mem N source frame (unat (target_len h)) = Inr output" "target_hash h = H output"
    by (auto simp: file_apply_def result_simps split: if_splits)
  then show ?thesis using file_window_log_Inr by fastforce
qed

lemma file_roundtrip:
  assumes law: "zstd_prefix_frames N" and dec: "decoder_for N source d"
    and width: "hash_width H" and mem: "mem' (length target)"
    and size: "in_memory source" "in_memory target"
    and limit: "maximum = 0 \<or> length target \<le> maximum \<and> maximum < 2 ^ 64"
    and enc: "file_encode mem N H source target = Inr patch"
  shows "file_apply mem' N H source patch maximum = Inr target"
proof -
  let ?h = "\<lparr>source_hash = H source, target_hash = H target,
    source_len = as_u64 (length source), target_len = as_u64 (length target)\<rparr>"
  from file_encode_Inr [OF enc] size obtain c cap status dst where
    len: "length source \<le> 2 ^ 31" "length target \<le> 2 ^ 31"
    and c: "encoder_for N source c" "ZSTD_compress2 N c cap target = (status, dst)"
      "\<not> ZSTD_isError N status" "status \<le> cap"
    and patch: "patch = header_encode ?h @ take (unat status) dst"
    by auto
  have dp: "header_decode_prefix patch = Inr (?h, take (unat status) dst)"
    using width by (simp add: patch header_roundtrip header_typed_def hash_width_def)
  have frame: "decode mem' N source (take (unat status) dst) (length target) = Inr target"
    using law dec c len mem by (intro decode_prefix_frame) auto
  obtain w where w: "file_window_log (as_u64 (length source)) (as_u64 (length target)) = Inr w"
    using file_window_log_Inr [of "as_u64 (length source)" "as_u64 (length target)"] len by auto
  have "maximum = 0 \<or> \<not> as_u64 (length target) > as_u64 maximum"
    using limit len(2) by (auto simp: word_less_nat_alt)
  with dp frame w len(2) show ?thesis
    by (simp add: file_apply_def)
qed

text \<open>A hash of the right width, for instances: the first 32 bytes, padded with zeros.\<close>

definition padded_hash :: hasher where
  "padded_hash bs = take 32 (bs @ replicate 32 0)"

lemma padded_hash_width: "hash_width padded_hash"
  by (simp add: hash_width_def padded_hash_def min_def)

section \<open>Properties of the file patch\<close>

text \<open>C9. Applying an encoded patch to its source rebuilds the target. Whenever \<open>encode\<close> returns a
  patch, \<open>apply\<close> on the same source returns exactly the target, for any output limit that admits it
  (0 is unlimited), if the memory for the target is granted, BLAKE3 is 32 bytes wide, and the zstd library honours its
  contract and hands out a decompression context.\<close>

theorem file_apply_encode:
  assumes law: "zstd_prefix_frames N" and dec: "decoder_for N source d"
    and width: "hash_width H" and mem: "mem' (length target)"
    and size: "in_memory source" "in_memory target"
    and limit: "maximum = 0 \<or> length target \<le> maximum \<and> maximum < 2 ^ 64"
    and enc: "file_encode mem N H source target = Inr patch"
  shows "file_apply mem' N H source patch maximum = Inr target"
  using assms by (rule file_roundtrip)

theorem file_apply_encode_witness:
  "file_apply (\<lambda>_. True) stored_native padded_hash [1, 2, 3]
     (header_encode \<lparr>source_hash = padded_hash [1, 2, 3], target_hash = padded_hash [9, 2],
        source_len = 3, target_len = 2\<rparr> @ [9, 2]) 2 = Inr [9, 2]"
proof (rule file_apply_encode [OF stored_native_frames stored_native_decoder padded_hash_width])
  show "file_encode (\<lambda>_. True) stored_native padded_hash [1, 2, 3] [9, 2] =
     Inr (header_encode \<lparr>source_hash = padded_hash [1, 2, 3], target_hash = padded_hash [9, 2],
        source_len = 3, target_len = 2\<rparr> @ [9, 2])"
    by code_simp
qed (simp_all add: in_memory_def)

text \<open>C18. A patch applied to another source is refused before any reconstruction: if the source
  differs from the one the patch was encoded for and the hash does not collide on the two, then
  \<open>apply\<close> reports the size mismatch or the source hash mismatch, whatever the limit, the allocator and
  the codec do.\<close>

theorem file_apply_wrong_source:
  assumes width: "hash_width H" and size: "in_memory source" "in_memory other"
    and enc: "file_encode mem N H source target = Inr patch"
    and differ: "other \<noteq> source" and collision_free: "H other = H source \<longrightarrow> other = source"
  shows "file_apply mem' N' H other patch maximum =
    Inl (if length other \<noteq> length source then SizeMismatch else SourceHashMismatch)"
proof -
  from file_encode_Inr [OF enc] obtain frame where
    "patch = header_encode \<lparr>source_hash = H source, target_hash = H target,
       source_len = as_u64 (length source), target_len = as_u64 (length target)\<rparr> @ frame"
    by blast
  then have "header_decode_prefix patch = Inr (\<lparr>source_hash = H source, target_hash = H target,
       source_len = as_u64 (length source), target_len = as_u64 (length target)\<rparr>, frame)"
    using width by (simp add: header_roundtrip header_typed_def hash_width_def)
  then show ?thesis
    using differ collision_free size as_u64_inj [of "length source" "length other"]
    by (auto simp: file_apply_def)
qed

theorem file_apply_wrong_source_witness:
  "file_apply (\<lambda>_. True) stored_native padded_hash [1, 2, 4]
     (header_encode \<lparr>source_hash = padded_hash [1, 2, 3], target_hash = padded_hash [9, 2],
        source_len = 3, target_len = 2\<rparr> @ [9, 2]) 0 = Inl SourceHashMismatch"
proof -
  have "file_encode (\<lambda>_. True) stored_native padded_hash [1, 2, 3] [9, 2] =
     Inr (header_encode \<lparr>source_hash = padded_hash [1, 2, 3], target_hash = padded_hash [9, 2],
        source_len = 3, target_len = 2\<rparr> @ [9, 2])"
    by code_simp
  from file_apply_wrong_source [OF padded_hash_width _ _ this, of "[1, 2, 4]"]
  show ?thesis by (simp add: in_memory_def padded_hash_def)
qed

text \<open>C19. What a successful \<open>apply\<close> guarantees, for any patch, codec and allocator: the patch is a
  header followed by a frame, the header names this source by length and hash, the declared target
  length respects the caller's limit and the 2 GiB bound before anything is decompressed, and the
  returned bytes have the declared hash. With a library that counts the bytes it writes they also
  have the declared length.\<close>

theorem file_apply_checks:
  assumes "file_apply mem N H source patch maximum = Inr output"
  shows "\<exists>h frame. patch = header_encode h @ frame \<and> header_typed h
    \<and> source_len h = as_u64 (length source) \<and> source_hash h = H source
    \<and> (maximum \<noteq> 0 \<longrightarrow> target_len h \<le> as_u64 maximum) \<and> unat (target_len h) \<le> 2 ^ 31
    \<and> target_hash h = H output
    \<and> (zstd_bounded_output N \<longrightarrow> length output = unat (target_len h))"
proof -
  from file_apply_Inr [OF assms] obtain h frame where h:
    "header_decode_prefix patch = Inr (h, frame)" "source_len h = as_u64 (length source)"
    "source_hash h = H source" "maximum = 0 \<or> target_len h \<le> as_u64 maximum"
    "unat (target_len h) \<le> 2 ^ 31" "decode mem N source frame (unat (target_len h)) = Inr output"
    "target_hash h = H output"
    by blast
  have "zstd_bounded_output N \<longrightarrow> length output = unat (target_len h)"
    using decode_Inr [OF h(6)] by (fastforce simp: zstd_bounded_output_def)
  then show ?thesis using h header_decode_sound [OF h(1)] by blast
qed

theorem file_apply_checks_witness:
  "\<exists>h frame. header_encode \<lparr>source_hash = padded_hash [1, 2, 3], target_hash = padded_hash [9, 2],
        source_len = 3, target_len = 2\<rparr> @ [9, 2] = header_encode h @ frame \<and> header_typed h
    \<and> source_hash h = padded_hash [1, 2, 3] \<and> target_hash h = padded_hash [9, 2]"
proof -
  have "file_apply (\<lambda>_. True) stored_native padded_hash [1, 2, 3]
     (header_encode \<lparr>source_hash = padded_hash [1, 2, 3], target_hash = padded_hash [9, 2],
        source_len = 3, target_len = 2\<rparr> @ [9, 2]) 2 = Inr [9, 2]"
    by code_simp
  from file_apply_checks [OF this] show ?thesis by blast
qed

end
