(* ===== verification/Tree_Snapshot.thy ===== *)
theory Tree_Snapshot
  imports Tree_Path Ordered_Search Metadata_Decode Zdif_File
begin

text \<open>
  Directory snapshots: the records of \<open>rust/src/directory_record.rs\<close>, the structural validation
  shared by expanded entries and patch entries (\<open>rust/src/directory_structure.rs\<close>, whose trait
  \<open>View\<close> is a function argument) and canonical snapshots with their identity hash
  (\<open>rust/src/directory_canonical.rs\<close>). A \<open>CanonicalSnapshot\<close> is a snapshot that
  \<open>snapshot_new\<close> accepts. Loops over \<open>entries.iter().enumerate()\<close> carry the prefix
  \<open>entries[..index]\<close> as an argument.
\<close>

section \<open>Records\<close>

type_synonym mode = u16

definition mode_from_bits :: "u16 \<Rightarrow> path_error + mode" where
  "mode_from_bits bits = (if bits AND NOT 0x1FF \<noteq> 0 then Inl InvalidMode else Inr bits)"

datatype content = Directory mode | File mode bytes | Symlink bytes

fun kind_tag :: "content \<Rightarrow> u8" where
  "kind_tag (Directory _) = 1"
| "kind_tag (File _ _) = 2"
| "kind_tag (Symlink _) = 3"

fun content_mode :: "content \<Rightarrow> mode" where
  "content_mode (Directory mode) = mode"
| "content_mode (File mode _) = mode"
| "content_mode (Symlink _) = 0x1FF"

fun content_bytes :: "content \<Rightarrow> bytes" where
  "content_bytes (Directory _) = []"
| "content_bytes (File _ bs) = bs"
| "content_bytes (Symlink target) = target"

record entry =
  e_path :: bytes
  e_content :: content
  e_metadata :: metadata

record snapshot =
  s_entries :: "entry list"
  s_root :: metadata

section \<open>Structure\<close>

datatype kind = Kind_Directory | Kind_File | Kind_Symlink

record structure_record =
  st_path :: bytes
  st_mode :: u16
  st_kind :: kind
  st_data :: bytes

definition entry_structure :: "entry \<Rightarrow> structure_record" where
  "entry_structure e =
     (case e_content e of
        Directory mode \<Rightarrow> \<lparr>st_path = e_path e, st_mode = mode, st_kind = Kind_Directory, st_data = []\<rparr>
      | File mode bs \<Rightarrow> \<lparr>st_path = e_path e, st_mode = mode, st_kind = Kind_File, st_data = bs\<rparr>
      | Symlink target \<Rightarrow>
          \<lparr>st_path = e_path e, st_mode = 0x1FF, st_kind = Kind_Symlink, st_data = target\<rparr>)"

definition find_path :: "('t \<Rightarrow> structure_record) \<Rightarrow> 't list \<Rightarrow> bytes \<Rightarrow> nat option" where
  "find_path view entries path =
     binary_search_by (\<lambda>entry. cmp (st_path (view entry)) path) entries"

text \<open>\<open>path[..slash]\<close> for the last slash of the path, if it has one.\<close>

definition parent_path :: "bytes \<Rightarrow> bytes option" where
  "parent_path path =
     (if slash \<in> set path then Some (rev (tl (dropWhile (\<lambda>b. b \<noteq> slash) (rev path)))) else None)"

definition check_shape :: "structure_record \<Rightarrow> path_error + unit" where
  "check_shape s =
     and_then (validate_path (st_path s)) (\<lambda>_.
     and_then (mode_from_bits (st_mode s)) (\<lambda>_.
     case st_kind s of
       Kind_Directory \<Rightarrow> if st_data s \<noteq> [] then Inl InvalidEntryData else Inr ()
     | Kind_File \<Rightarrow> Inr ()
     | Kind_Symlink \<Rightarrow> if st_mode s \<noteq> 0x1FF then Inl InvalidMode
         else validate_symlink_target (st_path s) (st_data s)))"

definition check_previous ::
  "('t \<Rightarrow> structure_record) \<Rightarrow> 't list \<Rightarrow> bytes \<Rightarrow> path_error + unit" where
  "check_previous view seen path =
     (if seen = [] then Inr ()
      else (case cmp (st_path (view (last seen))) path of
              Equal \<Rightarrow> Inl DuplicatePath
            | Greater \<Rightarrow> Inl PathsNotSorted
            | Less \<Rightarrow> Inr ()))"

definition check_parent ::
  "('t \<Rightarrow> structure_record) \<Rightarrow> 't list \<Rightarrow> bytes \<Rightarrow> path_error + unit" where
  "check_parent view seen path =
     (case parent_path path of
        None \<Rightarrow> Inr ()
      | Some parent \<Rightarrow>
          and_then (ok_or MissingParent (find_path view seen parent)) (\<lambda>i.
          case st_kind (view (seen ! i)) of
            Kind_Directory \<Rightarrow> Inr ()
          | _ \<Rightarrow> Inl ParentNotDirectory))"

fun validate_from :: "('t \<Rightarrow> structure_record) \<Rightarrow> 't list \<Rightarrow> 't list \<Rightarrow> path_error + unit" where
  "validate_from view seen [] = Inr ()"
| "validate_from view seen (entry # entries) =
     (let s = view entry in
      and_then (check_shape s) (\<lambda>_.
      and_then (check_previous view seen (st_path s)) (\<lambda>_.
      and_then (check_parent view seen (st_path s)) (\<lambda>_.
      validate_from view (seen @ [entry]) entries))))"

definition structure_validate :: "('t \<Rightarrow> structure_record) \<Rightarrow> 't list \<Rightarrow> path_error + unit" where
  "structure_validate view entries =
     (if length entries > MAX_ENTRIES then Inl TooManyEntries
      else validate_from view [] entries)"

section \<open>Canonical snapshots\<close>

definition check_extent :: "content \<Rightarrow> hole \<Rightarrow> path_error + unit" where
  "check_extent content h =
     (case content of
        File _ bs \<Rightarrow>
          (let n = as_u64 (length bs) in
           if hole_offset h > n \<or> hole_length h > n - hole_offset h then Inl InvalidSparseExtent
           else
             (let start = unat (hole_offset h); stop = start + unat (hole_length h) in
              if list_ex (\<lambda>b. b \<noteq> 0) (take (stop - start) (drop start bs)) then Inl InvalidSparseExtent
              else Inr ()))
      | _ \<Rightarrow> Inl InvalidSparseExtent)"

definition shared_metadata_equal :: "metadata \<Rightarrow> metadata \<Rightarrow> bool" where
  "shared_metadata_equal l r \<longleftrightarrow> xattrs l = xattrs r \<and> aces l = aces r \<and> native_acl l = native_acl r
     \<and> mtimes l = mtimes r \<and> finder_flags l = finder_flags r \<and> finder_info l = finder_info r
     \<and> holes l = holes r"

definition check_hardlink :: "entry list \<Rightarrow> entry \<Rightarrow> path_error + unit" where
  "check_hardlink seen e =
     (case hardlink_to (e_metadata e) of
        None \<Rightarrow> Inr ()
      | Some path \<Rightarrow>
          (case e_content e of
             File mode bs \<Rightarrow>
               and_then (ok_or InvalidHardlinkRelation (find_path entry_structure seen path)) (\<lambda>i.
               let target = seen ! i in
               case e_content target of
                 File target_mode target_bytes \<Rightarrow>
                   if hardlink_to (e_metadata target) \<noteq> None \<or> mode \<noteq> target_mode
                     \<or> bs \<noteq> target_bytes
                     \<or> \<not> shared_metadata_equal (e_metadata e) (e_metadata target)
                   then Inl InvalidHardlinkRelation else Inr ()
               | _ \<Rightarrow> Inl InvalidHardlinkRelation)
           | _ \<Rightarrow> Inl InvalidHardlinkRelation))"

fun check_relations :: "entry list \<Rightarrow> entry list \<Rightarrow> path_error + unit" where
  "check_relations seen [] = Inr ()"
| "check_relations seen (e # es) =
     and_then (for_each (check_extent (e_content e)) (holes (e_metadata e))) (\<lambda>_.
     and_then (check_hardlink seen e) (\<lambda>_.
     check_relations (seen @ [e]) es))"

definition snapshot_new :: "snapshot \<Rightarrow> path_error + snapshot" where
  "snapshot_new s =
     and_then (structure_validate entry_structure (s_entries s)) (\<lambda>_.
     and_then (check_relations [] (s_entries s)) (\<lambda>_.
     if holes (s_root s) \<noteq> [] then Inl InvalidSparseExtent
     else if hardlink_to (s_root s) \<noteq> None then Inl InvalidHardlinkRelation
     else Inr s))"

section \<open>Identity\<close>

definition entry_identity :: "(bytes \<Rightarrow> bytes) \<Rightarrow> entry \<Rightarrow> bytes" where
  "entry_identity H e =
     [kind_tag (e_content e)] @ le_bytes (content_mode (e_content e))
     @ le_bytes (as_u32 (length (e_path e))) @ e_path e
     @ le_bytes (as_u64 (length (content_bytes (e_content e)))) @ content_bytes (e_content e)
     @ metadata_hash H (e_metadata e)"

definition snapshot_identity :: "(bytes \<Rightarrow> bytes) \<Rightarrow> snapshot \<Rightarrow> bytes" where
  "snapshot_identity H s =
     ascii ''DIFZTREE-ID'' @ [2] @ le_bytes (as_u32 (length (s_entries s)))
     @ concat (map (entry_identity H) (s_entries s))
     @ (if \<not> metadata_is_empty (s_root s)
        then ascii ''DIFZTREE-ROOT'' @ [1] @ metadata_hash H (s_root s) else [])"

definition snapshot_hash :: "(bytes \<Rightarrow> bytes) \<Rightarrow> snapshot \<Rightarrow> bytes" where
  "snapshot_hash H s = H (snapshot_identity H s)"

section \<open>Structure lemmas\<close>

lemma mode_from_bits_Inr: "mode_from_bits b = Inr m \<longleftrightarrow> m = b \<and> b AND 0x1FF = b"
  unfolding mode_from_bits_def and_not_zero_iff [symmetric] by auto

lemma find_path_iff:
  "sorted_wrt (<) (map (\<lambda>e. st_path (view e)) entries) \<Longrightarrow>
     find_path view entries path = Some i \<longleftrightarrow>
       i < length entries \<and> st_path (view (entries ! i)) = path"
  unfolding find_path_def by (rule slice_search.lookup_iff)

interpretation path_lookup: keyed_lookup "find_path view" "\<lambda>e. st_path (view e)" for view
  by unfold_locales (rule find_path_iff)

lemma entry_structure_path [simp]: "st_path (entry_structure e) = e_path e"
  by (simp add: entry_structure_def split: content.splits)

lemma parent_path_split:
  "parent_path path = Some parent \<longleftrightarrow> (\<exists>name. path = parent @ slash # name \<and> slash \<notin> set name)"
proof
  assume "parent_path path = Some parent"
  then have "slash \<in> set (rev path)" and p: "parent = rev (tl (dropWhile (\<lambda>b. b \<noteq> slash) (rev path)))"
    by (auto simp: parent_path_def split: if_splits)
  then obtain xs ys where "rev path = xs @ slash # ys" and "slash \<notin> set xs"
    by (meson split_list_first)
  moreover have "dropWhile (\<lambda>b. b \<noteq> slash) (xs @ slash # ys) = slash # ys"
    using calculation(2) by (induction xs) auto
  ultimately have "parent = rev ys" and "path = rev ys @ slash # rev xs"
    using p by (simp_all add: rev_swap)
  then show "\<exists>name. path = parent @ slash # name \<and> slash \<notin> set name"
    using \<open>slash \<notin> set xs\<close> by auto
next
  assume "\<exists>name. path = parent @ slash # name \<and> slash \<notin> set name"
  then obtain name where "path = parent @ slash # name" "slash \<notin> set name" by blast
  moreover have "dropWhile (\<lambda>b. b \<noteq> slash) (rev name @ slash # rev parent) = slash # rev parent"
    using calculation(2) by (induction name rule: rev_induct) auto
  ultimately show "parent_path path = Some parent" by (simp add: parent_path_def)
qed

lemma less_append: "ys \<noteq> [] \<Longrightarrow> xs < xs @ (ys :: 'a::linorder list)"
  by (induction xs) (auto simp: neq_Nil_conv)

lemma parent_path_less: "parent_path path = Some parent \<Longrightarrow> parent < path"
  by (auto simp: parent_path_split intro: less_append)

text \<open>What a structurally valid entry list is.\<close>

definition tree_wf :: "('t \<Rightarrow> structure_record) \<Rightarrow> 't list \<Rightarrow> bool" where
  "tree_wf view es \<longleftrightarrow> sorted_wrt (<) (map (\<lambda>e. st_path (view e)) es)
     \<and> (\<forall>e \<in> set es. check_shape (view e) = Inr ())
     \<and> (\<forall>e \<in> set es. \<forall>parent. parent_path (st_path (view e)) = Some parent \<longrightarrow>
          (\<exists>d \<in> set es. st_path (view d) = parent \<and> st_kind (view d) = Kind_Directory))"

lemma tree_wf_prefix:
  assumes "tree_wf view (xs @ ys)"
  shows "tree_wf view xs"
  unfolding tree_wf_def
proof (intro conjI ballI allI impI)
  fix e parent
  assume e: "e \<in> set xs" "parent_path (st_path (view e)) = Some parent"
  then obtain d where d: "d \<in> set (xs @ ys)" "st_path (view d) = parent" "st_kind (view d) = Kind_Directory"
    using assms unfolding tree_wf_def by (metis UnI1 set_append)
  have "st_path (view e) < st_path (view d)" if "d \<in> set ys"
    using assms e(1) that by (simp add: tree_wf_def sorted_wrt_append)
  then have "d \<notin> set ys"
    using d(2) parent_path_less [OF e(2)] by (auto dest: less_asym)
  then show "\<exists>d \<in> set xs. st_path (view d) = parent \<and> st_kind (view d) = Kind_Directory"
    using d by auto
qed (use assms in \<open>auto simp: tree_wf_def sorted_wrt_append\<close>)

lemma check_previous_iff:
  assumes "sorted_wrt (<) (map (\<lambda>e. st_path (view e)) seen)"
  shows "check_previous view seen path = Inr u \<longleftrightarrow> (\<forall>e \<in> set seen. st_path (view e) < path)"
proof (cases seen rule: rev_cases)
  case (snoc ys y)
  then show ?thesis
    using assms by (auto simp: check_previous_def sorted_wrt_append split: ordering.splits)
qed (simp add: check_previous_def)

lemma check_parent_iff:
  assumes "sorted_wrt (<) (map (\<lambda>e. st_path (view e)) seen)"
  shows "check_parent view seen path = Inr u \<longleftrightarrow> (\<forall>parent. parent_path path = Some parent \<longrightarrow>
    (\<exists>d \<in> set seen. st_path (view d) = parent \<and> st_kind (view d) = Kind_Directory))"
proof (cases "parent_path path")
  case (Some parent)
  have "check_parent view seen path = Inr u \<longleftrightarrow>
      (\<exists>i. find_path view seen parent = Some i \<and> st_kind (view (seen ! i)) = Kind_Directory)"
    using Some
    by (cases "find_path view seen parent")
      (auto simp: check_parent_def result_simps split: kind.splits)
  also have "\<dots> \<longleftrightarrow> (\<exists>d \<in> set seen. st_path (view d) = parent \<and> st_kind (view d) = Kind_Directory)"
    by (rule path_lookup.lookup_ex [OF assms])
  finally show ?thesis using Some by simp
qed (simp add: check_parent_def)

lemma tree_wf_snoc:
  assumes "tree_wf view seen"
  shows "tree_wf view (seen @ [e]) \<longleftrightarrow> check_shape (view e) = Inr ()
    \<and> check_previous view seen (st_path (view e)) = Inr ()
    \<and> check_parent view seen (st_path (view e)) = Inr ()"
proof -
  have s: "sorted_wrt (<) (map (\<lambda>e. st_path (view e)) seen)" using assms by (simp add: tree_wf_def)
  have "(\<exists>d \<in> set (seen @ [e]). st_path (view d) = parent \<and> st_kind (view d) = Kind_Directory) \<longleftrightarrow>
      (\<exists>d \<in> set seen. st_path (view d) = parent \<and> st_kind (view d) = Kind_Directory)"
    if "parent_path (st_path (view e)) = Some parent" for parent
    using parent_path_less [OF that] by auto
  then show ?thesis
    using assms
    unfolding check_previous_iff [OF s] check_parent_iff [OF s] tree_wf_def
    by (simp add: sorted_wrt_append) blast
qed

lemma validate_from_iff:
  "tree_wf view seen \<Longrightarrow> validate_from view seen es = Inr u \<longleftrightarrow> tree_wf view (seen @ es)"
proof (induction es arbitrary: seen)
  case (Cons e es)
  have "validate_from view seen (e # es) = Inr u \<longleftrightarrow>
      tree_wf view (seen @ [e]) \<and> validate_from view (seen @ [e]) es = Inr u"
    unfolding tree_wf_snoc [OF Cons.prems] by (auto simp: Let_def result_simps)
  also have "\<dots> \<longleftrightarrow> tree_wf view (seen @ e # es)"
    using Cons.IH [of "seen @ [e]"] tree_wf_prefix [of view "seen @ [e]" es] by auto
  finally show ?case .
qed simp

lemma structure_validate_iff:
  "structure_validate view es = Inr u \<longleftrightarrow> length es \<le> MAX_ENTRIES \<and> tree_wf view es"
  using validate_from_iff [of view "[]" es] by (auto simp: structure_validate_def tree_wf_def)

lemma structure_validate_code [code]:
  "structure_validate view entries =
     (if int (length entries) > 1000000 then Inl TooManyEntries else validate_from view [] entries)"
proof -
  have "length entries > MAX_ENTRIES \<longleftrightarrow> int (length entries) > 1000000"
    by (simp add: MAX_ENTRIES_def)
  then show ?thesis by (simp add: structure_validate_def)
qed

section \<open>Relation lemmas\<close>

definition extent_zero :: "bytes \<Rightarrow> hole \<Rightarrow> bool" where
  "extent_zero bs h \<longleftrightarrow> hole_stop h \<le> length bs \<and> (\<forall>i. hole_start h \<le> i \<and> i < hole_stop h \<longrightarrow> bs ! i = 0)"

lemma list_ex_slice:
  "b \<le> length xs \<Longrightarrow> a \<le> b \<Longrightarrow> \<not> list_ex P (take (b - a) (drop a xs)) \<longleftrightarrow> (\<forall>i. a \<le> i \<and> i < b \<longrightarrow> \<not> P (xs ! i))"
proof -
  assume ab: "b \<le> length xs" "a \<le> b"
  have "\<not> list_ex P (take (b - a) (drop a xs)) \<longleftrightarrow> (\<forall>j < b - a. \<not> P (xs ! (a + j)))"
    using ab by (simp add: list_ex_length)
  also have "\<dots> \<longleftrightarrow> (\<forall>i. a \<le> i \<and> i < b \<longrightarrow> \<not> P (xs ! i))"
    by (metis add_diff_inverse_nat less_diff_conv2 linorder_not_less nat_add_left_cancel_less le_add1
        le_add_diff_inverse ab(2))
  finally show ?thesis .
qed

lemma check_extent_iff:
  assumes "in_memory (content_bytes c)"
  shows "check_extent c h = Inr u \<longleftrightarrow> (\<exists>mode bs. c = File mode bs \<and> extent_zero bs h)"
proof (cases c)
  case (File mode bs)
  then have len: "unat (as_u64 (length bs)) = length bs" using assms by simp
  have "\<not> (hole_offset h > as_u64 (length bs) \<or> hole_length h > as_u64 (length bs) - hole_offset h)
      \<longleftrightarrow> hole_stop h \<le> length bs"
    using len by (auto simp: word_less_nat_alt unat_sub word_le_nat_alt hole_stop_def)
  then have "check_extent c h = Inr u \<longleftrightarrow> hole_stop h \<le> length bs
      \<and> \<not> list_ex (\<lambda>b. b \<noteq> 0) (take (hole_stop h - hole_start h) (drop (hole_start h) bs))"
    using File by (auto simp: check_extent_def Let_def hole_start_def hole_stop_def)
  also have "\<dots> \<longleftrightarrow> extent_zero bs h"
    using list_ex_slice [of "hole_stop h" bs "hole_start h" "\<lambda>b. b \<noteq> 0"]
    by (auto simp: extent_zero_def hole_start_def hole_stop_def)
  finally show ?thesis using File by simp
qed (simp_all add: check_extent_def)

text \<open>A hard link names an earlier, non-link file with the same mode, bytes and metadata.\<close>

definition hardlink_ok :: "entry list \<Rightarrow> entry \<Rightarrow> bool" where
  "hardlink_ok es e \<longleftrightarrow> (\<forall>path. hardlink_to (e_metadata e) = Some path \<longrightarrow>
     (\<exists>mode bs. e_content e = File mode bs
        \<and> (\<exists>t \<in> set es. e_path t = path \<and> path < e_path e \<and> e_content t = File mode bs
             \<and> hardlink_to (e_metadata t) = None
             \<and> shared_metadata_equal (e_metadata e) (e_metadata t))))"

lemma check_hardlink_iff:
  assumes "sorted_wrt (<) (map e_path (seen @ e # es))"
  shows "check_hardlink seen e = Inr u \<longleftrightarrow> hardlink_ok (seen @ e # es) e"
proof (cases "hardlink_to (e_metadata e)")
  case (Some path)
  have s: "sorted_wrt (<) (map (\<lambda>e. st_path (entry_structure e)) seen)"
    using assms by (simp add: sorted_wrt_append)
  have "check_hardlink seen e = Inr u \<longleftrightarrow> (\<exists>mode bs. e_content e = File mode bs
      \<and> (\<exists>i. find_path entry_structure seen path = Some i \<and> e_content (seen ! i) = File mode bs
          \<and> hardlink_to (e_metadata (seen ! i)) = None
          \<and> shared_metadata_equal (e_metadata e) (e_metadata (seen ! i))))"
    using Some
    by (cases "find_path entry_structure seen path"; cases "e_content e";
        cases "e_content (seen ! the (find_path entry_structure seen path))")
      (auto simp: check_hardlink_def Let_def)
  also have "\<dots> \<longleftrightarrow> (\<exists>mode bs. e_content e = File mode bs \<and> (\<exists>t \<in> set seen. e_path t = path
      \<and> e_content t = File mode bs \<and> hardlink_to (e_metadata t) = None
      \<and> shared_metadata_equal (e_metadata e) (e_metadata t)))"
    using path_lookup.lookup_ex [OF s, of path "\<lambda>t. e_content t = File mode bs
      \<and> hardlink_to (e_metadata t) = None \<and> shared_metadata_equal (e_metadata e) (e_metadata t)" for mode bs]
    by simp
  also have "\<dots> \<longleftrightarrow> hardlink_ok (seen @ e # es) e"
    using assms Some by (auto simp: hardlink_ok_def sorted_wrt_append) 
  finally show ?thesis .
qed (simp_all add: check_hardlink_def hardlink_ok_def)

lemma check_relations_iff:
  "sorted_wrt (<) (map e_path (seen @ es)) \<Longrightarrow> \<forall>e \<in> set es. in_memory (content_bytes (e_content e)) \<Longrightarrow>
   check_relations seen es = Inr u \<longleftrightarrow> (\<forall>e \<in> set es.
     (\<forall>h \<in> set (holes (e_metadata e)). \<exists>mode bs. e_content e = File mode bs \<and> extent_zero bs h)
     \<and> hardlink_ok (seen @ es) e)"
proof (induction es arbitrary: seen)
  case (Cons e es)
  have "check_relations seen (e # es) = Inr u \<longleftrightarrow>
     (\<forall>h \<in> set (holes (e_metadata e)). \<exists>mode bs. e_content e = File mode bs \<and> extent_zero bs h)
     \<and> hardlink_ok (seen @ e # es) e \<and> check_relations (seen @ [e]) es = Inr u"
    using Cons.prems check_hardlink_iff [of seen e es]
    by (simp add: result_simps check_extent_iff)
  then show ?case using Cons.IH [of "seen @ [e]"] Cons.prems by simp
qed simp

section \<open>Snapshot lemmas\<close>

text \<open>
  What the types of a snapshot guarantee: metadata is canonical with fields of their types and an
  encoding that fits in memory, and every byte slice fits in memory.
\<close>

definition metadata_held :: "metadata \<Rightarrow> bool" where
  "metadata_held m \<longleftrightarrow> metadata_canonical m \<and> metadata_typed m \<and> in_memory (concat (write_chunks m))"

definition snapshot_held :: "snapshot \<Rightarrow> bool" where
  "snapshot_held s \<longleftrightarrow> metadata_held (s_root s)
     \<and> (\<forall>e \<in> set (s_entries s). metadata_held (e_metadata e) \<and> in_memory (content_bytes (e_content e)))"

definition extents_ok :: "entry \<Rightarrow> bool" where
  "extents_ok e \<longleftrightarrow>
     (\<forall>h \<in> set (holes (e_metadata e)). \<exists>mode bs. e_content e = File mode bs \<and> extent_zero bs h)"

definition snapshot_canonical :: "snapshot \<Rightarrow> bool" where
  "snapshot_canonical s \<longleftrightarrow> length (s_entries s) \<le> MAX_ENTRIES \<and> tree_wf entry_structure (s_entries s)
     \<and> (\<forall>e \<in> set (s_entries s). extents_ok e \<and> hardlink_ok (s_entries s) e)
     \<and> holes (s_root s) = [] \<and> hardlink_to (s_root s) = None"

lemma tree_wf_sorted: "tree_wf entry_structure es \<Longrightarrow> sorted_wrt (<) (map e_path es)"
  by (simp add: tree_wf_def)

lemma snapshot_new_iff:
  assumes "snapshot_held s"
  shows "snapshot_new s = Inr t \<longleftrightarrow> t = s \<and> snapshot_canonical s"
proof -
  have "check_relations [] (s_entries s) = Inr () \<longleftrightarrow>
      (\<forall>e \<in> set (s_entries s). extents_ok e \<and> hardlink_ok (s_entries s) e)"
    if "tree_wf entry_structure (s_entries s)"
    using check_relations_iff [of "[]" "s_entries s"] tree_wf_sorted [OF that] assms
    by (simp add: snapshot_held_def extents_ok_def)
  then show ?thesis
    by (auto simp: snapshot_new_def snapshot_canonical_def result_simps structure_validate_iff)
qed

lemma content_eqI:
  "kind_tag c = kind_tag d \<Longrightarrow> content_mode c = content_mode d \<Longrightarrow> content_bytes c = content_bytes d \<Longrightarrow> c = d"
  by (cases c; cases d) auto

lemma canonical_path:
  "tree_wf entry_structure es \<Longrightarrow> e \<in> set es \<Longrightarrow> valid_path (e_path e)"
  by (auto simp: tree_wf_def check_shape_def result_simps)

lemma entry_identity_prefix:
  assumes "hash_width H" "length (e_path e) < 2 ^ 32" "length (e_path e') < 2 ^ 32"
    "in_memory (content_bytes (e_content e))" "in_memory (content_bytes (e_content e'))"
    and eq: "entry_identity H e @ as = entry_identity H e' @ bs"
  shows "e_path e = e_path e' \<and> e_content e = e_content e'
    \<and> metadata_hash H (e_metadata e) = metadata_hash H (e_metadata e') \<and> as = bs"
proof -
  let ?c = "content_bytes (e_content e)" and ?d = "content_bytes (e_content e')"
  from eq have tags: "kind_tag (e_content e) = kind_tag (e_content e')"
    "content_mode (e_content e) = content_mode (e_content e')"
    and "as_u32 (length (e_path e)) = as_u32 (length (e_path e'))"
    and rest: "e_path e @ le_bytes (as_u64 (length ?c)) @ ?c @ metadata_hash H (e_metadata e) @ as
      = e_path e' @ le_bytes (as_u64 (length ?d)) @ ?d @ metadata_hash H (e_metadata e') @ bs"
    by (auto simp: entry_identity_def)
  then have "length (e_path e) = length (e_path e')"
    using assms(2,3) by (metis unat_as_u32)
  with rest have path: "e_path e = e_path e'"
    and "as_u64 (length ?c) = as_u64 (length ?d)"
    and rest: "?c @ metadata_hash H (e_metadata e) @ as = ?d @ metadata_hash H (e_metadata e') @ bs"
    by auto
  then have "length ?c = length ?d"
    using assms(4,5) by (metis in_memory_u64 unat_as_u64)
  with rest assms(1) have "?c = ?d" "metadata_hash H (e_metadata e) = metadata_hash H (e_metadata e')" "as = bs"
    by (auto simp: hash_width_def metadata_hash_def)
  then show ?thesis
    using path tags content_eqI by blast
qed

text \<open>The inputs that hashing a snapshot hands to the hash function.\<close>

definition metadata_input :: "metadata \<Rightarrow> bytes" where
  "metadata_input m = ascii ''DIFZMETA'' @ [1] @ concat (write_chunks m)"

definition hashed_inputs :: "hasher \<Rightarrow> snapshot \<Rightarrow> bytes set" where
  "hashed_inputs H s = insert (snapshot_identity H s)
     (insert (metadata_input (s_root s)) ((\<lambda>e. metadata_input (e_metadata e)) ` set (s_entries s)))"

lemma metadata_hash_input: "metadata_hash H m = H (metadata_input m)"
  by (simp add: metadata_hash_print metadata_input_def concat_write_chunks)

lemma metadata_hash_inj:
  assumes "inj_on H S" "metadata_input m \<in> S" "metadata_input m' \<in> S"
    and "metadata_held m" "metadata_held m'" "metadata_hash H m = metadata_hash H m'"
  shows "m = m'"
proof -
  have "metadata_input m = metadata_input m'"
    using assms by (auto simp: metadata_hash_input dest: inj_onD)
  then show ?thesis
    using print_metadata_inj [of m m' "[]" "[]"] assms(4,5)
    by (auto simp: metadata_held_def metadata_input_def concat_write_chunks)
qed

lemma entries_identity_inj:
  assumes "hash_width H" "inj_on H S"
  shows "length es = length es' \<Longrightarrow>
    \<forall>e \<in> set es \<union> set es'. length (e_path e) < 2 ^ 32 \<and> in_memory (content_bytes (e_content e))
      \<and> metadata_held (e_metadata e) \<and> metadata_input (e_metadata e) \<in> S \<Longrightarrow>
    concat (map (entry_identity H) es) @ as = concat (map (entry_identity H) es') @ bs \<Longrightarrow>
    es = es' \<and> as = bs"
proof (induction es es' rule: list_induct2)
  case (Cons e es e' es')
  have e: "e_path e = e_path e' \<and> e_content e = e_content e'
      \<and> metadata_hash H (e_metadata e) = metadata_hash H (e_metadata e')
      \<and> concat (map (entry_identity H) es) @ as = concat (map (entry_identity H) es') @ bs"
    using Cons.prems by (intro entry_identity_prefix [OF assms(1)]) auto
  then have "e_metadata e = e_metadata e'"
    using Cons.prems by (intro metadata_hash_inj [OF assms(2)]) auto
  then show ?case using e Cons.IH Cons.prems by simp
qed simp

lemma hashed_inputs_entries:
  "e \<in> set (s_entries s) \<Longrightarrow> metadata_input (e_metadata e) \<in> hashed_inputs H s"
  by (simp add: hashed_inputs_def)

lemma tree_wf_ancestors:
  assumes wf: "tree_wf view es"
  shows "e \<in> set es \<Longrightarrow> st_path (view e) = p @ slash # rest \<Longrightarrow>
    \<exists>d \<in> set es. st_path (view d) = p \<and> st_kind (view d) = Kind_Directory"
proof (induction "length rest" arbitrary: e rest rule: less_induct)
  case less
  show ?case
  proof (cases "slash \<in> set rest")
    case False
    then have "parent_path (st_path (view e)) = Some p"
      using less.prems(2) by (auto simp: parent_path_split)
    then show ?thesis using wf less.prems(1) unfolding tree_wf_def by blast
  next
    case True
    then obtain xs ys where rest: "rest = xs @ slash # ys" "slash \<notin> set ys"
      by (meson split_list_last)
    then have "parent_path (st_path (view e)) = Some (p @ slash # xs)"
      using less.prems(2) by (auto simp: parent_path_split)
    then obtain d where "d \<in> set es" "st_path (view d) = p @ slash # xs"
      using wf less.prems(1) unfolding tree_wf_def by blast
    then show ?thesis using less.hyps [of xs d] rest(1) by simp
  qed
qed

lemma snapshot_hash_inj:
  assumes "snapshot_canonical s" "snapshot_canonical s'" "snapshot_held s" "snapshot_held s'"
    and "hash_width H" and collision_free: "inj_on H (hashed_inputs H s \<union> hashed_inputs H s')"
    and "snapshot_hash H s = snapshot_hash H s'"
  shows "s = s'"
proof -
  let ?S = "hashed_inputs H s \<union> hashed_inputs H s'"
  let ?root = "\<lambda>s. if \<not> metadata_is_empty (s_root s)
    then ascii ''DIFZTREE-ROOT'' @ [1] @ metadata_hash H (s_root s) else []"
  have "snapshot_identity H s = snapshot_identity H s'"
    using assms(7) inj_onD [OF collision_free]
    by (metis UnI1 UnI2 snapshot_hash_def hashed_inputs_def insertI1)
  then have count: "as_u32 (length (s_entries s)) = as_u32 (length (s_entries s'))"
    and body: "concat (map (entry_identity H) (s_entries s)) @ ?root s
      = concat (map (entry_identity H) (s_entries s')) @ ?root s'"
    by (auto simp: snapshot_identity_def)
  have "length (s_entries s) = length (s_entries s')"
    using count assms(1,2) as_u32_inj [of "length (s_entries s)" "length (s_entries s')"]
    by (simp add: snapshot_canonical_def MAX_ENTRIES_def)
  moreover have "length (e_path e) < 2 ^ 32" if "e \<in> set (s_entries s) \<union> set (s_entries s')" for e
    using that assms(1,2) canonical_path valid_path_length
    by (fastforce simp: snapshot_canonical_def)
  ultimately have "s_entries s = s_entries s' \<and> ?root s = ?root s'"
    using body assms(3,4) hashed_inputs_entries
    by (intro entries_identity_inj [OF assms(5) collision_free]) (auto simp: snapshot_held_def)
  moreover have "s_root s = s_root s'"
    using calculation metadata_hash_inj [OF collision_free, of "s_root s" "s_root s'"] assms(3,4)
    by (auto simp: metadata_is_empty_iff snapshot_held_def hashed_inputs_def split: if_splits)
  ultimately show ?thesis by simp
qed

text \<open>A two-entry tree for instances.\<close>

definition sample_tree :: snapshot where
  "sample_tree = \<lparr>s_entries =
     [\<lparr>e_path = ascii ''a'', e_content = Directory 0x1ED, e_metadata = metadata_default\<rparr>,
      \<lparr>e_path = ascii ''a/f'', e_content = File 0x1A4 [1, 2, 3], e_metadata = metadata_default\<rparr>],
     s_root = metadata_default\<rparr>"

lemma sample_tree_valid: "structure_validate entry_structure (s_entries sample_tree) = Inr ()"
  by code_simp

lemma sample_tree_new: "snapshot_new sample_tree = Inr sample_tree"
  by code_simp

lemma metadata_default_held: "metadata_held metadata_default"
proof -
  have "metadata_validate metadata_default = Inr ()" by code_simp
  moreover have "in_memory (concat (write_chunks metadata_default))"
    by (simp add: in_memory_def concat_write_chunks print_metadata_def metadata_default_def
        print_vector_def print_native_acl_def print_times_def times_default_def
        print_flagged_time_def print_option_def)
  ultimately show ?thesis
    by (simp add: metadata_held_def metadata_validate_iff metadata_typed_def metadata_default_def)
qed

lemma sample_tree_held: "snapshot_held sample_tree"
  by (simp add: snapshot_held_def sample_tree_def metadata_default_held in_memory_def)

section \<open>Properties of snapshots\<close>

text \<open>C12. Structural validation accepts exactly the ordered, closed trees: at most a million entries,
  strictly ascending valid paths, well-shaped modes, data and contained symlinks, and for every entry
  the whole chain of ancestors is present as directories. Whatever the entry type that supplies the
  view, expanded or encoded.\<close>

theorem structure_validate_closed_tree:
  "structure_validate view es = Inr () \<longleftrightarrow>
     length es \<le> 1000000 \<and> sorted_wrt (<) (map (\<lambda>e. st_path (view e)) es)
     \<and> (\<forall>e \<in> set es. check_shape (view e) = Inr ()
          \<and> (\<forall>p rest. st_path (view e) = p @ slash # rest \<longrightarrow>
               (\<exists>d \<in> set es. st_path (view d) = p \<and> st_kind (view d) = Kind_Directory)))"
  (is "?L \<longleftrightarrow> ?R")
proof
  assume ?L
  then have "length es \<le> MAX_ENTRIES" and wf: "tree_wf view es" by (auto simp: structure_validate_iff)
  then show ?R using tree_wf_ancestors [OF wf] by (auto simp: tree_wf_def MAX_ENTRIES_def)
next
  assume r: ?R
  then have "tree_wf view es"
    unfolding tree_wf_def parent_path_split by blast
  then show ?L using r by (simp add: structure_validate_iff MAX_ENTRIES_def)
qed

theorem structure_validate_closed_tree_witness:
  "\<exists>d \<in> set (s_entries sample_tree). e_path d = ascii ''a'' \<and> st_kind (entry_structure d) = Kind_Directory"
proof -
  let ?e = "\<lparr>e_path = ascii ''a/f'', e_content = File 0x1A4 [1, 2, 3], e_metadata = metadata_default\<rparr>"
  have "?e \<in> set (s_entries sample_tree)" by (simp add: sample_tree_def)
  moreover have "e_path ?e = ascii ''a'' @ slash # ascii ''f''" by code_simp
  ultimately show ?thesis
    using structure_validate_closed_tree [of entry_structure "s_entries sample_tree"] sample_tree_valid
    unfolding entry_structure_path by blast
qed

text \<open>C10. A canonical snapshot is exactly a structurally valid tree whose physical metadata is true of its
  content: every hole lies inside a file and covers only zero bytes, every hard link names an earlier
  file that is not itself a link and has the same mode, bytes and metadata, and the root has neither.\<close>

theorem snapshot_new_canonical:
  assumes "snapshot_held s"
  shows "snapshot_new s = Inr s \<longleftrightarrow> snapshot_canonical s"
  using snapshot_new_iff [OF assms] by simp

theorem snapshot_new_canonical_witness: "snapshot_canonical sample_tree"
  using snapshot_new_canonical [OF sample_tree_held] sample_tree_new by simp

text \<open>C11. The tree hash identifies the snapshot: two canonical snapshots with the same hash are the same
  snapshot, entry for entry and including all metadata, unless the hash function collides on two of
  the inputs that the two computations hash.\<close>

theorem snapshot_hash_identifies:
  assumes "snapshot_canonical s" "snapshot_canonical s'" "snapshot_held s" "snapshot_held s'"
    and "hash_width H" and collision_free: "inj_on H (hashed_inputs H s \<union> hashed_inputs H s')"
    and "snapshot_hash H s = snapshot_hash H s'"
  shows "s = s'"
  using assms by (rule snapshot_hash_inj)

theorem snapshot_hash_identifies_witness:
  "snapshot_hash padded_hash \<lparr>s_entries = [], s_root = metadata_default\<rparr>
     \<noteq> snapshot_hash padded_hash \<lparr>s_entries = [], s_root = metadata_default\<lparr>finder_flags := 1\<rparr>\<rparr>"
  (is "snapshot_hash _ ?s \<noteq> snapshot_hash _ ?t")
proof
  assume eq: "snapshot_hash padded_hash ?s = snapshot_hash padded_hash ?t"
  have "metadata_validate (metadata_default\<lparr>finder_flags := 1\<rparr>) = Inr ()" by code_simp
  moreover have "in_memory (concat (write_chunks (metadata_default\<lparr>finder_flags := 1\<rparr>)))"
    by (simp add: in_memory_def concat_write_chunks print_metadata_def metadata_default_def
        print_vector_def print_native_acl_def print_times_def times_default_def
        print_flagged_time_def print_option_def)
  ultimately have t: "snapshot_held ?t"
    by (simp add: snapshot_held_def metadata_held_def metadata_validate_iff metadata_typed_def
        metadata_default_def)
  have s: "snapshot_held ?s" by (simp add: snapshot_held_def metadata_default_held)
  have "snapshot_new ?s = Inr ?s" and "snapshot_new ?t = Inr ?t" by code_simp+
  then have c: "snapshot_canonical ?s" "snapshot_canonical ?t"
    using snapshot_new_iff [OF s] snapshot_new_iff [OF t] by auto
  have "distinct (map padded_hash [snapshot_identity padded_hash ?s, metadata_input (s_root ?s),
      snapshot_identity padded_hash ?t, metadata_input (s_root ?t)])"
    by code_simp
  then have "inj_on padded_hash (hashed_inputs padded_hash ?s \<union> hashed_inputs padded_hash ?t)"
    by (auto simp: hashed_inputs_def inj_on_def)
  from snapshot_hash_identifies [OF c s t padded_hash_width this eq] show False
    by (simp add: metadata_default_def)
qed

end
