(* ===== verification/Path_Filter.thy ===== *)
theory Path_Filter
  imports Tree_Path
begin

text \<open>
  Ordered path globs (\<open>rust/src/path_filter.rs\<close>). A pattern is a UTF-8 string (its bytes),
  compiled to tokens over Unicode scalar values; a compiled filter decides a path by a dynamic
  program of one row per token, right to left. The loops over indices are recursions over the
  suffix that the index denotes: \<open>chars[i..]\<close> for the compiler, \<open>chars[j..]\<close> and
  \<open>next[j..]\<close> for a row.

  \<open>token_matches\<close> is the declarative meaning of a token list; the dynamic program is shown to
  compute it, and the single-scan treatment of unmatched brackets to agree with rescanning.
\<close>

datatype action = Include | Exclude

fun opposite :: "action \<Rightarrow> action" where
  "opposite Include = Exclude"
| "opposite Exclude = Include"

record rule =
  rule_action :: action
  rule_pattern :: bytes

datatype filter_error = EmptyPattern | OutOfMemory | Path path_error

datatype token = Literal nat | Any | Star bool | TreePrefix | Class bool "nat list"

record compiled_rule =
  compiled_action :: action
  compiled_tokens :: "token list"

record path_filter =
  filter_rules :: "compiled_rule list"
  default_included :: bool

definition str_chars :: "bytes \<Rightarrow> nat list" where
  "str_chars text = (case utf8_decode text of Some cs \<Rightarrow> cs | None \<Rightarrow> [])"

definition characters :: "allocator \<Rightarrow> bytes \<Rightarrow> filter_error + nat list" where
  "characters mem text = and_then (reserve mem (length text) OutOfMemory) (\<lambda>_. Inr (str_chars text))"

section \<open>Compilation\<close>

text \<open>
  The members of a bracket class up to its closing bracket, and what follows the bracket; without
  one, the suffix is exhausted and there is no rest.
\<close>

fun class_members :: "allocator \<Rightarrow> nat list \<Rightarrow> filter_error + nat list \<times> nat list option" where
  "class_members mem [] = Inr ([], None)"
| "class_members mem (c # cs) =
     (if c = 93 then Inr ([], Some cs)
      else if c = 92 then
        (case cs of
           d # ds \<Rightarrow>
             and_then (reserve mem 1 OutOfMemory) (\<lambda>_.
             and_then (class_members mem ds) (\<lambda>(ms, rest). Inr (d # ms, rest)))
         | [] \<Rightarrow>
             and_then (reserve mem 1 OutOfMemory) (\<lambda>_. Inr ([c], None)))
      else
        and_then (reserve mem 1 OutOfMemory) (\<lambda>_.
        and_then (class_members mem cs) (\<lambda>(ms, rest). Inr (c # ms, rest))))"

text \<open>After the opening bracket: an optional negation, and a closing bracket in first place is a member.\<close>

definition class_negation :: "nat list \<Rightarrow> bool \<times> nat list" where
  "class_negation cs = (case cs of c # ds \<Rightarrow> if c = 33 \<or> c = 94 then (True, ds) else (False, cs)
     | [] \<Rightarrow> (False, cs))"

definition scan_class :: "allocator \<Rightarrow> nat list \<Rightarrow> filter_error + bool \<times> nat list \<times> nat list option" where
  "scan_class mem cs =
     (let (negated, ds) = class_negation cs in
      case ds of
        d # es \<Rightarrow>
          if d = 93 then
            and_then (reserve mem 1 OutOfMemory) (\<lambda>_.
            and_then (class_members mem es) (\<lambda>(ms, rest). Inr (negated, d # ms, rest)))
          else and_then (class_members mem ds) (\<lambda>(ms, rest). Inr (negated, ms, rest))
      | [] \<Rightarrow> and_then (class_members mem ds) (\<lambda>(ms, rest). Inr (negated, ms, rest)))"

lemma and_then_cong [fundef_cong]:
  "r = r' \<Longrightarrow> (\<And>x. r' = Inr x \<Longrightarrow> f x = g x) \<Longrightarrow> and_then r f = and_then r' g"
  by (cases r') auto

lemma class_members_rest: "class_members mem cs = Inr (ms, Some rest) \<Longrightarrow> length rest < length cs"
proof (induction mem cs arbitrary: ms rule: class_members.induct)
  case (2 mem c cs)
  then show ?case
    by (fastforce simp: result_simps split: if_splits list.splits)
qed simp

lemma class_negation_length: "class_negation cs = (b, ds) \<Longrightarrow> length ds \<le> length cs"
  by (auto simp: class_negation_def split: list.splits if_splits)

lemma scan_class_rest:
  assumes "scan_class mem cs = Inr (neg, ms, Some rest)"
  shows "length rest < length cs"
proof -
  obtain b ds where b: "class_negation cs = (b, ds)" by (cases "class_negation cs")
  have "length rest < length ds"
    using assms b
    by (cases ds) (auto simp: scan_class_def result_simps simp del: class_members.simps
        split: if_splits dest!: class_members_rest)
  then show ?thesis using class_negation_length [OF b] by linarith
qed

text \<open>\<open>compile\<close>: \<open>classes\<close> is \<open>classes_remain\<close>, cleared by the first bracket without a partner.\<close>

function compile_tokens :: "allocator \<Rightarrow> bool \<Rightarrow> nat list \<Rightarrow> filter_error + token list" where
  "compile_tokens mem classes [] = Inr []"
| "compile_tokens mem classes (c # cs) =
     (if c = 92 then
        (case cs of
           d # ds \<Rightarrow> and_then (compile_tokens mem classes ds) (\<lambda>ts. Inr (Literal d # ts))
         | [] \<Rightarrow> Inr [Literal c])
      else if c = 42 then
        (case cs of
           d # ds \<Rightarrow>
             if d = 42 then
               (case ds of
                  e # es \<Rightarrow>
                    if e = 47 then and_then (compile_tokens mem classes es) (\<lambda>ts. Inr (TreePrefix # ts))
                    else and_then (compile_tokens mem classes ds) (\<lambda>ts. Inr (Star True # ts))
                | [] \<Rightarrow> Inr [Star True])
             else and_then (compile_tokens mem classes cs) (\<lambda>ts. Inr (Star False # ts))
         | [] \<Rightarrow> Inr [Star False])
      else if c = 63 then and_then (compile_tokens mem classes cs) (\<lambda>ts. Inr (Any # ts))
      else if c = 91 \<and> classes then
        and_then (scan_class mem cs) (\<lambda>(negated, members, rest).
          case rest of
            Some ds \<Rightarrow> and_then (compile_tokens mem classes ds) (\<lambda>ts. Inr (Class negated members # ts))
          | None \<Rightarrow> and_then (compile_tokens mem False cs) (\<lambda>ts. Inr (Literal 91 # ts)))
      else and_then (compile_tokens mem classes cs) (\<lambda>ts. Inr (Literal c # ts)))"
  by pat_completeness auto
termination
proof (relation "measure (\<lambda>(mem, classes, cs). length cs)", goal_cases)
  case (8 mem classes c cs x negated y members rest ds)
  then show ?case using scan_class_rest [of mem cs negated members ds] by simp
qed auto

definition compile :: "allocator \<Rightarrow> bytes \<Rightarrow> filter_error + token list" where
  "compile mem pattern =
     and_then (characters mem pattern) (\<lambda>chars.
     and_then (reserve mem (length chars) OutOfMemory) (\<lambda>_. compile_tokens mem True chars))"

fun compile_rules ::
  "allocator \<Rightarrow> rule list \<Rightarrow> bool \<Rightarrow> filter_error + compiled_rule list \<times> bool" where
  "compile_rules mem [] included = Inr ([], included)"
| "compile_rules mem (r # rs) included =
     (let included = (if rule_action r = Include then False else included);
          (act, pattern) = (case strip_prefix (rule_pattern r) [33] of
             Some pattern \<Rightarrow> (opposite (rule_action r), pattern)
           | None \<Rightarrow> (rule_action r, rule_pattern r)) in
      if pattern = [] then Inl EmptyPattern
      else and_then (compile mem pattern) (\<lambda>tokens.
        and_then (compile_rules mem rs included) (\<lambda>(crs, included).
        Inr (\<lparr>compiled_action = act, compiled_tokens = tokens\<rparr> # crs, included))))"

definition filter_compile :: "allocator \<Rightarrow> rule list \<Rightarrow> filter_error + path_filter" where
  "filter_compile mem rules =
     and_then (reserve mem (length rules) OutOfMemory) (\<lambda>_.
     and_then (compile_rules mem rules True) (\<lambda>(compiled, included).
     Inr \<lparr>filter_rules = compiled, default_included = included\<rparr>))"

section \<open>Matching\<close>

text \<open>
  One row: \<open>row token chars[j..] next[j..]\<close> is \<open>current[j..]\<close> together with the value of
  \<open>directory_prefix\<close> after the turn of the loop for \<open>j\<close>.
\<close>

fun row :: "token \<Rightarrow> nat list \<Rightarrow> bool list \<Rightarrow> bool list \<times> bool" where
  "row token [] next =
     ([case token of Star _ \<Rightarrow> hd next | TreePrefix \<Rightarrow> hd next | _ \<Rightarrow> False], False)"
| "row token (c # cs) next =
     (let (current, directory_prefix) = row token cs (tl next);
          after = hd (tl next) in
      case token of
        Literal expected \<Rightarrow> ((c = expected \<and> after) # current, directory_prefix)
      | Any \<Rightarrow> ((c \<noteq> 47 \<and> after) # current, directory_prefix)
      | Class negated members \<Rightarrow> (((c \<in> set members) \<noteq> negated \<and> after) # current, directory_prefix)
      | Star cross_directories \<Rightarrow>
          ((hd next \<or> c \<noteq> (if cross_directories then 10 else 47) \<and> hd current) # current,
           directory_prefix)
      | TreePrefix \<Rightarrow>
          (let directory_prefix = (if c = 10 then False
                 else if c = 47 \<and> after then True else directory_prefix) in
           ((hd next \<or> directory_prefix) # current, directory_prefix)))"

definition final_row :: "nat list \<Rightarrow> bool list" where
  "final_row chars = replicate (length chars) False @ [True]"

definition tokens_match :: "token list \<Rightarrow> nat list \<Rightarrow> bool" where
  "tokens_match tokens chars = hd (foldr (\<lambda>token next. fst (row token chars next)) tokens (final_row chars))"

definition rule_step :: "nat list \<Rightarrow> compiled_rule \<Rightarrow> bool \<Rightarrow> bool" where
  "rule_step chars r included =
     (if tokens_match (compiled_tokens r) chars then compiled_action r = Include else included)"

definition filter_includes :: "allocator \<Rightarrow> path_filter \<Rightarrow> bytes \<Rightarrow> filter_error + bool" where
  "filter_includes mem f path =
     and_then (map_err Path (validate_path path)) (\<lambda>_.
     if filter_rules f = [] then Inr (default_included f)
     else if \<not> from_utf8_ok path then Inl (Path InvalidUtf8)
     else and_then (characters mem path) (\<lambda>chars.
       and_then (reserve mem (length chars + 1) OutOfMemory) (\<lambda>_.
       and_then (reserve mem (length chars + 1) OutOfMemory) (\<lambda>_.
       Inr (fold (rule_step chars) (filter_rules f) (default_included f))))))"

section \<open>The declarative meaning of tokens\<close>

fun token_matches :: "token list \<Rightarrow> nat list \<Rightarrow> bool" where
  "token_matches [] s \<longleftrightarrow> s = []"
| "token_matches (Literal e # ts) s \<longleftrightarrow> (\<exists>rest. s = e # rest \<and> token_matches ts rest)"
| "token_matches (Any # ts) s \<longleftrightarrow> (\<exists>c rest. s = c # rest \<and> c \<noteq> 47 \<and> token_matches ts rest)"
| "token_matches (Class negated members # ts) s \<longleftrightarrow>
     (\<exists>c rest. s = c # rest \<and> (c \<in> set members) \<noteq> negated \<and> token_matches ts rest)"
| "token_matches (Star cross # ts) s \<longleftrightarrow>
     (\<exists>skip rest. s = skip @ rest \<and> (if cross then 10 else 47) \<notin> set skip \<and> token_matches ts rest)"
| "token_matches (TreePrefix # ts) s \<longleftrightarrow>
     token_matches ts s \<or>
     (\<exists>dirs rest. s = dirs @ 47 # rest \<and> 10 \<notin> set dirs \<and> token_matches ts rest)"

text \<open>All suffixes, longest first: entry \<open>j\<close> of a row speaks about the suffix at \<open>j\<close>.\<close>

fun tails :: "'a list \<Rightarrow> 'a list list" where
  "tails [] = [[]]"
| "tails (x # xs) = (x # xs) # tails xs"

lemma tails_simps [simp]: "hd (tails xs) = xs" "tails xs \<noteq> []"
  by (cases xs; simp)+

lemma hd_map_tails [simp]: "hd (map f (tails xs)) = f xs"
  by (simp add: hd_map)

definition tree_prefix :: "token list \<Rightarrow> nat list \<Rightarrow> bool" where
  "tree_prefix ts s \<longleftrightarrow> (\<exists>dirs rest. s = dirs @ rest \<and> (\<exists>tail. rest = 47 # tail \<and> 10 \<notin> set dirs
     \<and> token_matches ts tail))"

lemma tree_prefix_simps:
  "\<not> tree_prefix ts []"
  "tree_prefix ts (c # s) \<longleftrightarrow> c \<noteq> 10 \<and> (c = 47 \<and> token_matches ts s \<or> tree_prefix ts s)"
  unfolding tree_prefix_def ex_append_Cons by auto

lemma token_matches_step:
  "token_matches (Literal e # ts) (c # s) \<longleftrightarrow> c = e \<and> token_matches ts s"
  "token_matches (Any # ts) (c # s) \<longleftrightarrow> c \<noteq> 47 \<and> token_matches ts s"
  "token_matches (Class negated ms # ts) (c # s) \<longleftrightarrow> (c \<in> set ms) \<noteq> negated \<and> token_matches ts s"
  "token_matches (Star cross # ts) (c # s) \<longleftrightarrow>
     token_matches ts (c # s) \<or> c \<noteq> (if cross then 10 else 47) \<and> token_matches (Star cross # ts) s"
  "token_matches (TreePrefix # ts) s' \<longleftrightarrow> token_matches ts s' \<or> tree_prefix ts s'"
  by (auto simp: ex_append_Cons tree_prefix_def)

lemma row_tails:
  "row token s (map (token_matches ts) (tails s)) =
     (map (token_matches (token # ts)) (tails s),
      case token of TreePrefix \<Rightarrow> tree_prefix ts s | _ \<Rightarrow> False)"
proof (induction s)
  case Nil
  show ?case by (cases token) (auto simp: tree_prefix_def)
next
  case (Cons c s)
  then show ?case
    by (cases token)
      (auto simp: Let_def token_matches_step tree_prefix_simps simp del: token_matches.simps)
qed

lemma final_row_tails: "final_row s = map (token_matches []) (tails s)"
  by (induction s) (auto simp: final_row_def)

lemma tokens_match_iff: "tokens_match ts s \<longleftrightarrow> token_matches ts s"
proof -
  have "foldr (\<lambda>token next. fst (row token s next)) ts (final_row s) = map (token_matches ts) (tails s)"
    by (induction ts) (simp_all add: final_row_tails row_tails)
  then show ?thesis by (simp add: tokens_match_def)
qed

section \<open>The decision of a filter\<close>

text \<open>A rule as the user wrote it, by its declarative meaning on a path of scalar values.\<close>

definition rule_decides :: "allocator \<Rightarrow> rule \<Rightarrow> nat list \<Rightarrow> action option" where
  "rule_decides mem r s =
     (let (act, pattern) = (if starts_with (rule_pattern r) [33]
            then (opposite (rule_action r), tl (rule_pattern r))
            else (rule_action r, rule_pattern r)) in
      case compile mem pattern of
        Inr ts \<Rightarrow> if token_matches ts s then Some act else None
      | Inl _ \<Rightarrow> None)"

definition last_decision :: "action option list \<Rightarrow> bool \<Rightarrow> bool" where
  "last_decision ds otherwise =
     (case filter (\<lambda>d. d \<noteq> None) (rev ds) of d # _ \<Rightarrow> d = Some Include | [] \<Rightarrow> otherwise)"

lemma last_decision_Cons:
  "last_decision (d # ds) b = last_decision ds (if d = None then b else d = Some Include)"
  by (auto simp: last_decision_def split: list.splits)

lemma compile_rules_decides:
  assumes "compile_rules mem rs b0 = Inr (crs, b)"
  shows "b = (b0 \<and> (\<forall>r \<in> set rs. rule_action r \<noteq> Include)) \<and> (crs = [] \<longleftrightarrow> rs = []) \<and>
    fold (rule_step s) crs d = last_decision (map (\<lambda>r. rule_decides mem r s) rs) d"
  using assms
proof (induction mem rs b0 arbitrary: crs d rule: compile_rules.induct)
  case (1 mem b0)
  then show ?case by (simp add: last_decision_def)
next
  case (2 mem r rs b0)
  define b1 where "b1 = (if rule_action r = Include then False else b0)"
  define ap where "ap = (if starts_with (rule_pattern r) [33]
    then (opposite (rule_action r), tl (rule_pattern r)) else (rule_action r, rule_pattern r))"
  have ap: "(case strip_prefix (rule_pattern r) [33] of
      Some pattern \<Rightarrow> (opposite (rule_action r), pattern)
    | None \<Rightarrow> (rule_action r, rule_pattern r)) = ap"
    by (simp add: ap_def strip_prefix_def drop_Suc)
  from 2(2) obtain ts crs' where ts: "compile mem (snd ap) = Inr ts"
    and crs': "compile_rules mem rs b1 = Inr (crs', b)"
    and crs: "crs = \<lparr>compiled_action = fst ap, compiled_tokens = ts\<rparr> # crs'"
    and ne: "snd ap \<noteq> []"
    by (auto simp: ap Let_def result_simps b1_def split: prod.splits if_splits)
  have dec: "rule_decides mem r s = (if token_matches ts s then Some (fst ap) else None)"
    using ts by (cases ap) (simp add: rule_decides_def ap_def [symmetric])
  have IH: "b = (b1 \<and> (\<forall>r \<in> set rs. rule_action r \<noteq> Include))" 
    "fold (rule_step s) crs' d' = last_decision (map (\<lambda>r. rule_decides mem r s) rs) d'" for d'
    using 2(1) [of b1 ap "fst ap" "snd ap" ts crs' d'] ne ts crs' ap
    by (simp_all add: b1_def)
  have "rule_step s \<lparr>compiled_action = fst ap, compiled_tokens = ts\<rparr> d =
      (if rule_decides mem r s = None then d else rule_decides mem r s = Some Include)"
    by (simp add: rule_step_def tokens_match_iff dec)
  then show ?case
    using IH by (simp add: crs b1_def last_decision_Cons)
qed

text \<open>C26. Filter semantics: a compiled filter decides a valid path by its last matching rule, where
  matching is the declarative meaning of the compiled pattern over the whole path (a leading
  exclamation mark inverts the rule); if no rule matches, the path is included exactly when no rule is
  an include rule. The dynamic program needs no backtracking and never disagrees with that meaning.\<close>

theorem filter_last_match_wins:
  assumes "filter_compile mem rules = Inr f" and "filter_includes mem' f path = Inr included"
  shows "included = last_decision (map (\<lambda>r. rule_decides mem r (str_chars path)) rules)
    (\<forall>r \<in> set rules. rule_action r \<noteq> Include)"
proof -
  from assms(1) have crs: "compile_rules mem rules True = Inr (filter_rules f, default_included f)"
    by (auto simp: filter_compile_def result_simps)
  note dec = compile_rules_decides [OF this, of "str_chars path" "default_included f"]
  show ?thesis
  proof (cases "filter_rules f = []")
    case True
    then show ?thesis
      using assms(2) dec by (auto simp: filter_includes_def and_then_Inr last_decision_def)
  next
    case False
    then have inc: "included = fold (rule_step (str_chars path)) (filter_rules f) (default_included f)"
      using assms(2)
      by (simp add: filter_includes_def characters_def and_then_Inr if_err_Inr reserve_Inr)
    have "fold (rule_step (str_chars path)) (filter_rules f) (default_included f) =
        last_decision (map (\<lambda>r. rule_decides mem r (str_chars path)) rules) (default_included f)"
      using dec by blast
    moreover have "default_included f = (\<forall>r \<in> set rules. rule_action r \<noteq> Include)"
      using dec by blast
    ultimately show ?thesis by (simp only: inc)
  qed
qed

theorem filter_last_match_wins_witness:
  "filter_includes (\<lambda>_. True)
     \<lparr>filter_rules = [\<lparr>compiled_action = Include,
         compiled_tokens = [TreePrefix, Literal 97, Star False]\<rparr>,
       \<lparr>compiled_action = Exclude, compiled_tokens = [Star True, Class False [98, 99]]\<rparr>],
      default_included = False\<rparr> (ascii ''x/ab'') = Inr False \<and>
   \<not> last_decision (map (\<lambda>r. rule_decides (\<lambda>_. True) r (str_chars (ascii ''x/ab'')))
      [\<lparr>rule_action = Include, rule_pattern = ascii ''**/a*''\<rparr>,
       \<lparr>rule_action = Exclude, rule_pattern = ascii ''**[bc]''\<rparr>]) False"
proof -
  let ?rules = "[\<lparr>rule_action = Include, rule_pattern = ascii ''**/a*''\<rparr>,
       \<lparr>rule_action = Exclude, rule_pattern = ascii ''**[bc]''\<rparr>]"
  let ?f = "\<lparr>filter_rules = [\<lparr>compiled_action = Include,
         compiled_tokens = [TreePrefix, Literal 97, Star False]\<rparr>,
       \<lparr>compiled_action = Exclude, compiled_tokens = [Star True, Class False [98, 99]]\<rparr>],
      default_included = False\<rparr>"
  have c: "filter_compile (\<lambda>_. True) ?rules = Inr ?f" by code_simp
  have i: "filter_includes (\<lambda>_. True) ?f (ascii ''x/ab'') = Inr False" by code_simp
  from filter_last_match_wins [OF c i] i show ?thesis by simp
qed

section \<open>Unmatched brackets\<close>

text \<open>The compiler without the \<open>classes_remain\<close> flag: it rescans the suffix at every bracket.\<close>

function compile_rescan :: "allocator \<Rightarrow> nat list \<Rightarrow> filter_error + token list" where
  "compile_rescan mem [] = Inr []"
| "compile_rescan mem (c # cs) =
     (if c = 92 then
        (case cs of
           d # ds \<Rightarrow> and_then (compile_rescan mem ds) (\<lambda>ts. Inr (Literal d # ts))
         | [] \<Rightarrow> Inr [Literal c])
      else if c = 42 then
        (case cs of
           d # ds \<Rightarrow>
             if d = 42 then
               (case ds of
                  e # es \<Rightarrow>
                    if e = 47 then and_then (compile_rescan mem es) (\<lambda>ts. Inr (TreePrefix # ts))
                    else and_then (compile_rescan mem ds) (\<lambda>ts. Inr (Star True # ts))
                | [] \<Rightarrow> Inr [Star True])
             else and_then (compile_rescan mem cs) (\<lambda>ts. Inr (Star False # ts))
         | [] \<Rightarrow> Inr [Star False])
      else if c = 63 then and_then (compile_rescan mem cs) (\<lambda>ts. Inr (Any # ts))
      else if c = 91 then
        and_then (scan_class mem cs) (\<lambda>(negated, members, rest).
          case rest of
            Some ds \<Rightarrow> and_then (compile_rescan mem ds) (\<lambda>ts. Inr (Class negated members # ts))
          | None \<Rightarrow> and_then (compile_rescan mem cs) (\<lambda>ts. Inr (Literal 91 # ts)))
      else and_then (compile_rescan mem cs) (\<lambda>ts. Inr (Literal c # ts)))"
  by pat_completeness auto
termination
proof (relation "measure (\<lambda>(mem, cs). length cs)", goal_cases)
  case (8 mem c cs x negated y members rest ds)
  then show ?case using scan_class_rest [of mem cs negated members ds] by simp
qed auto

text \<open>An unescaped closing bracket, with the escapes paired as both scans pair them.\<close>

fun has_close :: "nat list \<Rightarrow> bool" where
  "has_close [] = False"
| "has_close (c # cs) =
     (if c = 93 then True
      else if c = 92 then (case cs of d # ds \<Rightarrow> has_close ds | [] \<Rightarrow> False)
      else has_close cs)"

lemma class_members_granted:
  assumes "mem 1"
  shows "\<exists>ms rest. class_members mem cs = Inr (ms, rest) \<and> (rest = None \<longleftrightarrow> \<not> has_close cs)"
proof (induction cs rule: has_close.induct)
  case 1
  show ?case by simp
next
  case (2 c cs)
  consider "c = 93" | "c = 92" "cs = []" | d ds where "c = 92" "cs = d # ds" | "c \<noteq> 93" "c \<noteq> 92"
    by (cases cs) auto
  then show ?case
  proof cases
    case (3 d ds)
    then obtain ms rest where "class_members mem ds = Inr (ms, rest)" "rest = None \<longleftrightarrow> \<not> has_close ds"
      using 2(1) [of d ds] by auto
    with 3 assms show ?thesis by simp
  next
    case 4
    then obtain ms rest where "class_members mem cs = Inr (ms, rest)" "rest = None \<longleftrightarrow> \<not> has_close cs"
      using 2(2) by auto
    with 4 assms show ?thesis by simp
  qed (use assms in simp_all)
qed

text \<open>No later bracket of the suffix can open a class.\<close>

definition exhausted :: "nat list \<Rightarrow> bool" where
  "exhausted cs \<longleftrightarrow> \<not> has_close cs
     \<or> (\<exists>ds. cs = 93 # ds \<and> \<not> has_close ds)
     \<or> (\<exists>c ds. (c = 33 \<or> c = 94) \<and> cs = c # 93 # ds \<and> \<not> has_close ds)"

lemma exhausted_body:
  assumes "class_negation cs = (b, ds)"
  shows "exhausted cs \<longleftrightarrow> (case ds of d # es \<Rightarrow> \<not> has_close (if d = 93 then es else ds) | [] \<Rightarrow> True)"
proof (cases cs)
  case Nil
  then show ?thesis using assms by (simp add: exhausted_def class_negation_def)
next
  case (Cons c xs)
  show ?thesis
  proof (cases "c = 33 \<or> c = 94")
    case True
    then have "ds = xs" using assms Cons by (simp add: class_negation_def)
    with True Cons show ?thesis by (cases xs) (auto simp: exhausted_def)
  next
    case False
    then have "ds = c # xs" using assms Cons by (simp add: class_negation_def)
    moreover have "has_close (93 # xs)" by simp
    ultimately show ?thesis
      using False Cons by (auto simp: exhausted_def simp del: has_close.simps(2))
  qed
qed

lemma scan_class_granted:
  assumes "mem 1"
  shows "\<exists>neg ms rest. scan_class mem cs = Inr (neg, ms, rest) \<and> (rest = None \<longleftrightarrow> exhausted cs)"
proof -
  obtain b ds where b: "class_negation cs = (b, ds)" by (cases "class_negation cs")
  note ex = exhausted_body [OF b]
  obtain ms rest where ms: "class_members mem ds = Inr (ms, rest)" "rest = None \<longleftrightarrow> \<not> has_close ds"
    using class_members_granted [of mem ds] assms by blast
  show ?thesis
  proof (cases ds)
    case Nil
    then show ?thesis using b ex by (simp add: scan_class_def)
  next
    case (Cons d es)
    obtain ns rest' where ns: "class_members mem es = Inr (ns, rest')" "rest' = None \<longleftrightarrow> \<not> has_close es"
      using class_members_granted [of mem es] assms by blast
    show ?thesis
    proof (cases "d = 93")
      case True
      then show ?thesis using b ex ns Cons assms by (simp add: scan_class_def)
    next
      case False
      then have "scan_class mem cs = Inr (b, ms, rest)"
        using b ms Cons by (simp add: scan_class_def del: class_members.simps)
      then show ?thesis using ex ms(2) False Cons by auto
    qed
  qed
qed

lemma exhausted_no_close: "\<not> has_close cs \<Longrightarrow> exhausted cs"
  by (simp add: exhausted_def)

lemma exhausted_step:
  assumes "exhausted (c # cs)"
  shows "c = 92 \<Longrightarrow> cs = d # ds \<Longrightarrow> exhausted ds" and "c \<noteq> 92 \<Longrightarrow> exhausted cs"
    and "c = 91 \<Longrightarrow> \<not> has_close cs"
  using assms by (auto simp: exhausted_def split: if_splits)

lemmas compile_unfold = compile_tokens.simps compile_rescan.simps

declare compile_unfold [simp del]

lemma compile_Nil [simp]: "compile_tokens mem classes [] = Inr []" "compile_rescan mem [] = Inr []"
  by (simp_all add: compile_unfold)

lemma compile_exhausted:
  assumes "mem 1"
  shows "exhausted cs \<Longrightarrow> compile_tokens mem False cs = compile_rescan mem cs"
proof (induction "length cs" arbitrary: cs rule: less_induct)
  case less
  show ?case
  proof (cases cs)
    case (Cons c ds)
    note ex = exhausted_step [OF less.prems [unfolded Cons]]
    note unfold = compile_tokens.simps(2) [of mem False _ ds] compile_rescan.simps(2) [of mem _ ds]
    have IH: "exhausted es \<Longrightarrow> compile_tokens mem False es = compile_rescan mem es"
      if "length es < length cs" for es
      using less.hyps that by blast
    consider "c = 92" | "c = 42" | "c = 91" | "c \<noteq> 92" "c \<noteq> 42" "c \<noteq> 91" by blast
    then show ?thesis
    proof cases
      case 1
      then show ?thesis using ex(1) IH Cons by (auto simp: unfold split: list.split)
    next
      case 2
      then have "exhausted ds" using ex(2) by simp
      then have "exhausted es" if "ds = 42 # es" for es
        using that exhausted_step(2) [of 42 es] by simp
      moreover have "exhausted fs" if "ds = 42 # 47 # fs" for fs
        using that calculation exhausted_step(2) [of 47 fs] by simp
      ultimately show ?thesis
        using 2 IH \<open>exhausted ds\<close> Cons by (auto simp: unfold split: list.split)
    next
      case 3
      then have nc: "exhausted ds" using ex(3) by (simp add: exhausted_no_close)
      then obtain neg ms where "scan_class mem ds = Inr (neg, ms, None)"
        using scan_class_granted [of mem ds, OF assms] by auto
      with 3 nc IH Cons show ?thesis by (simp add: unfold)
    next
      case 4
      then show ?thesis using ex(2) IH Cons by (simp add: unfold)
    qed
  qed simp
qed

text \<open>With memory granted a pattern always compiles, so only an empty pattern fails a filter.\<close>

lemma compile_tokens_total:
  assumes "mem 1"
  shows "\<exists>ts. compile_tokens mem classes cs = Inr ts"
proof (induction "length cs" arbitrary: classes cs rule: less_induct)
  case less
  show ?case
  proof (cases cs)
    case (Cons c ds)
    have IH: "\<exists>ts. compile_tokens mem b es = Inr ts" if "length es < length cs" for b es
      using less.hyps that by blast
    have then_ok: "\<exists>ts. and_then (compile_tokens mem b es) (\<lambda>ts. Inr (t # ts)) = Inr ts"
      if "length es < length cs" for b es t
      using IH [OF that, of b] by auto
    obtain neg ms rest where scan: "scan_class mem ds = Inr (neg, ms, rest)"
      using scan_class_granted [of mem ds, OF assms] by blast
    have "length es < length cs" if "rest = Some es" for es
      using scan_class_rest [of mem ds neg ms es] scan that Cons by simp
    then show ?thesis
      using then_ok Cons scan
      by (cases rest) (auto simp: compile_tokens.simps(2) [of mem classes c ds] split: list.split)
  qed simp
qed

lemma compile_granted: "\<forall>n. mem n \<Longrightarrow> \<exists>ts. compile mem pattern = Inr ts"
  using compile_tokens_total [of mem True] by (simp add: compile_def characters_def)

lemma compile_rules_granted:
  "compile_rules mem rules inc = Inr x \<Longrightarrow> \<forall>n. mem' n \<Longrightarrow> \<exists>y. compile_rules mem' rules inc = Inr y"
proof (induction rules arbitrary: inc x)
  case (Cons r rules)
  obtain act pattern where split: "(case strip_prefix (rule_pattern r) [33] of
      Some pattern \<Rightarrow> (opposite (rule_action r), pattern)
    | None \<Rightarrow> (rule_action r, rule_pattern r)) = (act, pattern)" by fastforce
  from Cons.prems split have "pattern \<noteq> []"
    and "\<exists>y. compile_rules mem rules (if rule_action r = Include then False else inc) = Inr y"
    by (auto simp: Let_def result_simps split: if_splits)
  moreover obtain ts where "compile mem' pattern = Inr ts" using compile_granted Cons.prems(2) by blast
  ultimately show ?case using Cons.IH Cons.prems(2) split by (fastforce simp: Let_def)
qed simp

lemma filter_compile_granted:
  "filter_compile mem rules = Inr f \<Longrightarrow> \<forall>n. mem' n \<Longrightarrow> \<exists>g. filter_compile mem' rules = Inr g"
  using compile_rules_granted [of mem rules True _ mem'] by (fastforce simp: filter_compile_def result_simps)

text \<open>C27. The linear-time bracket scan is exact. Compiling with the flag that stops looking for classes
  after the first bracket without a partner yields the same tokens as rescanning the rest of the
  pattern at every bracket, for every pattern, if memory is granted.\<close>

theorem compile_matches_rescan:
  assumes "mem 1"
  shows "compile_tokens mem True cs = compile_rescan mem cs"
proof (induction "length cs" arbitrary: cs rule: less_induct)
  case less
  show ?case
  proof (cases cs)
    case (Cons c ds)
    note unfold = compile_tokens.simps(2) [of mem True _ ds] compile_rescan.simps(2) [of mem _ ds]
    have IH: "compile_tokens mem True es = compile_rescan mem es" if "length es < length cs" for es
      using less.hyps that by blast
    show ?thesis
    proof (cases "c = 91")
      case True
      obtain neg ms rest where scan: "scan_class mem ds = Inr (neg, ms, rest)"
        and rest: "rest = None \<longleftrightarrow> exhausted ds"
        using scan_class_granted [of mem ds, OF assms] by blast
      show ?thesis
      proof (cases rest)
        case None
        then show ?thesis
          using True Cons scan rest compile_exhausted [of mem ds, OF assms] by (simp add: unfold)
      next
        case (Some es)
        then show ?thesis
          using True Cons scan IH scan_class_rest [of mem ds neg ms es] by (simp add: unfold)
      qed
    next
      case False
      then show ?thesis using IH Cons by (auto simp: unfold split: list.split)
    qed
  qed simp
qed

theorem compile_matches_rescan_witness:
  "compile_tokens (\<lambda>_. True) True (str_chars (ascii ''a[!]b[c'')) =
   Inr (map Literal (str_chars (ascii ''a[!]b[c''))) \<and>
   compile_tokens (\<lambda>_. True) True (str_chars (ascii ''a[!]b[c'')) =
   compile_rescan (\<lambda>_. True) (str_chars (ascii ''a[!]b[c''))"
proof -
  have "compile_tokens (\<lambda>_. True) True (str_chars (ascii ''a[!]b[c'')) =
   Inr (map Literal (str_chars (ascii ''a[!]b[c'')))"
    by code_simp
  then show ?thesis
    using compile_matches_rescan [of "\<lambda>_. True" "str_chars (ascii ''a[!]b[c'')"] by simp
qed

end
