(* ===== verification/Tree_Envelope.thy ===== *)
theory Tree_Envelope
  imports Tree_Snapshot Path_Filter
begin

text \<open>
  The DIFZTREE v2 envelope (\<open>rust/src/tree_patch.rs\<close>): the 120-byte header with its checksum over
  header and body, the envelope limits and the conservative descriptor-count check.
\<close>

definition TREE_HEADER_LEN :: usize where "TREE_HEADER_LEN = 120"
definition CHECKSUM_OFFSET :: usize where "CHECKSUM_OFFSET = 88"
definition VERSION :: u16 where "VERSION = 2"

datatype tree_error = LimitExceeded | UnexpectedEndOfInput | InvalidMagic | UnsupportedVersion
  | PatchHashMismatch | ReaderTooOld | UnsupportedFlags | InvalidRule | InvalidOperation | InvalidPath
  | InvalidPayload | OmittedMetadataPresent | TrailingData | OutOfMemory | MetadataError meta_error
  | SnapshotError path_error | FilterError filter_error | FileError file_error | SourceHashMismatch
  | TargetHashMismatch | MissingSourceEntry | SourceKindMismatch

record envelope_limits =
  max_patch_bytes :: u64
  max_entries :: u32
  max_rules :: u32

definition envelope_limits_default :: envelope_limits where
  "envelope_limits_default =
     \<lparr>max_patch_bytes = push_bit 30 16, max_entries = 1000000, max_rules = 4096\<rparr>"

record tree_header =
  th_needed_reader :: u16
  th_root_metadata :: bool
  th_omit :: omit
  th_rule_count :: u32
  th_entry_count :: u32
  th_source_hash :: bytes
  th_target_hash :: bytes

definition checksum :: "hasher \<Rightarrow> bytes \<Rightarrow> bytes \<Rightarrow> bytes" where
  "checksum H p body = H (ascii ''DIFZTREE-PATCH'' @ [2] @ p @ body)"

definition tree_flags :: "tree_header \<Rightarrow> u32" where
  "tree_flags h = push_bit 1 (th_omit h) OR (if th_root_metadata h then 1 else 0)"

text \<open>The header up to the checksum.\<close>

definition tree_header_prefix :: "tree_header \<Rightarrow> bytes" where
  "tree_header_prefix h =
     ascii ''DIFZTREE'' @ le_bytes VERSION @ le_bytes (th_needed_reader h) @ le_bytes (tree_flags h)
     @ le_bytes (th_rule_count h) @ le_bytes (th_entry_count h) @ th_source_hash h @ th_target_hash h"

definition tree_header_encode :: "hasher \<Rightarrow> tree_header \<Rightarrow> bytes \<Rightarrow> bytes" where
  "tree_header_encode H h body = tree_header_prefix h @ checksum H (tree_header_prefix h) body"

definition header_word :: "bytes \<Rightarrow> nat \<Rightarrow> u32" where
  "header_word bs offset = le_word (take 4 (drop offset bs))"

definition tree_header_decode_prefix ::
  "hasher \<Rightarrow> bytes \<Rightarrow> envelope_limits \<Rightarrow> tree_error + tree_header \<times> bytes" where
  "tree_header_decode_prefix H bs limits =
     (if as_u64 (length bs) > max_patch_bytes limits then Inl LimitExceeded
      else and_then (ok_or UnexpectedEndOfInput (get_range bs 0 TREE_HEADER_LEN)) (\<lambda>encoded.
        if take 8 encoded \<noteq> ascii ''DIFZTREE'' then Inl InvalidMagic
        else if le_word (take 2 (drop 8 encoded)) \<noteq> VERSION then Inl UnsupportedVersion
        else
          (let body = drop TREE_HEADER_LEN bs in
           if checksum H (take CHECKSUM_OFFSET encoded) body \<noteq> drop CHECKSUM_OFFSET encoded
           then Inl PatchHashMismatch
           else
             (let needed_reader = le_word (take 2 (drop 10 encoded)) in
              if needed_reader > VERSION then Inl ReaderTooOld
              else
                (let flags = header_word encoded 12 in
                 if flags AND NOT 0x7f \<noteq> 0 then Inl UnsupportedFlags
                 else and_then (map_err (\<lambda>_. UnsupportedFlags) (omit_from_bits (drop_bit 1 flags))) (\<lambda>omit.
                   let rule_count = header_word encoded 16; entry_count = header_word encoded 20 in
                   if rule_count > max_rules limits \<or> entry_count > max_entries limits
                   then Inl LimitExceeded
                   else
                     (let rules = unat rule_count; entries = unat entry_count in
                      if rules > length body div 9 \<or> entries > (length body - rules * 9) div 41
                      then Inl UnexpectedEndOfInput
                      else Inr (\<lparr>th_needed_reader = needed_reader, th_root_metadata = (flags AND 1 \<noteq> 0),
                            th_omit = omit, th_rule_count = rule_count, th_entry_count = entry_count,
                            th_source_hash = take 32 (drop 24 encoded),
                            th_target_hash = take 32 (drop 56 encoded)\<rparr>, body))))))))"

section \<open>Lemmas\<close>

definition tree_header_typed :: "tree_header \<Rightarrow> bool" where
  "tree_header_typed h \<longleftrightarrow> length (th_source_hash h) = 32 \<and> length (th_target_hash h) = 32
     \<and> omit_from_bits (th_omit h) = Inr (th_omit h)"

definition counts_fit :: "tree_header \<Rightarrow> bytes \<Rightarrow> bool" where
  "counts_fit h body \<longleftrightarrow>
     9 * unat (th_rule_count h) + 41 * unat (th_entry_count h) \<le> length body"

lemma counts_fit_iff:
  "\<not> (r > n div 9 \<or> e > (n - r * 9) div 41) \<longleftrightarrow> 9 * r + 41 * e \<le> (n :: nat)"
  by (auto simp: not_less less_eq_div_iff_mult_less_eq) 

lemma length_tree_header_prefix:
  "tree_header_typed h \<Longrightarrow> length (tree_header_prefix h) = 88"
  by (simp add: tree_header_prefix_def tree_header_typed_def ascii_def)

lemma tree_header_encode_length:
  "hash_width H \<Longrightarrow> tree_header_typed h \<Longrightarrow> length (tree_header_encode H h body) = 120"
  by (simp add: tree_header_encode_def length_tree_header_prefix checksum_def hash_width_def)

lemma bit_shifted: "bit (push_bit 1 w OR (if b then 1 else 0)) i \<longleftrightarrow>
    (if i = 0 then b else i < 32 \<and> bit w (i - 1))" for w :: u32
proof -
  have "bit (push_bit 1 w) i \<longleftrightarrow> 1 \<le> i \<and> i < 32 \<and> bit w (i - 1)"
    unfolding bit_push_bit_iff by auto
  then show ?thesis unfolding bit_or_iff by (auto simp: bit_1_iff)
qed

lemma and_one_bit: "w AND 1 \<noteq> 0 \<longleftrightarrow> bit w 0" for w :: u32
  by (simp add: and_one_eq bit_0 odd_iff_mod_2_eq_one)

lemma tree_flags_bits:
  fixes root :: bool
  assumes "omit_from_bits omit = Inr omit"
  defines "flags \<equiv> push_bit 1 omit OR (if root then 1 else 0 :: u32)"
  shows "flags AND NOT 0x7f = 0 \<and> drop_bit 1 flags = omit \<and> (flags AND 1 \<noteq> 0) = root"
proof -
  have bits: "bit omit i \<Longrightarrow> i < 6" for i using assms(1) by (simp add: omit_from_bits_iff)
  have flag: "bit flags i \<longleftrightarrow> (if i = 0 then root else bit omit (i - 1))" for i
    using bits [of "i - 1"] unfolding flags_def bit_shifted by auto
  have "flags AND mask 7 = flags"
    by (rule bit_word_eqI) (use bits in \<open>force simp: bit_and_iff bit_mask_iff flag\<close>)
  then have "flags AND NOT (mask 7) = 0" by (simp only: and_not_zero_iff)
  moreover have "drop_bit 1 flags = omit"
    by (rule bit_eqI) (simp add: bit_drop_bit_eq flag)
  moreover have "(flags AND 1 \<noteq> 0) = root"
    using flag [of 0] by (simp add: and_one_bit)
  ultimately show ?thesis by (simp add: mask_numeral)
qed

lemma flags_split:
  "push_bit 1 (drop_bit 1 flags) OR (if flags AND 1 \<noteq> 0 then 1 else 0) = (flags :: u32)"
  unfolding and_one_bit
  by (rule bit_word_eqI, unfold bit_shifted) (auto simp: bit_drop_bit_eq)

lemma tree_header_decode_iff:
  assumes "hash_width H" and "in_memory bs"
  shows "tree_header_decode_prefix H bs limits = Inr (h, body) \<longleftrightarrow>
    tree_header_typed h \<and> th_needed_reader h \<le> VERSION \<and> bs = tree_header_encode H h body @ body
    \<and> as_u64 (length bs) \<le> max_patch_bytes limits \<and> th_rule_count h \<le> max_rules limits
    \<and> th_entry_count h \<le> max_entries limits \<and> counts_fit h body"
  (is "?L \<longleftrightarrow> ?R")
proof
  assume ?R
  then have h: "tree_header_typed h" and bs: "bs = tree_header_encode H h body @ body" by auto
  have len: "length (tree_header_prefix h) = 88" using h by (rule length_tree_header_prefix)
  have enc: "get_range bs 0 TREE_HEADER_LEN = Some (tree_header_encode H h body)"
    using tree_header_encode_length [OF assms(1) h] by (simp add: bs get_range_def TREE_HEADER_LEN_def)
  have body: "drop TREE_HEADER_LEN bs = body"
    using tree_header_encode_length [OF assms(1) h] by (simp add: bs TREE_HEADER_LEN_def)
  have fields: "take 8 (tree_header_prefix h) = ascii ''DIFZTREE''"
    "take 2 (drop 8 (tree_header_prefix h)) = le_bytes VERSION"
    "take 2 (drop 10 (tree_header_prefix h)) = le_bytes (th_needed_reader h)"
    "take 4 (drop 12 (tree_header_prefix h)) = le_bytes (tree_flags h)"
    "take 4 (drop 16 (tree_header_prefix h)) = le_bytes (th_rule_count h)"
    "take 4 (drop 20 (tree_header_prefix h)) = le_bytes (th_entry_count h)"
    "take 32 (drop 24 (tree_header_prefix h)) = th_source_hash h"
    "take 32 (drop 56 (tree_header_prefix h)) = th_target_hash h"
    using h by (simp_all add: tree_header_prefix_def ascii_def tree_header_typed_def)
  have flags: "tree_flags h AND NOT 0x7f = 0" "drop_bit 1 (tree_flags h) = th_omit h"
    "(tree_flags h AND 1 \<noteq> 0) = th_root_metadata h"
    using tree_flags_bits [of "th_omit h" "th_root_metadata h"] h
    by (auto simp: tree_flags_def tree_header_typed_def)
  have "as_u64 (length bs) \<le> max_patch_bytes limits" "th_needed_reader h \<le> VERSION"
    "th_rule_count h \<le> max_rules limits" "th_entry_count h \<le> max_entries limits"
    "\<not> (unat (th_rule_count h) > length body div 9
        \<or> unat (th_entry_count h) > (length body - unat (th_rule_count h) * 9) div 41)"
    using \<open>?R\<close> unfolding counts_fit_iff counts_fit_def by auto
  then show ?L
    using fields flags h
    unfolding tree_header_decode_prefix_def enc ok_or.simps and_then.simps body Let_def
    by (simp add: tree_header_encode_def len CHECKSUM_OFFSET_def header_word_def
        tree_header_typed_def not_less map_err_Inr)
next
  assume ?L
  then have len: "120 \<le> length bs" and body: "body = drop 120 bs"
    and magic: "take 8 bs = ascii ''DIFZTREE''" and version: "le_word (take 2 (drop 8 bs)) = VERSION"
    and sum: "checksum H (take 88 bs) body = take 32 (drop 88 bs)"
    and reader: "th_needed_reader h = le_word (take 2 (drop 10 bs))" "th_needed_reader h \<le> VERSION"
    and flags: "omit_from_bits (drop_bit 1 (header_word bs 12)) = Inr (th_omit h)"
      "th_root_metadata h = (header_word bs 12 AND 1 \<noteq> 0)"
    and counts: "th_rule_count h = header_word bs 16" "th_entry_count h = header_word bs 20"
      "th_rule_count h \<le> max_rules limits" "th_entry_count h \<le> max_entries limits"
    and fit: "\<not> (unat (th_rule_count h) > length body div 9
        \<or> unat (th_entry_count h) > (length body - unat (th_rule_count h) * 9) div 41)"
    and hashes: "th_source_hash h = take 32 (drop 24 bs)" "th_target_hash h = take 32 (drop 56 bs)"
    and limit: "as_u64 (length bs) \<le> max_patch_bytes limits"
    by (auto simp: tree_header_decode_prefix_def Let_def result_simps get_range_Some TREE_HEADER_LEN_def
        CHECKSUM_OFFSET_def header_word_def drop_take not_less split: if_splits)
  have omit: "th_omit h = drop_bit 1 (header_word bs 12)" and typed: "tree_header_typed h"
    using flags(1) hashes len by (auto simp: omit_from_bits_iff tree_header_typed_def)
  have f: "tree_flags h = header_word bs 12"
    using flags_split [of "header_word bs 12"] by (simp only: tree_flags_def omit flags(2))
  have "length (take 2 (drop 8 bs)) = 2" using len by simp
  from le_bytes_word_widths(1) [OF this] have v: "take 2 (drop 8 bs) = le_bytes VERSION"
    by (simp only: version)
  have "(take 8 bs @ take 2 (drop 8 bs) @ take 2 (drop 10 bs) @ take 4 (drop 12 bs)
      @ take 4 (drop 16 bs) @ take 4 (drop 20 bs) @ take 32 (drop 24 bs) @ take 32 (drop 56 bs))
      @ drop 88 bs = take 88 bs @ drop 88 bs"
    by (simp add: take_drop_chunk)
  then have "take 88 bs = take 8 bs @ take 2 (drop 8 bs) @ take 2 (drop 10 bs) @ take 4 (drop 12 bs)
      @ take 4 (drop 16 bs) @ take 4 (drop 20 bs) @ take 32 (drop 24 bs) @ take 32 (drop 56 bs)"
    by (simp only: append_same_eq)
  then have "tree_header_prefix h = take 88 bs"
    using len by (simp add: tree_header_prefix_def magic v f reader(1) counts(1,2) hashes header_word_def)
  then have "bs = tree_header_encode H h body @ body"
    using sum by (simp add: tree_header_encode_def body take_drop_chunk)
  then show ?R
    using typed reader(2) limit counts(3,4) fit unfolding counts_fit_iff counts_fit_def by blast
qed

section \<open>Property of the envelope\<close>

text \<open>The envelope is opened exactly on what was sealed: a byte string yields a header and a body if
  and only if it is the 120-byte sealed header of that body followed by the body, within the reader's
  version and limits, and with room for the announced rules and entries. Any other flag bit, count or
  checksum is refused before descriptors are allocated.\<close>

lemma tree_envelope_codec:
  assumes "hash_width H" and "in_memory bs"
  shows "tree_header_decode_prefix H bs limits = Inr (h, body) \<longleftrightarrow>
    tree_header_typed h \<and> th_needed_reader h \<le> 2 \<and> bs = tree_header_encode H h body @ body
    \<and> as_u64 (length bs) \<le> max_patch_bytes limits \<and> th_rule_count h \<le> max_rules limits
    \<and> th_entry_count h \<le> max_entries limits
    \<and> 9 * unat (th_rule_count h) + 41 * unat (th_entry_count h) \<le> length body"
  using tree_header_decode_iff [OF assms] by (simp add: VERSION_def counts_fit_def)

end
