(* ===== verification/Tree_Patch_Decode.thy ===== *)
theory Tree_Patch_Decode
  imports Tree_Envelope
begin

text \<open>
  The body of a tree patch (\<open>rust/src/tree_patch_decode.rs\<close>): filter rules, entries with their
  operation, payload and metadata block, and the optional root metadata. Each record is a
  \<open>wire_codec\<close>; \<open>print_patch\<close> is the byte string that a parsed patch stands for, and
  \<open>patch_decode\<close> is shown to accept exactly these.
\<close>

record limits =
  l_envelope :: envelope_limits
  max_path_bytes :: u32
  max_pattern_bytes :: u32
  max_symlink_bytes :: u64
  max_payload_bytes :: u64

definition limits_default :: limits where
  "limits_default = \<lparr>l_envelope = envelope_limits_default, max_path_bytes = 4096,
     max_pattern_bytes = 4096, max_symlink_bytes = 65536, max_payload_bytes = push_bit 30 8\<rparr>"

datatype operation = Op_Directory | Op_Symlink | Op_FileCopy | Op_FileRaw | Op_FileDelta | Op_FileHardlink

fun operation_tag :: "operation \<Rightarrow> u8" where
  "operation_tag Op_Directory = 1"
| "operation_tag Op_Symlink = 2"
| "operation_tag Op_FileCopy = 3"
| "operation_tag Op_FileRaw = 4"
| "operation_tag Op_FileDelta = 5"
| "operation_tag Op_FileHardlink = 6"

definition operation_try_from :: "u8 \<Rightarrow> tree_error + operation" where
  "operation_try_from t =
     (if t = 1 then Inr Op_Directory else if t = 2 then Inr Op_Symlink else if t = 3 then Inr Op_FileCopy
      else if t = 4 then Inr Op_FileRaw else if t = 5 then Inr Op_FileDelta
      else if t = 6 then Inr Op_FileHardlink else Inl InvalidOperation)"

record decoded_entry =
  d_path :: bytes
  d_mode :: u16
  d_operation :: operation
  d_payload :: bytes
  d_metadata :: metadata

definition decoded_structure :: "decoded_entry \<Rightarrow> structure_record" where
  "decoded_structure d =
     \<lparr>st_path = d_path d, st_mode = d_mode d,
      st_kind = (case d_operation d of
          Op_Directory \<Rightarrow> Kind_Directory | Op_Symlink \<Rightarrow> Kind_Symlink | _ \<Rightarrow> Kind_File),
      st_data = d_payload d\<rparr>"

record parsed_patch =
  p_header :: tree_header
  p_rules :: "rule list"
  p_entries :: "decoded_entry list"
  p_root :: metadata

fun family_present :: "metadata \<Rightarrow> family \<Rightarrow> bool" where
  "family_present m Xattr = (xattrs m \<noteq> [])"
| "family_present m Acl = (aces m \<noteq> [] \<or> native_acl m \<noteq> None)"
| "family_present m Timestamps =
     (mtime (mtimes m) \<noteq> None \<or> atime (mtimes m) \<noteq> None \<or> btime (mtimes m) \<noteq> None)"
| "family_present m Finder = (finder_flags m \<noteq> 0 \<or> finder_info m \<noteq> None)"
| "family_present m Sparse = (holes m \<noteq> [])"
| "family_present m Hardlink = (hardlink_to m \<noteq> None)"

definition has_omitted :: "metadata \<Rightarrow> omit \<Rightarrow> bool" where
  "has_omitted m omit = list_ex (\<lambda>f. omit_contains omit f \<and> family_present m f) family_all"

section \<open>Readers\<close>

definition check_length :: "u64 \<Rightarrow> u64 \<Rightarrow> tree_error + usize" where
  "check_length n limit = (if n > limit then Inl LimitExceeded else Inr (unat n))"

definition read_length32 :: "u64 \<Rightarrow> reader \<Rightarrow> tree_error + usize \<times> reader" where
  "read_length32 limit r =
     and_then (reader_u32 UnexpectedEndOfInput r) (\<lambda>(n, r).
     and_then (check_length (ucast n) limit) (\<lambda>n. Inr (n, r)))"

definition read_rule :: "limits \<Rightarrow> reader \<Rightarrow> tree_error + rule \<times> reader" where
  "read_rule limits r =
     and_then (reader_byte UnexpectedEndOfInput r) (\<lambda>(t, r).
     and_then (if t = 1 then Inr Include else if t = 2 then Inr Exclude else Inl InvalidRule) (\<lambda>action.
     and_then (reader_byte UnexpectedEndOfInput r) (\<lambda>(b, r).
     if b \<noteq> 0 then Inl InvalidRule
     else and_then (reader_u16 UnexpectedEndOfInput r) (\<lambda>(w, r).
       if w \<noteq> 0 then Inl InvalidRule
       else and_then (read_length32 (ucast (max_pattern_bytes limits)) r) (\<lambda>(n, r).
         if n = 0 then Inl InvalidRule
         else and_then (reader_take UnexpectedEndOfInput n r) (\<lambda>(pattern, r).
           if \<not> from_utf8_ok pattern then Inl (SnapshotError InvalidUtf8)
           else Inr (\<lparr>rule_action = action, rule_pattern = pattern\<rparr>, r)))))))"

text \<open>A metadata block: bounded length, canonical record, nothing of an omitted family.\<close>

definition read_block :: "allocator \<Rightarrow> u64 \<Rightarrow> omit \<Rightarrow> reader \<Rightarrow> tree_error + metadata \<times> reader" where
  "read_block mem limit omit r =
     and_then (read_length32 limit r) (\<lambda>(n, r).
     and_then (reader_take UnexpectedEndOfInput n r) (\<lambda>(bs, r).
     and_then (map_err MetadataError (metadata_decode mem bs)) (\<lambda>m.
     if has_omitted m omit then Inl OmittedMetadataPresent else Inr (m, r))))"

definition check_payload ::
  "limits \<Rightarrow> operation \<Rightarrow> bytes \<Rightarrow> metadata \<Rightarrow> tree_error + unit" where
  "check_payload limits operation payload m =
     and_then
       (case operation of
          Op_Directory \<Rightarrow> if payload \<noteq> [] then Inl InvalidPayload else Inr ()
        | Op_FileCopy \<Rightarrow> if payload \<noteq> [] then Inl InvalidPayload else Inr ()
        | Op_Symlink \<Rightarrow>
            if as_u64 (length payload) > max_symlink_bytes limits then Inl LimitExceeded else Inr ()
        | Op_FileHardlink \<Rightarrow>
            if hardlink_to m \<noteq> Some payload then Inl (SnapshotError InvalidHardlinkRelation) else Inr ()
        | Op_FileRaw \<Rightarrow> Inr ()
        | Op_FileDelta \<Rightarrow> Inr ()) (\<lambda>_.
     if hardlink_to m \<noteq> None \<and> operation \<noteq> Op_FileHardlink
     then Inl (SnapshotError InvalidHardlinkRelation) else Inr ())"

definition read_entry :: "allocator \<Rightarrow> limits \<Rightarrow> omit \<Rightarrow> reader \<Rightarrow> tree_error + decoded_entry \<times> reader" where
  "read_entry mem limits omit r =
     and_then (reader_byte UnexpectedEndOfInput r) (\<lambda>(t, r).
     and_then (operation_try_from t) (\<lambda>operation.
     and_then (reader_byte UnexpectedEndOfInput r) (\<lambda>(b, r).
     if b \<noteq> 0 then Inl UnsupportedFlags
     else and_then (reader_u16 UnexpectedEndOfInput r) (\<lambda>(mode, r).
     and_then (read_length32 (ucast (max_path_bytes limits)) r) (\<lambda>(path_length, r).
     if path_length = 0 then Inl InvalidPath
     else and_then (reader_u64 UnexpectedEndOfInput r) (\<lambda>(n, r).
     and_then (check_length n (max_payload_bytes limits)) (\<lambda>payload_length.
     and_then (reader_take UnexpectedEndOfInput path_length r) (\<lambda>(path, r).
     and_then (reader_take UnexpectedEndOfInput payload_length r) (\<lambda>(payload, r).
     and_then (read_block mem (max_payload_bytes limits) omit r) (\<lambda>(m, r).
     and_then (check_payload limits operation payload m) (\<lambda>_.
     Inr (\<lparr>d_path = path, d_mode = mode, d_operation = operation, d_payload = payload,
           d_metadata = m\<rparr>, r))))))))))))"

definition read_root :: "allocator \<Rightarrow> limits \<Rightarrow> tree_header \<Rightarrow> reader \<Rightarrow> tree_error + metadata \<times> reader" where
  "read_root mem limits h r =
     (if th_root_metadata h then
        and_then (read_block mem (max_payload_bytes limits) (th_omit h) r) (\<lambda>(root, r).
        if metadata_is_empty root then Inl (MetadataError BadMetadata)
        else if holes root \<noteq> [] then Inl (SnapshotError InvalidSparseExtent)
        else if hardlink_to root \<noteq> None then Inl (SnapshotError InvalidHardlinkRelation)
        else Inr (root, r))
      else Inr (metadata_default, r))"

definition patch_decode :: "allocator \<Rightarrow> hasher \<Rightarrow> bytes \<Rightarrow> limits \<Rightarrow> tree_error + parsed_patch" where
  "patch_decode mem H bs limits =
     and_then (tree_header_decode_prefix H bs (l_envelope limits)) (\<lambda>(header, body).
     let r = read_from body in
     and_then (reserve mem (unat (th_rule_count header)) OutOfMemory) (\<lambda>_.
     and_then (read_n (unat (th_rule_count header)) (read_rule limits) r) (\<lambda>(rules, r).
     and_then (if rules \<noteq> [] then and_then (map_err FilterError (filter_compile mem rules)) (\<lambda>_. Inr ())
               else Inr ()) (\<lambda>_.
     and_then (reserve mem (unat (th_entry_count header)) OutOfMemory) (\<lambda>_.
     and_then (read_n (unat (th_entry_count header)) (read_entry mem limits (th_omit header)) r) (\<lambda>(entries, r).
     and_then (read_root mem limits header r) (\<lambda>(root, r).
     if rd_pos r \<noteq> length body then Inl TrailingData
     else and_then (map_err SnapshotError (structure_validate decoded_structure entries)) (\<lambda>_.
       Inr \<lparr>p_header = header, p_rules = rules, p_entries = entries, p_root = root\<rparr>))))))))"

section \<open>Printed forms\<close>

fun action_tag :: "action \<Rightarrow> u8" where
  "action_tag Include = 1"
| "action_tag Exclude = 2"

definition print_rule :: "rule \<Rightarrow> bytes" where
  "print_rule x = [action_tag (rule_action x)] @ [0] @ le_bytes (0 :: u16) @ print_blob (rule_pattern x)"

definition print_block :: "metadata \<Rightarrow> bytes" where
  "print_block m = print_blob (print_metadata m)"

definition print_entry :: "decoded_entry \<Rightarrow> bytes" where
  "print_entry d =
     [operation_tag (d_operation d)] @ [0] @ le_bytes (d_mode d) @ le_bytes (as_u32 (length (d_path d)))
     @ le_bytes (as_u64 (length (d_payload d))) @ d_path d @ d_payload d @ print_block (d_metadata d)"

definition print_body :: "parsed_patch \<Rightarrow> bytes" where
  "print_body p = concat (map print_rule (p_rules p)) @ concat (map print_entry (p_entries p))
     @ (if th_root_metadata (p_header p) then print_block (p_root p) else [])"

definition print_patch :: "hasher \<Rightarrow> parsed_patch \<Rightarrow> bytes" where
  "print_patch H p = tree_header_encode H (p_header p) (print_body p) @ print_body p"

section \<open>Codecs\<close>

lemma unat_u32_u64 [simp]: "unat (ucast (n :: u32) :: u64) = unat n"
  using unsigned_less [of n, where 'a = nat]
  by (simp add: unsigned_ucast_eq take_bit_nat_eq_self)

interpretation length32_codec: wire_codec "read_length32 limit" "\<lambda>n. le_bytes (as_u32 n)"
  "\<lambda>n. n < 2 ^ 32 \<and> n \<le> unat limit" for limit
proof unfold_locales
  fix r r' and n :: nat
  assume ok: "reader_ok r"
  have "read_length32 limit r = Inr (n, r') \<longleftrightarrow>
      (\<exists>w. consumes r (le_bytes w) r' \<and> unat w \<le> unat limit \<and> n = unat (w :: u32))"
    using ok by (auto simp: read_length32_def check_length_def result_simps u32_codec.parse_iff
        word_less_nat_alt not_less)
  then show "read_length32 limit r = Inr (n, r') \<longleftrightarrow>
      (n < 2 ^ 32 \<and> n \<le> unat limit) \<and> consumes r (le_bytes (as_u32 n)) r'"
    by (auto simp: u32_count)
qed

lemma operation_then:
  "and_then (operation_try_from t) f = Inr y \<longleftrightarrow> (\<exists>c. t = operation_tag c \<and> f c = Inr y)"
proof -
  have "operation_try_from t = Inr c \<longleftrightarrow> t = operation_tag c" for c
    by (cases c) (auto simp: operation_try_from_def)
  then show ?thesis by (auto simp: and_then_Inr)
qed

lemma action_then:
  "and_then (if t = 1 then Inr Include else if t = 2 then Inr Exclude else Inl e) f = Inr y \<longleftrightarrow>
     (\<exists>a. t = action_tag a \<and> f a = Inr y)"
  by (auto elim: action_tag.elims) (metis action_tag.simps action.exhaust)+

lemma check_length_then:
  "and_then (check_length n limit) f = Inr y \<longleftrightarrow> n \<le> limit \<and> f (unat n) = Inr y"
  by (auto simp: check_length_def not_less)

lemma and_then_unit: "and_then r (\<lambda>_ :: unit. f) = Inr y \<longleftrightarrow> r = Inr () \<and> f = Inr y"
  by (cases r) auto

definition rule_wf :: "limits \<Rightarrow> rule \<Rightarrow> bool" where
  "rule_wf limits x \<longleftrightarrow> rule_pattern x \<noteq> [] \<and> length (rule_pattern x) \<le> unat (max_pattern_bytes limits)
     \<and> from_utf8_ok (rule_pattern x)"

interpretation rule_codec: wire_codec "read_rule limits" print_rule "rule_wf limits" for limits
proof unfold_locales
  fix r r' and x :: rule
  assume ok: "reader_ok r"
  have small: "unat (max_pattern_bytes limits) < 2 ^ 32"
    using unsigned_less [of "max_pattern_bytes limits"] by simp
  have "read_rule limits r = Inr (x, r') \<longleftrightarrow> (\<exists>r1 r2 r3 r4. consumes r [action_tag (rule_action x)] r1
      \<and> consumes r1 [0] r2 \<and> consumes r2 (le_bytes (0 :: u16)) r3
      \<and> consumes r3 (le_bytes (as_u32 (length (rule_pattern x)))) r4 \<and> consumes r4 (rule_pattern x) r'
      \<and> length (rule_pattern x) < 2 ^ 32 \<and> length (rule_pattern x) \<le> unat (max_pattern_bytes limits)
      \<and> rule_pattern x \<noteq> [] \<and> from_utf8_ok (rule_pattern x))"
    using ok
    by (cases x) (auto simp: read_rule_def action_then byte_codec.parse_then u16_codec.parse_then
        length32_codec.parse_then take_codec.parse_then if_err_Inr cong: conj_cong,
        metis length_greater_0_conv)
  also have "\<dots> \<longleftrightarrow> rule_wf limits x \<and> consumes r (print_rule x) r'"
    using ok small
    by (simp add: rule_wf_def print_rule_def print_blob_def consumes_append del: append_Cons cong: conj_cong)
      (auto, blast)
  finally show "read_rule limits r = Inr (x, r') \<longleftrightarrow> rule_wf limits x \<and> consumes r (print_rule x) r'" .
qed

definition block_wf :: "allocator \<Rightarrow> u64 \<Rightarrow> omit \<Rightarrow> metadata \<Rightarrow> bool" where
  "block_wf mem limit omit m \<longleftrightarrow> metadata_canonical m \<and> metadata_typed m \<and> descriptors_granted mem m
     \<and> \<not> has_omitted m omit \<and> length (print_metadata m) < 2 ^ 32
     \<and> length (print_metadata m) \<le> unat limit"

interpretation block_codec: wire_codec "read_block mem limit omit" print_block "block_wf mem limit omit"
  for mem limit omit
proof unfold_locales
  fix r r' and m :: metadata
  assume ok: "reader_ok r"
  have "read_block mem limit omit r = Inr (m, r') \<longleftrightarrow> (\<exists>r1 bs. length bs < 2 ^ 32 \<and> length bs \<le> unat limit
      \<and> consumes r (le_bytes (as_u32 (length bs))) r1 \<and> consumes r1 bs r'
      \<and> metadata_decode mem bs = Inr m \<and> \<not> has_omitted m omit)"
    using ok
    by (simp add: read_block_def length32_codec.parse_then take_codec.parse_then cong: conj_cong)
      (auto simp: result_simps)
  also have "\<dots> \<longleftrightarrow> block_wf mem limit omit m \<and> consumes r (print_block m) r'"
    using ok
    by (simp add: metadata_decode_iff [OF u32_in_memory] block_wf_def print_block_def print_blob_def
        consumes_append cong: conj_cong) auto
  finally show "read_block mem limit omit r = Inr (m, r') \<longleftrightarrow>
      block_wf mem limit omit m \<and> consumes r (print_block m) r'" .
qed

definition entry_wf :: "allocator \<Rightarrow> limits \<Rightarrow> omit \<Rightarrow> decoded_entry \<Rightarrow> bool" where
  "entry_wf mem limits omit d \<longleftrightarrow> d_path d \<noteq> [] \<and> length (d_path d) \<le> unat (max_path_bytes limits)
     \<and> in_memory (d_payload d) \<and> length (d_payload d) \<le> unat (max_payload_bytes limits)
     \<and> block_wf mem (max_payload_bytes limits) omit (d_metadata d)
     \<and> check_payload limits (d_operation d) (d_payload d) (d_metadata d) = Inr ()"

lemma consumes_in_memory: "reader_ok r \<Longrightarrow> consumes r xs r' \<Longrightarrow> in_memory xs"
proof -
  assume "reader_ok r" and "consumes r xs r'"
  then have "length xs \<le> length (remaining r)" by (simp add: consumes_def)
  also have "\<dots> \<le> length (rd_bytes r)" by (simp add: remaining_def)
  finally show "in_memory xs" using \<open>reader_ok r\<close> by (simp add: reader_ok_def in_memory_def)
qed

lemma u64_count: "k = unat (n :: u64) \<longleftrightarrow> k < 2 ^ 64 \<and> n = as_u64 k"
  using unsigned_less [of n, where 'a = nat] by auto

interpretation entry_codec: wire_codec "read_entry mem limits omit" print_entry "entry_wf mem limits omit"
  for mem limits omit
proof unfold_locales
  fix r r' and d :: decoded_entry
  assume ok: "reader_ok r"
  have small: "unat (max_path_bytes limits) < 2 ^ 32"
    using unsigned_less [of "max_path_bytes limits"] by simp
  have "read_entry mem limits omit r = Inr (d, r') \<longleftrightarrow>
    (\<exists>r1 r2 r3 r4 r5 r6 r7 (n :: u64). consumes r [operation_tag (d_operation d)] r1 \<and> consumes r1 [0] r2
      \<and> consumes r2 (le_bytes (d_mode d)) r3
      \<and> consumes r3 (le_bytes (as_u32 (length (d_path d)))) r4
      \<and> consumes r4 (le_bytes n) r5 \<and> consumes r5 (d_path d) r6
      \<and> consumes r6 (d_payload d) r7 \<and> consumes r7 (print_block (d_metadata d)) r'
      \<and> length (d_path d) < 2 ^ 32 \<and> length (d_path d) \<le> unat (max_path_bytes limits)
      \<and> d_path d \<noteq> [] \<and> n \<le> max_payload_bytes limits \<and> length (d_payload d) = unat n
      \<and> block_wf mem (max_payload_bytes limits) omit (d_metadata d)
      \<and> check_payload limits (d_operation d) (d_payload d) (d_metadata d) = Inr ())"
    using ok
    by (cases d) (auto simp: read_entry_def operation_then byte_codec.parse_then u16_codec.parse_then
        u64_codec.parse_then length32_codec.parse_then take_codec.parse_then block_codec.parse_then
        check_length_then if_err_Inr and_then_unit cong: conj_cong,
        (blast intro: length_greater_0_conv [THEN iffD2])+)
  also have "\<dots> \<longleftrightarrow> entry_wf mem limits omit d \<and> consumes r (print_entry d) r'"
    (is "?L \<longleftrightarrow> ?R")
  proof
    assume ?L
    then obtain r1 r2 r3 r4 r5 r6 r7 and n :: u64 where
      c: "consumes r [operation_tag (d_operation d)] r1" "consumes r1 [0] r2"
        "consumes r2 (le_bytes (d_mode d)) r3" "consumes r3 (le_bytes (as_u32 (length (d_path d)))) r4"
        "consumes r4 (le_bytes n) r5" "consumes r5 (d_path d) r6" "consumes r6 (d_payload d) r7"
        "consumes r7 (print_block (d_metadata d)) r'"
      and wf: "length (d_path d) \<le> unat (max_path_bytes limits)" "d_path d \<noteq> []"
        "n \<le> max_payload_bytes limits" "length (d_payload d) = unat n"
        "block_wf mem (max_payload_bytes limits) omit (d_metadata d)"
        "check_payload limits (d_operation d) (d_payload d) (d_metadata d) = Inr ()"
      by blast
    have "n = as_u64 (length (d_payload d))" using wf(4) by simp
    moreover have "in_memory (d_payload d)" using c consumes_in_memory consumes_ok by blast
    moreover have "consumes r (print_entry d) r'"
      unfolding print_entry_def \<open>n = _\<close> [symmetric]
      by (rule consumes_trans [OF c(1) consumes_trans [OF c(2) consumes_trans [OF c(3) consumes_trans
        [OF c(4) consumes_trans [OF c(5) consumes_trans [OF c(6) consumes_trans [OF c(7,8)]]]]]]])
    ultimately show ?R
      using wf by (simp add: entry_wf_def word_le_nat_alt)
  next
    assume ?R
    then have wf: "entry_wf mem limits omit d" and "consumes r (print_entry d) r'" by auto
    from this(2) ok obtain r1 r2 r3 r4 r5 r6 r7 where
      c: "consumes r [operation_tag (d_operation d)] r1" "consumes r1 [0] r2"
        "consumes r2 (le_bytes (d_mode d)) r3" "consumes r3 (le_bytes (as_u32 (length (d_path d)))) r4"
        "consumes r4 (le_bytes (as_u64 (length (d_payload d)))) r5" "consumes r5 (d_path d) r6"
        "consumes r6 (d_payload d) r7" "consumes r7 (print_block (d_metadata d)) r'"
      by (auto simp: print_entry_def consumes_append simp del: append_Cons)
    have "as_u64 (length (d_payload d)) \<le> max_payload_bytes limits"
      "length (d_payload d) = unat (as_u64 (length (d_payload d)))"
      "length (d_path d) < 2 ^ 32" "length (d_path d) \<le> unat (max_path_bytes limits)" "d_path d \<noteq> []"
      "block_wf mem (max_payload_bytes limits) omit (d_metadata d)"
      "check_payload limits (d_operation d) (d_payload d) (d_metadata d) = Inr ()"
      using wf small by (auto simp: entry_wf_def word_le_nat_alt)
    with c show ?L by blast
  qed
  finally show "read_entry mem limits omit r = Inr (d, r') \<longleftrightarrow>
      entry_wf mem limits omit d \<and> consumes r (print_entry d) r'" .
qed

definition root_wf :: "allocator \<Rightarrow> limits \<Rightarrow> tree_header \<Rightarrow> metadata \<Rightarrow> bool" where
  "root_wf mem limits h m \<longleftrightarrow>
     (if th_root_metadata h
      then block_wf mem (max_payload_bytes limits) (th_omit h) m \<and> m \<noteq> metadata_default
        \<and> holes m = [] \<and> hardlink_to m = None
      else m = metadata_default)"

definition print_root :: "tree_header \<Rightarrow> metadata \<Rightarrow> bytes" where
  "print_root h m = (if th_root_metadata h then print_block m else [])"

interpretation root_codec: wire_codec "read_root mem limits h" "print_root h" "root_wf mem limits h"
  for mem limits h
proof unfold_locales
  fix r r' and m :: metadata
  assume "reader_ok r"
  then show "read_root mem limits h r = Inr (m, r') \<longleftrightarrow>
      root_wf mem limits h m \<and> consumes r (print_root h m) r'"
    by (cases "th_root_metadata h")
      (auto simp: read_root_def root_wf_def print_root_def block_codec.parse_then if_err_Inr
        metadata_is_empty_iff)
qed

text \<open>The parsed patches that a reader accepts.\<close>

definition parsed_wf :: "allocator \<Rightarrow> limits \<Rightarrow> parsed_patch \<Rightarrow> bool" where
  "parsed_wf mem limits p \<longleftrightarrow>
     tree_header_typed (p_header p) \<and> th_needed_reader (p_header p) \<le> VERSION
     \<and> length (p_rules p) = unat (th_rule_count (p_header p))
     \<and> th_rule_count (p_header p) \<le> max_rules (l_envelope limits) \<and> mem (length (p_rules p))
     \<and> (\<forall>x \<in> set (p_rules p). rule_wf limits x)
     \<and> (p_rules p \<noteq> [] \<longrightarrow> (\<exists>f. filter_compile mem (p_rules p) = Inr f))
     \<and> length (p_entries p) = unat (th_entry_count (p_header p))
     \<and> th_entry_count (p_header p) \<le> max_entries (l_envelope limits) \<and> mem (length (p_entries p))
     \<and> (\<forall>d \<in> set (p_entries p). entry_wf mem limits (th_omit (p_header p)) d)
     \<and> root_wf mem limits (p_header p) (p_root p)
     \<and> structure_validate decoded_structure (p_entries p) = Inr ()"

lemma length_print_rule: "rule_wf limits x \<Longrightarrow> 9 \<le> length (print_rule x)"
  by (simp add: rule_wf_def print_rule_def print_blob_def Suc_le_eq)

lemma length_print_entry: "entry_wf mem limits omit d \<Longrightarrow> 41 \<le> length (print_entry d)"
  using length_print_metadata [of "d_metadata d"]
  by (cases "d_path d") (simp_all add: entry_wf_def print_entry_def print_block_def print_blob_def)

lemma length_concat_map: "\<forall>x \<in> set xs. k \<le> length (f x) \<Longrightarrow> k * length xs \<le> length (concat (map f xs))"
  by (induction xs) auto

lemma parsed_counts_fit: "parsed_wf mem limits p \<Longrightarrow> counts_fit (p_header p) (print_body p)"
  using length_concat_map [of "p_rules p" 9 print_rule] length_concat_map [of "p_entries p" 41 print_entry]
    length_print_rule length_print_entry
  by (fastforce simp: parsed_wf_def counts_fit_def print_body_def)

lemma filter_check:
  "(if xs \<noteq> [] then and_then (map_err g (filter_compile mem xs)) (\<lambda>_. Inr ()) else Inr ()) = Inr u
    \<longleftrightarrow> (xs \<noteq> [] \<longrightarrow> (\<exists>f. filter_compile mem xs = Inr f))"
  by (auto simp: result_simps)

lemma read_body_iff:
  assumes "in_memory body"
  shows "(\<exists>r1 r2 r3. read_n (unat (th_rule_count h)) (read_rule limits) (read_from body) = Inr (rules, r1)
      \<and> read_n (unat (th_entry_count h)) (read_entry mem limits (th_omit h)) r1 = Inr (entries, r2)
      \<and> read_root mem limits h r2 = Inr (root, r3) \<and> rd_pos r3 = length body) \<longleftrightarrow>
    length rules = unat (th_rule_count h) \<and> (\<forall>x \<in> set rules. rule_wf limits x)
    \<and> length entries = unat (th_entry_count h) \<and> (\<forall>d \<in> set entries. entry_wf mem limits (th_omit h) d)
    \<and> root_wf mem limits h root
    \<and> body = concat (map print_rule rules) @ concat (map print_entry entries) @ print_root h root"
proof -
  have ok: "reader_ok (read_from body)" using assms by simp
  have "(\<exists>r3. consumes (read_from body) (concat (map print_rule rules) @ concat (map print_entry entries)
      @ print_root h root) r3 \<and> rd_pos r3 = length body) \<longleftrightarrow>
    body = concat (map print_rule rules) @ concat (map print_entry entries) @ print_root h root"
    by (rule consumes_all [OF assms])
  moreover have "(\<exists>r3. consumes (read_from body) (concat (map print_rule rules) @ concat (map print_entry entries)
      @ print_root h root) r3 \<and> rd_pos r3 = length body) \<longleftrightarrow>
    (\<exists>r1 r2 r3. consumes (read_from body) (concat (map print_rule rules)) r1
      \<and> consumes r1 (concat (map print_entry entries)) r2 \<and> consumes r2 (print_root h root) r3
      \<and> rd_pos r3 = length body)"
    using ok by (simp add: consumes_append cong: conj_cong) blast
  ultimately show ?thesis
    using ok by (simp add: rule_codec.read_n_iff entry_codec.read_n_iff root_codec.parse_iff
        cong: conj_cong) blast
qed

lemma patch_decode_unfold:
  "patch_decode mem H bs limits = Inr p \<longleftrightarrow> (\<exists>body.
      tree_header_decode_prefix H bs (l_envelope limits) = Inr (p_header p, body)
      \<and> mem (unat (th_rule_count (p_header p))) \<and> mem (unat (th_entry_count (p_header p)))
      \<and> (p_rules p \<noteq> [] \<longrightarrow> (\<exists>f. filter_compile mem (p_rules p) = Inr f))
      \<and> (\<exists>r1 r2 r3. read_n (unat (th_rule_count (p_header p))) (read_rule limits) (read_from body)
            = Inr (p_rules p, r1)
          \<and> read_n (unat (th_entry_count (p_header p))) (read_entry mem limits (th_omit (p_header p))) r1
            = Inr (p_entries p, r2)
          \<and> read_root mem limits (p_header p) r2 = Inr (p_root p, r3) \<and> rd_pos r3 = length body)
      \<and> structure_validate decoded_structure (p_entries p) = Inr ())"
  (is "?L \<longleftrightarrow> ?R")
proof
  assume ?L
  then obtain h body rules r1 entries r2 root r3 where
    "tree_header_decode_prefix H bs (l_envelope limits) = Inr (h, body)"
    "mem (unat (th_rule_count h))" "mem (unat (th_entry_count h))"
    "read_n (unat (th_rule_count h)) (read_rule limits) (read_from body) = Inr (rules, r1)"
    "rules \<noteq> [] \<longrightarrow> (\<exists>f. filter_compile mem rules = Inr f)"
    "read_n (unat (th_entry_count h)) (read_entry mem limits (th_omit h)) r1 = Inr (entries, r2)"
    "read_root mem limits h r2 = Inr (root, r3)" "rd_pos r3 = length body"
    "structure_validate decoded_structure entries = Inr ()"
    and p: "p = \<lparr>p_header = h, p_rules = rules, p_entries = entries, p_root = root\<rparr>"
    unfolding patch_decode_def Let_def and_then_pair_Inr and_then_unit reserve_Inr filter_check
      if_err_Inr map_err_Inr by blast
  then show ?R by auto
next
  assume ?R
  then obtain body r1 r2 r3 where facts:
    "tree_header_decode_prefix H bs (l_envelope limits) = Inr (p_header p, body)"
    "mem (unat (th_rule_count (p_header p)))" "mem (unat (th_entry_count (p_header p)))"
    "read_n (unat (th_rule_count (p_header p))) (read_rule limits) (read_from body) = Inr (p_rules p, r1)"
    "read_n (unat (th_entry_count (p_header p))) (read_entry mem limits (th_omit (p_header p))) r1
       = Inr (p_entries p, r2)"
    "read_root mem limits (p_header p) r2 = Inr (p_root p, r3)" "rd_pos r3 = length body"
    "structure_validate decoded_structure (p_entries p) = Inr ()"
    and f: "p_rules p \<noteq> [] \<longrightarrow> (\<exists>f. filter_compile mem (p_rules p) = Inr f)" by blast
  have "(if p_rules p \<noteq> [] then and_then (map_err FilterError (filter_compile mem (p_rules p))) (\<lambda>_. Inr ())
      else Inr ()) = Inr ()"
    using f filter_check by blast
  with facts show ?L by (simp add: patch_decode_def del: if_split)
qed

lemma patch_decode_iff:
  assumes "hash_width H" and "in_memory bs"
  shows "patch_decode mem H bs limits = Inr p \<longleftrightarrow>
    parsed_wf mem limits p \<and> as_u64 (length bs) \<le> max_patch_bytes (l_envelope limits)
    \<and> bs = print_patch H p"
proof -
  let ?h = "p_header p"
  have body: "in_memory body" if "bs = xs @ body" for xs body
    using that assms(2) by (simp add: in_memory_def)
  have "patch_decode mem H bs limits = Inr p \<longleftrightarrow> (\<exists>body.
      tree_header_decode_prefix H bs (l_envelope limits) = Inr (?h, body)
      \<and> mem (unat (th_rule_count ?h)) \<and> mem (unat (th_entry_count ?h))
      \<and> (p_rules p \<noteq> [] \<longrightarrow> (\<exists>f. filter_compile mem (p_rules p) = Inr f))
      \<and> (\<exists>r1 r2 r3. read_n (unat (th_rule_count ?h)) (read_rule limits) (read_from body) = Inr (p_rules p, r1)
          \<and> read_n (unat (th_entry_count ?h)) (read_entry mem limits (th_omit ?h)) r1 = Inr (p_entries p, r2)
          \<and> read_root mem limits ?h r2 = Inr (p_root p, r3) \<and> rd_pos r3 = length body)
      \<and> structure_validate decoded_structure (p_entries p) = Inr ())"
    by (rule patch_decode_unfold)
  also have "\<dots> \<longleftrightarrow> (\<exists>body.
      tree_header_decode_prefix H bs (l_envelope limits) = Inr (?h, body)
      \<and> parsed_wf mem limits p \<and> body = print_body p)"
  proof (rule ex_cong1, rule conj_cong [OF refl])
    fix body
    assume "tree_header_decode_prefix H bs (l_envelope limits) = Inr (?h, body)"
    then have h: "tree_header_typed ?h" "th_needed_reader ?h \<le> VERSION"
      "th_rule_count ?h \<le> max_rules (l_envelope limits)" "th_entry_count ?h \<le> max_entries (l_envelope limits)"
      and mem: "in_memory body"
      using body by (auto simp: tree_header_decode_iff [OF assms])
    show "(mem (unat (th_rule_count ?h)) \<and> mem (unat (th_entry_count ?h))
      \<and> (p_rules p \<noteq> [] \<longrightarrow> (\<exists>f. filter_compile mem (p_rules p) = Inr f))
      \<and> (\<exists>r1 r2 r3. read_n (unat (th_rule_count ?h)) (read_rule limits) (read_from body) = Inr (p_rules p, r1)
          \<and> read_n (unat (th_entry_count ?h)) (read_entry mem limits (th_omit ?h)) r1 = Inr (p_entries p, r2)
          \<and> read_root mem limits ?h r2 = Inr (p_root p, r3) \<and> rd_pos r3 = length body)
      \<and> structure_validate decoded_structure (p_entries p) = Inr ()) =
      (parsed_wf mem limits p \<and> body = print_body p)"
      unfolding read_body_iff [OF mem] parsed_wf_def print_body_def print_root_def [symmetric]
      using h by (simp cong: conj_cong) argo
  qed
  also have "\<dots> \<longleftrightarrow> parsed_wf mem limits p \<and> as_u64 (length bs) \<le> max_patch_bytes (l_envelope limits)
      \<and> bs = print_patch H p"
    using parsed_counts_fit [of mem limits p]
    by (auto simp: tree_header_decode_iff [OF assms] print_patch_def parsed_wf_def)
  finally show ?thesis .
qed

section \<open>Properties of parsing\<close>

text \<open>C7. The patch grammar is a bijective codec: a byte string parses to a patch if and only if the
  patch is well formed under the limits (counts, lengths, valid rules that compile, canonical metadata
  without omitted families, payloads that fit their operation, a closed sorted tree) and the byte
  string is its sealed serialization. So there is one serialization per patch, no trailing bytes, and
  nothing else is accepted.\<close>

theorem tree_patch_codec:
  assumes "hash_width H" and "in_memory bs"
  shows "patch_decode mem H bs limits = Inr p \<longleftrightarrow>
    parsed_wf mem limits p \<and> as_u64 (length bs) \<le> max_patch_bytes (l_envelope limits)
    \<and> bs = print_patch H p"
  using assms by (rule patch_decode_iff)

definition empty_patch :: parsed_patch where
  "empty_patch = \<lparr>p_header = \<lparr>th_needed_reader = 2, th_root_metadata = False, th_omit = 0,
       th_rule_count = 0, th_entry_count = 0, th_source_hash = replicate 32 1,
       th_target_hash = replicate 32 2\<rparr>,
     p_rules = [], p_entries = [], p_root = metadata_default\<rparr>"

lemma empty_patch_wf: "parsed_wf (\<lambda>_. True) limits_default empty_patch"
proof -
  have "omit_from_bits 0 = Inr 0" "structure_validate decoded_structure [] = Inr ()" by code_simp+
  then show ?thesis
    by (simp add: parsed_wf_def empty_patch_def tree_header_typed_def VERSION_def root_wf_def)
qed

lemma empty_patch_size: "length (print_patch padded_hash empty_patch) = 120"
  by code_simp

lemma empty_patch_fits: "as_u64 120 \<le> max_patch_bytes (l_envelope limits_default)"
  by (simp add: limits_default_def envelope_limits_default_def as_u64_def)

theorem tree_patch_codec_witness:
  "patch_decode (\<lambda>_. True) padded_hash (print_patch padded_hash empty_patch) limits_default = Inr empty_patch"
proof -
  have "in_memory (print_patch padded_hash empty_patch)" by (simp add: in_memory_def empty_patch_size)
  from tree_patch_codec [OF padded_hash_width this, of "\<lambda>_. True" limits_default empty_patch] show ?thesis
    by (simp add: empty_patch_wf empty_patch_size empty_patch_fits)
qed

text \<open>C8. A sealed patch is tamper evident: two accepted byte strings that agree on the 32-byte checksum
  field are the same patch, unless the hash function collides on the two sealed texts.\<close>

theorem tree_patch_tamper_evident:
  assumes width: "hash_width H" and size: "in_memory bs" "in_memory bs'"
    and p: "patch_decode mem H bs limits = Inr p" "patch_decode mem' H bs' limits' = Inr p'"
    and sum: "take 32 (drop 88 bs) = take 32 (drop 88 bs')"
    and collision_free: "inj_on H ((\<lambda>p. ascii ''DIFZTREE-PATCH'' @ [2] @ tree_header_prefix (p_header p)
      @ print_body p) ` {p, p'})"
  shows "bs = bs'"
proof -
  have wf: "parsed_wf mem limits p" "parsed_wf mem' limits' p'" "bs = print_patch H p" "bs' = print_patch H p'"
    using p patch_decode_iff [OF width] size by blast+
  have typed: "tree_header_typed (p_header p)" "tree_header_typed (p_header p')"
    using wf(1,2) by (simp_all add: parsed_wf_def)
  have field: "take 32 (drop 88 (print_patch H p)) = checksum H (tree_header_prefix (p_header p)) (print_body p)"
    if "tree_header_typed (p_header p)" for p
    using width length_tree_header_prefix [OF that]
    by (simp add: print_patch_def tree_header_encode_def checksum_def hash_width_def)
  have "tree_header_prefix (p_header p) @ print_body p = tree_header_prefix (p_header p') @ print_body p'"
    using sum inj_onD [OF collision_free] unfolding wf(3,4) field [OF typed(1)] field [OF typed(2)] checksum_def
    by (metis (no_types, lifting) imageI insertI1 insertI2 same_append_eq singletonI)
  then show "bs = bs'"
    using length_tree_header_prefix typed
    by (simp add: wf(3,4) print_patch_def tree_header_encode_def append_eq_append_conv)
qed

definition older_patch :: parsed_patch where
  "older_patch = empty_patch\<lparr>p_header := (p_header empty_patch)\<lparr>th_needed_reader := 1\<rparr>\<rparr>"

lemma older_patch_wf: "parsed_wf (\<lambda>_. True) limits_default older_patch"
  using empty_patch_wf
  by (simp add: parsed_wf_def older_patch_def empty_patch_def tree_header_typed_def VERSION_def root_wf_def)

lemma older_patch_size: "length (print_patch padded_hash older_patch) = 120"
  by code_simp

theorem tree_patch_tamper_evident_witness:
  "take 32 (drop 88 (print_patch padded_hash empty_patch)) \<noteq> take 32 (drop 88 (print_patch padded_hash older_patch))"
proof
  assume sum: "take 32 (drop 88 (print_patch padded_hash empty_patch))
    = take 32 (drop 88 (print_patch padded_hash older_patch))"
  have "patch_decode (\<lambda>_. True) padded_hash (print_patch padded_hash empty_patch) limits_default = Inr empty_patch"
    "patch_decode (\<lambda>_. True) padded_hash (print_patch padded_hash older_patch) limits_default = Inr older_patch"
    by (simp_all add: patch_decode_iff [OF padded_hash_width] in_memory_def empty_patch_wf older_patch_wf
        empty_patch_size older_patch_size empty_patch_fits)
  moreover have "inj_on padded_hash (set (map (\<lambda>p. ascii ''DIFZTREE-PATCH'' @ [2]
      @ tree_header_prefix (p_header p) @ print_body p) [empty_patch, older_patch]))"
    unfolding inj_on_def by code_simp
  ultimately have "print_patch padded_hash empty_patch = print_patch padded_hash older_patch"
    using tree_patch_tamper_evident [OF padded_hash_width _ _ _ _ sum]
    by (simp add: in_memory_def empty_patch_size older_patch_size)
  moreover have "print_patch padded_hash empty_patch \<noteq> print_patch padded_hash older_patch" by code_simp
  ultimately show False by simp
qed

end
