(* ===== verification/Tree_Patch_Encode.thy ===== *)
theory Tree_Patch_Encode
  imports Tree_Patch_Decode
begin

text \<open>
  Creation of a tree patch (\<open>rust/src/tree_patch_encode.rs\<close>): the projection of a snapshot onto
  the retained metadata families, the choice of an operation per target entry, and the bounded
  writer. The writer is its byte vector; the maximum is an argument.
\<close>

record create_options =
  o_rules :: "rule list"
  o_omit :: omit

section \<open>Projection\<close>

fun project_entries :: "allocator \<Rightarrow> omit \<Rightarrow> entry list \<Rightarrow> tree_error + entry list" where
  "project_entries mem omit [] = Inr []"
| "project_entries mem omit (e # es) =
     and_then (map_err MetadataError (borrowing_omitting mem (e_metadata e) omit)) (\<lambda>m.
     and_then (project_entries mem omit es) (\<lambda>ps. Inr (e\<lparr>e_metadata := m\<rparr> # ps)))"

definition project :: "allocator \<Rightarrow> snapshot \<Rightarrow> omit \<Rightarrow> tree_error + snapshot" where
  "project mem s omit =
     and_then (reserve mem (length (s_entries s)) OutOfMemory) (\<lambda>_.
     and_then (project_entries mem omit (s_entries s)) (\<lambda>es.
     and_then (map_err MetadataError (borrowing_omitting mem (s_root s) omit)) (\<lambda>root.
     map_err SnapshotError (snapshot_new \<lparr>s_entries = es, s_root = root\<rparr>))))"

section \<open>The writer\<close>

definition writer_put :: "allocator \<Rightarrow> u64 \<Rightarrow> bytes \<Rightarrow> bytes \<Rightarrow> tree_error + bytes" where
  "writer_put mem maximum bs out =
     and_then (ok_or LimitExceeded (checked_add_usize (length out) (length bs))) (\<lambda>n.
     if as_u64 n > maximum then Inl LimitExceeded
     else and_then (reserve mem (length bs) OutOfMemory) (\<lambda>_. Inr (out @ bs)))"

text \<open>Consecutive writes.\<close>

fun writer_puts :: "allocator \<Rightarrow> u64 \<Rightarrow> bytes list \<Rightarrow> bytes \<Rightarrow> tree_error + bytes" where
  "writer_puts mem maximum [] out = Inr out"
| "writer_puts mem maximum (bs # bss) out =
     and_then (writer_put mem maximum bs out) (writer_puts mem maximum bss)"

definition writer_metadata ::
  "allocator \<Rightarrow> u64 \<Rightarrow> metadata \<Rightarrow> u64 \<Rightarrow> bytes \<Rightarrow> tree_error + bytes" where
  "writer_metadata mem maximum m limit out =
     and_then (map_err MetadataError (metadata_encode mem m)) (\<lambda>bs.
     if as_u64 (length bs) > limit then Inl LimitExceeded
     else and_then (ok_or LimitExceeded (u32_try_from (length bs))) (\<lambda>n.
       writer_puts mem maximum [le_bytes n, bs] out))"

section \<open>Creation\<close>

definition choose_operation ::
  "allocator \<Rightarrow> ('c, 'd) native \<Rightarrow> hasher \<Rightarrow> limits \<Rightarrow> snapshot \<Rightarrow> entry \<Rightarrow> tree_error + operation \<times> bytes" where
  "choose_operation mem N H limits source e =
     (case e_content e of
        Directory _ \<Rightarrow> Inr (Op_Directory, [])
      | Symlink target \<Rightarrow>
          if as_u64 (length target) > max_symlink_bytes limits then Inl LimitExceeded
          else Inr (Op_Symlink, target)
      | File _ bs \<Rightarrow>
          (case hardlink_to (e_metadata e) of
             Some link \<Rightarrow> Inr (Op_FileHardlink, link)
           | None \<Rightarrow>
               (case map_option (\<lambda>i. e_content (s_entries source ! i))
                       (find_path entry_structure (s_entries source) (e_path e)) of
                  Some (File _ previous) \<Rightarrow>
                    if previous = bs then Inr (Op_FileCopy, [])
                    else and_then (map_err FileError (file_encode mem N H previous bs))
                           (\<lambda>delta. Inr (Op_FileDelta, delta))
                | _ \<Rightarrow> Inr (Op_FileRaw, bs))))"

fun write_rules :: "allocator \<Rightarrow> limits \<Rightarrow> rule list \<Rightarrow> bytes \<Rightarrow> tree_error + bytes" where
  "write_rules mem limits [] out = Inr out"
| "write_rules mem limits (x # xs) out =
     (if rule_pattern x = [] \<or> as_u64 (length (rule_pattern x)) > ucast (max_pattern_bytes limits)
      then Inl LimitExceeded
      else and_then (writer_puts mem (max_patch_bytes (l_envelope limits))
          [[action_tag (rule_action x), 0, 0, 0], le_bytes (as_u32 (length (rule_pattern x))),
           rule_pattern x] out)
        (write_rules mem limits xs))"

definition write_entry :: "allocator \<Rightarrow> ('c, 'd) native \<Rightarrow> hasher \<Rightarrow> limits \<Rightarrow> snapshot \<Rightarrow> entry \<Rightarrow> bytes
    \<Rightarrow> tree_error + bytes" where
  "write_entry mem N H limits source e out =
     and_then (choose_operation mem N H limits source e) (\<lambda>(operation, payload).
     if as_u64 (length payload) > max_payload_bytes limits then Inl LimitExceeded
     else and_then (writer_puts mem (max_patch_bytes (l_envelope limits))
         [[operation_tag operation, 0], le_bytes (content_mode (e_content e)),
          le_bytes (as_u32 (length (e_path e))), le_bytes (as_u64 (length payload)), e_path e, payload] out)
       (writer_metadata mem (max_patch_bytes (l_envelope limits)) (e_metadata e) (max_payload_bytes limits)))"

fun write_entries :: "allocator \<Rightarrow> ('c, 'd) native \<Rightarrow> hasher \<Rightarrow> limits \<Rightarrow> snapshot \<Rightarrow> entry list \<Rightarrow> bytes
    \<Rightarrow> tree_error + bytes" where
  "write_entries mem N H limits source [] out = Inr out"
| "write_entries mem N H limits source (e # es) out =
     and_then (write_entry mem N H limits source e out) (write_entries mem N H limits source es)"

definition create_header :: "hasher \<Rightarrow> snapshot \<Rightarrow> snapshot \<Rightarrow> create_options \<Rightarrow> tree_header" where
  "create_header H source target options =
     \<lparr>th_needed_reader = 2, th_root_metadata = (\<not> metadata_is_empty (s_root target)),
      th_omit = o_omit options, th_rule_count = as_u32 (length (o_rules options)),
      th_entry_count = as_u32 (length (s_entries target)),
      th_source_hash = snapshot_hash H source, th_target_hash = snapshot_hash H target\<rparr>"

text \<open>The part of \<open>create\<close> after the projection of both snapshots.\<close>

definition create_projected :: "allocator \<Rightarrow> ('c, 'd) native \<Rightarrow> hasher \<Rightarrow> snapshot \<Rightarrow> snapshot
    \<Rightarrow> create_options \<Rightarrow> tree_error + bytes" where
  "create_projected mem N H source target options =
     (let limits = limits_default in
      if as_u64 (length (o_rules options)) > ucast (max_rules (l_envelope limits)) then Inl LimitExceeded
      else and_then (map_err FilterError (filter_compile mem (o_rules options))) (\<lambda>_.
        let header = create_header H source target options in
        and_then (writer_put mem (max_patch_bytes (l_envelope limits)) (replicate TREE_HEADER_LEN 0) []) (\<lambda>out.
        and_then (write_rules mem limits (o_rules options) out) (\<lambda>out.
        and_then (write_entries mem N H limits source (s_entries target) out) (\<lambda>out.
        and_then (if th_root_metadata header
            then writer_metadata mem (max_patch_bytes (l_envelope limits)) (s_root target)
                   (max_payload_bytes limits) out
            else Inr out) (\<lambda>out.
        Inr (tree_header_encode H header (drop TREE_HEADER_LEN out) @ drop TREE_HEADER_LEN out)))))))"

definition create :: "allocator \<Rightarrow> ('c, 'd) native \<Rightarrow> hasher \<Rightarrow> snapshot \<Rightarrow> snapshot \<Rightarrow> create_options
    \<Rightarrow> tree_error + bytes" where
  "create mem N H source target options =
     (if o_omit options = 0 then create_projected mem N H source target options
      else
        and_then (project mem source (o_omit options)) (\<lambda>source.
        and_then (project mem target (o_omit options)) (\<lambda>target.
        create_projected mem N H source target options)))"

section \<open>Projection lemmas\<close>

definition projection :: "omit \<Rightarrow> snapshot \<Rightarrow> snapshot" where
  "projection omit s =
     \<lparr>s_entries = map (\<lambda>e. e\<lparr>e_metadata := omit_families omit (e_metadata e)\<rparr>) (s_entries s),
      s_root = omit_families omit (s_root s)\<rparr>"

lemma projection_none [simp]: "projection 0 s = s"
  by (simp add: projection_def)

lemma projection_contents:
  "map e_path (s_entries (projection omit s)) = map e_path (s_entries s)"
  "map e_content (s_entries (projection omit s)) = map e_content (s_entries s)"
  by (simp_all add: projection_def)

lemma typed_omit: "metadata_typed m \<Longrightarrow> metadata_typed (omit_families omit m)"
  by (simp add: metadata_typed_def)

lemma length_concat_chunks_omit:
  "length (concat (write_chunks (omit_families omit m))) \<le> length (concat (write_chunks m))"
proof -
  have times: "length (concat (times_chunks times_default)) \<le> length (concat (times_chunks t))" for t
    by (simp add: times_chunks_def times_default_def time_values_def List.map_filter_def)
  show ?thesis
    using times [of "mtimes m"]
    by (auto simp: write_chunks_def native_acl_chunks_def finder_info_chunks_def hardlink_chunks_def
        split: option.splits)
qed

lemma held_omit: "metadata_held m \<Longrightarrow> metadata_held (omit_families omit m)"
  using length_concat_chunks_omit [of omit m]
  by (simp add: metadata_held_def canonical_omit typed_omit in_memory_def)

lemma projection_held: "snapshot_held s \<Longrightarrow> snapshot_held (projection omit s)"
  by (auto simp: snapshot_held_def projection_def held_omit)

lemma entry_structure_metadata [simp]: "entry_structure (e\<lparr>e_metadata := m\<rparr>) = entry_structure e"
  by (simp add: entry_structure_def split: content.splits)

lemma projection_canonical:
  assumes "snapshot_canonical s"
  shows "snapshot_canonical (projection omit s)"
proof -
  let ?f = "\<lambda>e. e\<lparr>e_metadata := omit_families omit (e_metadata e)\<rparr>"
  have "tree_wf entry_structure (map ?f es) \<longleftrightarrow> tree_wf entry_structure es" for es
    by (simp add: tree_wf_def comp_def)
  moreover have "extents_ok e \<Longrightarrow> extents_ok (?f e)" for e
    by (simp add: extents_ok_def)
  moreover have "hardlink_ok es e \<Longrightarrow> hardlink_ok (map ?f es) (?f e)" for es e
    by (fastforce simp: hardlink_ok_def shared_metadata_equal_def)
  ultimately show ?thesis
    using assms by (auto simp: snapshot_canonical_def projection_def)
qed

lemma borrowing_Inr:
  "metadata_canonical m \<Longrightarrow> borrowing_omitting mem m omit = Inr m' \<Longrightarrow> m' = omit_families omit m"
  by (auto simp: borrowing_omitting_canonical split: if_splits)

lemma project_entries_Inr:
  "\<forall>e \<in> set es. metadata_canonical (e_metadata e) \<Longrightarrow> project_entries mem omit es = Inr ps \<Longrightarrow>
     ps = map (\<lambda>e. e\<lparr>e_metadata := omit_families omit (e_metadata e)\<rparr>) es"
  by (induction es arbitrary: ps) (auto simp: result_simps dest: borrowing_Inr)

lemma project_entries_granted:
  "\<forall>e \<in> set es. metadata_canonical (e_metadata e) \<Longrightarrow> \<forall>n. mem n \<Longrightarrow>
     project_entries mem omit es = Inr (map (\<lambda>e. e\<lparr>e_metadata := omit_families omit (e_metadata e)\<rparr>) es)"
  by (induction es) (auto simp: borrowing_omitting_canonical)

lemma held_canonical:
  "snapshot_held s \<Longrightarrow> metadata_canonical (s_root s)"
  "snapshot_held s \<Longrightarrow> \<forall>e \<in> set (s_entries s). metadata_canonical (e_metadata e)"
  by (auto simp: snapshot_held_def metadata_held_def)

lemma project_Inr:
  assumes "snapshot_held s" and "project mem s omit = Inr t"
  shows "t = projection omit s"
proof -
  obtain es root where "project_entries mem omit (s_entries s) = Inr es"
    and "borrowing_omitting mem (s_root s) omit = Inr root"
    and "snapshot_new \<lparr>s_entries = es, s_root = root\<rparr> = Inr t"
    using assms(2) by (auto simp: project_def result_simps)
  then show ?thesis
    using project_entries_Inr [OF held_canonical(2) [OF assms(1)]] borrowing_Inr [OF held_canonical(1) [OF assms(1)]]
    by (auto simp: projection_def snapshot_new_def result_simps)
qed

lemma project_granted:
  assumes "snapshot_held s" "snapshot_canonical s" and "\<forall>n. mem n"
  shows "project mem s omit = Inr (projection omit s)"
proof -
  have "snapshot_new (projection omit s) = Inr (projection omit s)"
    using snapshot_new_iff [OF projection_held [OF assms(1)]] projection_canonical [OF assms(2)] by simp
  moreover have "mem = (\<lambda>_. True)" using assms(3) by auto
  ultimately show ?thesis
    using project_entries_granted [OF held_canonical(2) [OF assms(1)], of "\<lambda>_. True" omit]
      held_canonical(1) [OF assms(1)]
    by (simp add: project_def borrowing_omitting_canonical projection_def)
qed

lemma omit_not_present: "\<not> has_omitted (omit_families omit m) omit"
  by (auto simp: has_omitted_def list_ex_iff family_all_def times_default_def)

section \<open>Writer lemmas\<close>

lemma writer_put_Inr:
  assumes "writer_put mem maximum bs out = Inr out'"
  shows "out' = out @ bs \<and> length out' \<le> unat maximum"
proof -
  have "out' = out @ bs" "length out + length bs < 2 ^ 64" "as_u64 (length out + length bs) \<le> maximum"
    using assms by (auto simp: writer_put_def result_simps checked_add_usize_def not_less split: if_splits)
  then show ?thesis by (simp add: word_le_nat_alt)
qed

lemma writer_puts_Inr:
  "writer_puts mem maximum bss out = Inr out' \<Longrightarrow> length out \<le> unat maximum \<Longrightarrow>
     out' = out @ concat bss \<and> length out' \<le> unat maximum"
proof (induction bss arbitrary: out)
  case (Cons bs bss)
  then obtain o1 where "writer_put mem maximum bs out = Inr o1" "writer_puts mem maximum bss o1 = Inr out'"
    by (auto simp: and_then_Inr)
  then show ?case using writer_put_Inr [of mem maximum bs out o1] Cons.IH [of o1] by auto
qed simp

lemma writer_metadata_Inr:
  assumes "writer_metadata mem maximum m limit out = Inr out'" and "length out \<le> unat maximum"
  shows "out' = out @ print_block m \<and> length out' \<le> unat maximum
    \<and> length (print_metadata m) < 2 ^ 32 \<and> length (print_metadata m) \<le> unat limit"
proof -
  let ?n = "length (print_metadata m)"
  from assms(1) have n: "?n < 2 ^ 32" "as_u64 ?n \<le> limit"
    and w: "writer_puts mem maximum [le_bytes (as_u32 ?n), print_metadata m] out = Inr out'"
    by (auto simp: writer_metadata_def result_simps metadata_encode_iff u32_try_from_def not_less
        as_u32_def simp del: writer_puts.simps split: if_splits)
  have "?n \<le> unat limit" using n by (simp add: word_le_nat_alt)
  then show ?thesis
    using n writer_puts_Inr [OF w assms(2)] by (auto simp: print_block_def print_blob_def)
qed

lemma le_bytes_zero16: "le_bytes (0 :: u16) = [0, 0]"
  by code_simp

lemma write_rules_Inr:
  assumes "unat maximum < 2 ^ 64" "max_patch_bytes (l_envelope limits) = maximum"
  shows "write_rules mem limits xs out = Inr out' \<Longrightarrow> length out \<le> unat maximum \<Longrightarrow>
    out' = out @ concat (map print_rule xs) \<and> length out' \<le> unat maximum
    \<and> (\<forall>x \<in> set xs. rule_pattern x \<noteq> [] \<and> length (rule_pattern x) \<le> unat (max_pattern_bytes limits))"
proof (induction xs arbitrary: out)
  case (Cons x xs)
  let ?chunks = "[[action_tag (rule_action x), 0, 0, 0], le_bytes (as_u32 (length (rule_pattern x))), rule_pattern x]"
  from Cons.prems obtain o1 where ok: "rule_pattern x \<noteq> []"
      "as_u64 (length (rule_pattern x)) \<le> ucast (max_pattern_bytes limits)"
    and o1: "writer_puts mem maximum ?chunks out = Inr o1" "write_rules mem limits xs o1 = Inr out'"
    by (auto simp: and_then_Inr not_less assms(2) simp del: writer_puts.simps split: if_splits)
  note w = writer_puts_Inr [OF o1(1) Cons.prems(2)]
  have "concat ?chunks = print_rule x"
    by (simp add: print_rule_def print_blob_def le_bytes_zero16)
  moreover have "length (rule_pattern x) < 2 ^ 64" using w assms(1) by auto
  then have "length (rule_pattern x) \<le> unat (max_pattern_bytes limits)"
    using ok(2) by (simp add: word_le_nat_alt)
  ultimately show ?case using Cons.IH [OF o1(2)] w ok(1) by auto
qed simp

section \<open>What creation writes\<close>

text \<open>A patch entry that stands for a target entry.\<close>

definition encodes :: "allocator \<Rightarrow> ('c, 'd) native \<Rightarrow> hasher \<Rightarrow> limits \<Rightarrow> snapshot \<Rightarrow> entry
    \<Rightarrow> decoded_entry \<Rightarrow> bool" where
  "encodes mem N H limits source e d \<longleftrightarrow>
     choose_operation mem N H limits source e = Inr (d_operation d, d_payload d)
     \<and> d_path d = e_path e \<and> d_mode d = content_mode (e_content e) \<and> d_metadata d = e_metadata e
     \<and> in_memory (d_payload d) \<and> length (d_payload d) \<le> unat (max_payload_bytes limits)
     \<and> length (print_metadata (e_metadata e)) < 2 ^ 32
     \<and> length (print_metadata (e_metadata e)) \<le> unat (max_payload_bytes limits)"

lemma write_entry_Inr:
  assumes "unat (max_patch_bytes (l_envelope limits)) < 2 ^ 63"
    and "write_entry mem N H limits source e out = Inr out'"
    and "length out \<le> unat (max_patch_bytes (l_envelope limits))"
  shows "\<exists>d. encodes mem N H limits source e d \<and> out' = out @ print_entry d
    \<and> length out' \<le> unat (max_patch_bytes (l_envelope limits))"
proof -
  let ?max = "max_patch_bytes (l_envelope limits)"
  from assms(2) obtain op payload o1 where
    op: "choose_operation mem N H limits source e = Inr (op, payload)"
    and small: "as_u64 (length payload) \<le> max_payload_bytes limits"
    and o1: "writer_puts mem ?max [[operation_tag op, 0], le_bytes (content_mode (e_content e)),
        le_bytes (as_u32 (length (e_path e))), le_bytes (as_u64 (length payload)), e_path e, payload] out = Inr o1"
    and m: "writer_metadata mem ?max (e_metadata e) (max_payload_bytes limits) o1 = Inr out'"
    by (auto simp: write_entry_def and_then_pair_Inr and_then_Inr not_less simp del: writer_puts.simps
        split: if_splits)
  let ?d = "\<lparr>d_path = e_path e, d_mode = content_mode (e_content e), d_operation = op,
    d_payload = payload, d_metadata = e_metadata e\<rparr>"
  note w = writer_puts_Inr [OF o1 assms(3)]
  have wm: "out' = o1 @ print_block (e_metadata e)" "length out' \<le> unat ?max"
    "length (print_metadata (e_metadata e)) < 2 ^ 32"
    "length (print_metadata (e_metadata e)) \<le> unat (max_payload_bytes limits)"
    using writer_metadata_Inr [OF m] w by blast+
  have "in_memory payload" using w assms(1) by (auto simp: in_memory_def)
  then have "length payload \<le> unat (max_payload_bytes limits)"
    using small by (simp add: word_le_nat_alt)
  then have "encodes mem N H limits source e ?d"
    using op wm w \<open>in_memory payload\<close> by (simp add: encodes_def)
  moreover have "out' = out @ print_entry ?d" using w wm by (auto simp: print_entry_def)
  ultimately show ?thesis using wm w by blast
qed

lemma write_entries_Inr:
  assumes "unat (max_patch_bytes (l_envelope limits)) < 2 ^ 63"
  shows "write_entries mem N H limits source es out = Inr out' \<Longrightarrow>
    length out \<le> unat (max_patch_bytes (l_envelope limits)) \<Longrightarrow>
    \<exists>ds. list_all2 (encodes mem N H limits source) es ds \<and> out' = out @ concat (map print_entry ds)
      \<and> length out' \<le> unat (max_patch_bytes (l_envelope limits))"
proof (induction es arbitrary: out)
  case (Cons e es)
  then obtain o1 where o1: "write_entry mem N H limits source e out = Inr o1"
    "write_entries mem N H limits source es o1 = Inr out'" by (auto simp: and_then_Inr)
  from write_entry_Inr [OF assms o1(1) Cons.prems(2)] obtain d where
    d: "encodes mem N H limits source e d" "o1 = out @ print_entry d"
      "length o1 \<le> unat (max_patch_bytes (l_envelope limits))" by blast
  from Cons.IH [OF o1(2) d(3)] obtain ds where "list_all2 (encodes mem N H limits source) es ds"
    "out' = o1 @ concat (map print_entry ds)" "length out' \<le> unat (max_patch_bytes (l_envelope limits))"
    by blast
  with d show ?case by (intro exI [of _ "d # ds"]) auto
qed simp

lemma limits_default_values:
  "unat (max_patch_bytes (l_envelope limits_default)) = 2 ^ 34"
  "unat (max_rules (l_envelope limits_default)) = 4096"
  "unat (max_entries (l_envelope limits_default)) = 1000000"
  "unat (max_path_bytes limits_default) = 4096"
  "unat (max_pattern_bytes limits_default) = 4096"
  by (simp_all add: limits_default_def envelope_limits_default_def)

definition created_patch :: "hasher \<Rightarrow> snapshot \<Rightarrow> snapshot \<Rightarrow> create_options \<Rightarrow> decoded_entry list
    \<Rightarrow> parsed_patch" where
  "created_patch H source target options ds =
     \<lparr>p_header = create_header H source target options, p_rules = o_rules options, p_entries = ds,
      p_root = s_root target\<rparr>"

lemma create_projected_Inr:
  assumes "create_projected mem N H source target options = Inr patch"
    and rules: "\<forall>x \<in> set (o_rules options). in_memory (rule_pattern x)" "in_memory (o_rules options)"
    and width: "hash_width H" and omit: "omit_from_bits (o_omit options) = Inr (o_omit options)"
  shows "\<exists>ds. list_all2 (encodes mem N H limits_default source) (s_entries target) ds
    \<and> patch = print_patch H (created_patch H source target options ds)
    \<and> length patch \<le> 2 ^ 34 \<and> length (o_rules options) \<le> 4096
    \<and> (\<exists>f. filter_compile mem (o_rules options) = Inr f)
    \<and> (\<forall>x \<in> set (o_rules options). rule_pattern x \<noteq> [] \<and> length (rule_pattern x) \<le> 4096)
    \<and> (\<not> metadata_is_empty (s_root target) \<longrightarrow> length (print_metadata (s_root target)) < 2 ^ 32
         \<and> length (print_metadata (s_root target)) \<le> unat (max_payload_bytes limits_default))"
proof -
  let ?max = "max_patch_bytes (l_envelope limits_default)"
  let ?h = "create_header H source target options"
  let ?root = "\<lambda>out. if th_root_metadata ?h
      then writer_metadata mem ?max (s_root target) (max_payload_bytes limits_default) out else Inr out"
  from assms(1) obtain f o1 o2 o3 o4 where
    count: "as_u64 (length (o_rules options)) \<le> ucast (max_rules (l_envelope limits_default))"
    and f: "filter_compile mem (o_rules options) = Inr f"
    and o1: "writer_put mem ?max (replicate TREE_HEADER_LEN 0) [] = Inr o1"
    and o2: "write_rules mem limits_default (o_rules options) o1 = Inr o2"
    and o3: "write_entries mem N H limits_default source (s_entries target) o2 = Inr o3"
    and o4: "?root o3 = Inr o4"
    and patch: "patch = tree_header_encode H ?h (drop TREE_HEADER_LEN o4) @ drop TREE_HEADER_LEN o4"
    unfolding create_projected_def Let_def if_err_Inr and_then_Inr map_err_Inr not_less by blast
  note w1 = writer_put_Inr [OF o1]
  have w2: "o2 = o1 @ concat (map print_rule (o_rules options)) \<and> length o2 \<le> unat ?max
    \<and> (\<forall>x \<in> set (o_rules options). rule_pattern x \<noteq> [] \<and> length (rule_pattern x) \<le> 4096)"
    using write_rules_Inr [OF _ refl o2] w1 by (auto simp: limits_default_values TREE_HEADER_LEN_def)
  obtain ds where ds: "list_all2 (encodes mem N H limits_default source) (s_entries target) ds"
    "o3 = o2 @ concat (map print_entry ds)" "length o3 \<le> unat ?max"
    using write_entries_Inr [OF _ o3] w2 by (auto simp: limits_default_values)
  have w4: "o4 = o3 @ print_root ?h (s_root target) \<and> length o4 \<le> unat ?max
    \<and> (th_root_metadata ?h \<longrightarrow> length (print_metadata (s_root target)) < 2 ^ 32
         \<and> length (print_metadata (s_root target)) \<le> unat (max_payload_bytes limits_default))"
    using o4 ds(3) writer_metadata_Inr [of mem ?max "s_root target" "max_payload_bytes limits_default" o3 o4]
    by (auto simp: print_root_def split: if_splits)
  have body: "drop TREE_HEADER_LEN o4 = print_body (created_patch H source target options ds)"
    using w1 w2 ds(2) w4 by (auto simp: print_body_def created_patch_def print_root_def)
  have typed: "tree_header_typed ?h"
    using width omit by (simp add: tree_header_typed_def create_header_def snapshot_hash_def hash_width_def)
  have "length patch = length o4"
    using tree_header_encode_length [OF width typed] w1 w2 ds(2) w4
    by (auto simp: patch TREE_HEADER_LEN_def)
  moreover have "length (o_rules options) \<le> 4096"
    using count rules(2) by (simp add: word_le_nat_alt limits_default_values)
  moreover have "patch = print_patch H (created_patch H source target options ds)"
    by (simp add: patch body print_patch_def) (simp add: created_patch_def)
  ultimately show ?thesis
    using ds(1) w2 w4 f by (auto simp: limits_default_values create_header_def)
qed

section \<open>Created patches are readable\<close>

lemma choose_operation_kind:
  assumes "choose_operation mem N H limits source e = Inr (op, payload)"
  shows "(case op of Op_Directory \<Rightarrow> Kind_Directory | Op_Symlink \<Rightarrow> Kind_Symlink | _ \<Rightarrow> Kind_File)
      = st_kind (entry_structure e)
    \<and> (op = Op_Directory \<longrightarrow> payload = []) \<and> (op = Op_Symlink \<longrightarrow> e_content e = Symlink payload)
    \<and> (op = Op_FileCopy \<longrightarrow> payload = []) \<and> (op = Op_FileHardlink \<longleftrightarrow>
        hardlink_to (e_metadata e) \<noteq> None \<and> st_kind (entry_structure e) = Kind_File)
    \<and> (op = Op_FileHardlink \<longrightarrow> hardlink_to (e_metadata e) = Some payload)
    \<and> (op = Op_Symlink \<longrightarrow> as_u64 (length payload) \<le> max_symlink_bytes limits)"
  using assms
  by (auto simp: choose_operation_def entry_structure_def result_simps not_less
      split: content.splits option.splits if_splits)

lemma encodes_shape:
  assumes "encodes mem N H limits source e d"
  shows "st_path (decoded_structure d) = e_path e"
    "st_kind (decoded_structure d) = st_kind (entry_structure e)"
    "check_shape (decoded_structure d) = check_shape (entry_structure e)"
proof -
  have op: "choose_operation mem N H limits source e = Inr (d_operation d, d_payload d)"
    and d: "d_path d = e_path e" "d_mode d = content_mode (e_content e)"
    using assms by (auto simp: encodes_def)
  note k = choose_operation_kind [OF op]
  show "st_path (decoded_structure d) = e_path e" by (simp add: decoded_structure_def d)
  show kind: "st_kind (decoded_structure d) = st_kind (entry_structure e)"
    using k by (simp add: decoded_structure_def)
  show "check_shape (decoded_structure d) = check_shape (entry_structure e)"
    using k d
    by (cases "e_content e"; cases "d_operation d")
      (auto simp: check_shape_def decoded_structure_def entry_structure_def)
qed

lemma list_all2_set1: "list_all2 P xs ys \<Longrightarrow> x \<in> set xs \<Longrightarrow> \<exists>y \<in> set ys. P x y"
  by (induction rule: list_all2_induct) auto

lemma list_all2_set2: "list_all2 P xs ys \<Longrightarrow> y \<in> set ys \<Longrightarrow> \<exists>x \<in> set xs. P x y"
  by (induction rule: list_all2_induct) auto

lemma encodes_paths:
  "list_all2 (encodes mem N H limits source) es ds \<Longrightarrow>
     map (\<lambda>d. st_path (decoded_structure d)) ds = map e_path es"
  by (induction rule: list_all2_induct) (simp_all add: encodes_shape)

lemma encodes_tree_wf:
  assumes all: "list_all2 (encodes mem N H limits source) es ds" and wf: "tree_wf entry_structure es"
  shows "tree_wf decoded_structure ds"
  unfolding tree_wf_def
proof (intro conjI ballI allI impI)
  show "sorted_wrt (<) (map (\<lambda>e. st_path (decoded_structure e)) ds)"
    unfolding encodes_paths [OF all] by (rule tree_wf_sorted [OF wf])
next
  fix d assume "d \<in> set ds"
  then obtain e where e: "e \<in> set es" "encodes mem N H limits source e d"
    using list_all2_set2 [OF all] by blast
  then show "check_shape (decoded_structure d) = Inr ()"
    using wf by (simp add: encodes_shape tree_wf_def)
  fix parent assume "parent_path (st_path (decoded_structure d)) = Some parent"
  then obtain a where a: "a \<in> set es" "e_path a = parent" "st_kind (entry_structure a) = Kind_Directory"
    using wf e(1) unfolding tree_wf_def encodes_shape(1) [OF e(2)] entry_structure_path by blast
  then obtain b where "b \<in> set ds" "encodes mem N H limits source a b"
    using list_all2_set1 [OF all] by blast
  then show "\<exists>b \<in> set ds. st_path (decoded_structure b) = parent \<and> st_kind (decoded_structure b) = Kind_Directory"
    using a encodes_shape [of mem N H limits source a b] by auto
qed

lemma encodes_entry_wf:
  assumes "encodes mem N H limits_default source e d" and "e \<in> set (s_entries target)"
    and "snapshot_canonical target" "snapshot_held target" "\<forall>n. mem' n"
    and omitted: "\<not> has_omitted (e_metadata e) omit"
  shows "entry_wf mem' limits_default omit d"
proof -
  have op: "choose_operation mem N H limits_default source e = Inr (d_operation d, d_payload d)"
    using assms(1) by (simp add: encodes_def)
  note k = choose_operation_kind [OF op]
  have path: "e_path e \<noteq> []" "length (e_path e) \<le> 4096"
    using canonical_path [of "s_entries target" e] assms(2,3) valid_path_length [of "e_path e"]
    by (auto simp: snapshot_canonical_def)
  have "hardlink_ok (s_entries target) e" using assms(2,3) by (simp add: snapshot_canonical_def)
  then have link: "hardlink_to (e_metadata e) = None \<or> st_kind (entry_structure e) = Kind_File"
    by (cases "hardlink_to (e_metadata e)") (auto simp: hardlink_ok_def entry_structure_def)
  have "check_payload limits_default (d_operation d) (d_payload d) (e_metadata e) = Inr ()"
    using k link by (cases "d_operation d") (auto simp: check_payload_def)
  moreover have "metadata_held (e_metadata e)" using assms(2,4) by (simp add: snapshot_held_def)
  ultimately show ?thesis
    using assms(1,5,6) path
    by (auto simp: entry_wf_def block_wf_def encodes_def metadata_held_def descriptors_granted_def
        limits_default_values)
qed

text \<open>The rules of the options are UTF-8 strings and everything fits in memory.\<close>

definition options_typed :: "create_options \<Rightarrow> bool" where
  "options_typed options \<longleftrightarrow> omit_from_bits (o_omit options) = Inr (o_omit options)
     \<and> in_memory (o_rules options)
     \<and> (\<forall>x \<in> set (o_rules options). in_memory (rule_pattern x) \<and> from_utf8_ok (rule_pattern x))"

lemma created_patch_wf:
  assumes create: "create_projected mem N H source (projection (o_omit options) target) options = Inr patch"
    and t: "snapshot_canonical target" "snapshot_held target"
    and typed: "options_typed options" and width: "hash_width H" and mem: "\<forall>n. mem' n"
    and ds: "list_all2 (encodes mem N H limits_default source)
      (s_entries (projection (o_omit options) target)) ds"
  shows "parsed_wf mem' limits_default (created_patch H source (projection (o_omit options) target) options ds)"
proof -
  let ?t = "projection (o_omit options) target"
  have tt: "snapshot_canonical ?t" "snapshot_held ?t"
    using t by (simp_all add: projection_canonical projection_held)
  have omitted: "\<not> has_omitted (e_metadata e) (o_omit options)" if "e \<in> set (s_entries ?t)" for e
    using that omit_not_present by (auto simp: projection_def)
  obtain f where rules: "length (o_rules options) \<le> 4096" "filter_compile mem (o_rules options) = Inr f"
      "\<forall>x \<in> set (o_rules options). rule_pattern x \<noteq> [] \<and> length (rule_pattern x) \<le> 4096"
    and root: "\<not> metadata_is_empty (s_root ?t) \<longrightarrow> length (print_metadata (s_root ?t)) < 2 ^ 32
         \<and> length (print_metadata (s_root ?t)) \<le> unat (max_payload_bytes limits_default)"
    using create_projected_Inr [OF create _ _ width] typed by (auto simp: options_typed_def)
  obtain g where g: "filter_compile mem' (o_rules options) = Inr g"
    using filter_compile_granted [OF rules(2) mem] by blast
  have len: "length ds = length (s_entries ?t)" "length (s_entries ?t) \<le> 1000000"
    using ds tt(1) by (auto simp: list_all2_lengthD snapshot_canonical_def MAX_ENTRIES_def)
  have entries: "\<forall>d \<in> set ds. entry_wf mem' limits_default (o_omit options) d"
    using list_all2_set2 [OF ds] encodes_entry_wf [OF _ _ tt mem] omitted by blast
  have "structure_validate decoded_structure ds = Inr ()"
    using encodes_tree_wf [OF ds] tt(1) len by (simp add: structure_validate_iff snapshot_canonical_def MAX_ENTRIES_def)
  moreover have "root_wf mem' limits_default (create_header H source ?t options) (s_root ?t)"
    using tt mem root omit_not_present [of "o_omit options" "s_root target"]
    by (auto simp: root_wf_def create_header_def metadata_is_empty_iff block_wf_def snapshot_held_def
        metadata_held_def descriptors_granted_def snapshot_canonical_def projection_def)
  moreover have "tree_header_typed (create_header H source ?t options)"
    using width typed by (simp add: tree_header_typed_def create_header_def snapshot_hash_def hash_width_def
        options_typed_def)
  ultimately show ?thesis
    using rules g len entries typed mem
    by (auto simp: parsed_wf_def created_patch_def create_header_def VERSION_def rule_wf_def
        options_typed_def limits_default_values word_le_nat_alt)
qed

end
