(* ===== verification/Tree_Patch_Apply.thy ===== *)
theory Tree_Patch_Apply
  imports Tree_Patch_Encode
begin

text \<open>
  Application of a tree patch (\<open>rust/src/tree_patch_apply.rs\<close>): source identity, expansion of the
  entries under a total output budget, physical validation and target identity. The loop's vector of
  entries carries for each entry whether its bytes are owned (\<open>Cow::Owned\<close>), because copying owned
  bytes for a hard link is an allocation that can fail.
\<close>

record apply_limits =
  al_patch :: limits
  max_output_bytes :: u64

definition apply_limits_default :: apply_limits where
  "apply_limits_default = \<lparr>al_patch = limits_default, max_output_bytes = push_bit 30 64\<rparr>"

definition account :: "u64 \<Rightarrow> nat \<Rightarrow> tree_error + u64" where
  "account budget n = ok_or LimitExceeded (checked_sub budget (as_u64 n))"

definition delta :: "allocator \<Rightarrow> ('c, 'd) native \<Rightarrow> hasher \<Rightarrow> bytes \<Rightarrow> bytes \<Rightarrow> u64 \<Rightarrow> tree_error + bytes" where
  "delta mem N H source patch budget =
     and_then (map_err (\<lambda>e. FileError (from_header e)) (header_decode_prefix patch)) (\<lambda>(header, _).
     if target_len header > budget then
       (if source_len header \<noteq> as_u64 (length source) then Inl (FileError SizeMismatch)
        else if source_hash header \<noteq> H source then Inl (FileError file_error.SourceHashMismatch)
        else and_then (map_err FileError (file_window_log (as_u64 (length source)) (target_len header)))
          (\<lambda>_. Inl LimitExceeded))
     else map_err FileError (file_apply mem N H source patch 0))"

type_synonym applied = "entry \<times> bool"

definition source_file :: "snapshot \<Rightarrow> bytes \<Rightarrow> tree_error + bytes" where
  "source_file source path =
     and_then (ok_or MissingSourceEntry (find_path entry_structure (s_entries source) path)) (\<lambda>i.
     case e_content (s_entries source ! i) of
       File _ bs \<Rightarrow> Inr bs
     | _ \<Rightarrow> Inl SourceKindMismatch)"

definition link_target :: "applied list \<Rightarrow> bytes \<Rightarrow> tree_error + bytes \<times> bool" where
  "link_target built payload =
     and_then (ok_or (SnapshotError InvalidHardlinkRelation)
        (find_path (\<lambda>a. entry_structure (fst a)) built payload)) (\<lambda>i.
     let (target, owned) = built ! i in
     if hardlink_to (e_metadata target) \<noteq> None then Inl (SnapshotError InvalidHardlinkRelation)
     else (case e_content target of
             File _ bs \<Rightarrow> Inr (bs, owned)
           | _ \<Rightarrow> Inl (SnapshotError InvalidHardlinkRelation)))"

text \<open>The content of one entry, whether its bytes are owned, and the budget left.\<close>

definition expand_content :: "allocator \<Rightarrow> ('c, 'd) native \<Rightarrow> hasher \<Rightarrow> snapshot \<Rightarrow> applied list \<Rightarrow> u64
    \<Rightarrow> decoded_entry \<Rightarrow> mode \<Rightarrow> tree_error + content \<times> bool \<times> u64" where
  "expand_content mem N H source built budget d mode =
     (case d_operation d of
        Op_Directory \<Rightarrow> Inr (Directory mode, False, budget)
      | Op_Symlink \<Rightarrow>
          and_then (account budget (length (d_payload d))) (\<lambda>budget.
          Inr (Symlink (d_payload d), False, budget))
      | Op_FileRaw \<Rightarrow>
          and_then (account budget (length (d_payload d))) (\<lambda>budget.
          Inr (File mode (d_payload d), False, budget))
      | Op_FileCopy \<Rightarrow>
          and_then (source_file source (d_path d)) (\<lambda>bs.
          and_then (account budget (length bs)) (\<lambda>budget.
          Inr (File mode bs, False, budget)))
      | Op_FileDelta \<Rightarrow>
          and_then (source_file source (d_path d)) (\<lambda>bs.
          and_then (delta mem N H bs (d_payload d) budget) (\<lambda>bs.
          and_then (account budget (length bs)) (\<lambda>budget.
          Inr (File mode bs, True, budget))))
      | Op_FileHardlink \<Rightarrow>
          and_then (link_target built (d_payload d)) (\<lambda>(bs, owned).
          and_then (account budget (length bs)) (\<lambda>budget.
          and_then (if owned then reserve mem (length bs) OutOfMemory else Inr ()) (\<lambda>_.
          Inr (File mode bs, owned, budget)))))"

fun expand_entries :: "allocator \<Rightarrow> ('c, 'd) native \<Rightarrow> hasher \<Rightarrow> snapshot \<Rightarrow> applied list \<Rightarrow> u64
    \<Rightarrow> decoded_entry list \<Rightarrow> tree_error + applied list" where
  "expand_entries mem N H source built budget [] = Inr built"
| "expand_entries mem N H source built budget (d # ds) =
     and_then (map_err SnapshotError (mode_from_bits (d_mode d))) (\<lambda>mode.
     and_then (expand_content mem N H source built budget d mode) (\<lambda>(content, owned, budget).
     expand_entries mem N H source
       (built @ [(\<lparr>e_path = d_path d, e_content = content, e_metadata = d_metadata d\<rparr>, owned)])
       budget ds))"

definition tree_apply :: "allocator \<Rightarrow> ('c, 'd) native \<Rightarrow> hasher \<Rightarrow> snapshot \<Rightarrow> bytes \<Rightarrow> apply_limits
    \<Rightarrow> tree_error + snapshot" where
  "tree_apply mem N H source patch limits =
     and_then (patch_decode mem H patch (al_patch limits)) (\<lambda>p.
     and_then (if th_omit (p_header p) = 0 then Inr source
               else project mem source (th_omit (p_header p))) (\<lambda>masked.
     if snapshot_hash H masked \<noteq> th_source_hash (p_header p) then Inl SourceHashMismatch
     else
       and_then (reserve mem (length (p_entries p)) OutOfMemory) (\<lambda>_.
       and_then (expand_entries mem N H source [] (max_output_bytes limits) (p_entries p)) (\<lambda>built.
       and_then (map_err SnapshotError
          (snapshot_new \<lparr>s_entries = map fst built, s_root = p_root p\<rparr>)) (\<lambda>result.
       if snapshot_hash H result \<noteq> th_target_hash (p_header p) then Inl TargetHashMismatch
       else Inr result)))))"

section \<open>Lemmas on one entry\<close>

definition output_bytes :: "entry list \<Rightarrow> nat" where
  "output_bytes es = sum_list (map (\<lambda>e. length (content_bytes (e_content e))) es)"

lemma account_Inr:
  "in_memory bs \<Longrightarrow> account budget (length bs) = Inr r \<longleftrightarrow>
     length bs \<le> unat budget \<and> unat r = unat budget - length bs"
  by (auto simp: account_def checked_sub_def result_simps word_le_nat_alt unat_sub word_unat_eq_iff)

lemma account_ok:
  assumes "in_memory bs" and "length bs \<le> unat budget"
  shows "account budget (length bs) = Inr (budget - as_u64 (length bs))"
  using assms by (simp add: account_def checked_sub_def word_le_nat_alt)

lemma unat_budget:
  "in_memory bs \<Longrightarrow> length bs \<le> unat budget \<Longrightarrow>
     unat (budget - as_u64 (length bs)) = unat budget - length bs"
  by (subst unat_sub) (simp_all add: word_le_nat_alt)

lemma find_path_projection:
  assumes "snapshot_canonical s"
  shows "find_path entry_structure (s_entries (projection omit s)) path
    = find_path entry_structure (s_entries s) path"
  using assms
  by (intro path_lookup.lookup_keys_cong) (simp_all add: snapshot_canonical_def tree_wf_def projection_contents)

lemma source_file_projection:
  assumes s: "snapshot_canonical s"
    and "map_option (\<lambda>i. e_content (s_entries (projection omit s) ! i))
      (find_path entry_structure (s_entries (projection omit s)) path) = Some (File mode bs)"
  shows "source_file s path = Inr bs \<and> (\<exists>e \<in> set (s_entries s). e_content e = File mode bs)"
proof -
  from assms(2) obtain i where i: "find_path entry_structure (s_entries s) path = Some i"
    and c: "e_content (s_entries (projection omit s) ! i) = File mode bs"
    by (auto simp: find_path_projection [OF s])
  have "i < length (s_entries s)"
    using i s find_path_iff [of entry_structure "s_entries s" path i]
    by (simp add: snapshot_canonical_def tree_wf_def)
  then have "e_content (s_entries s ! i) = File mode bs" and "s_entries s ! i \<in> set (s_entries s)"
    using c by (simp_all add: projection_def)
  then show ?thesis using i by (auto simp: source_file_def)
qed

lemma delta_roundtrip:
  assumes law: "zstd_prefix_frames N" and dec: "decoder_for N source c"
    and width: "hash_width H" and mem: "\<forall>n. mem' n"
    and size: "in_memory source" "in_memory target"
    and fits: "length target \<le> unat budget"
    and enc: "file_encode mem N H source target = Inr payload"
  shows "delta mem' N H source payload budget = Inr target"
proof -
  from file_encode_Inr [OF enc] obtain frame where
    "payload = header_encode \<lparr>source_hash = H source, target_hash = H target,
       source_len = as_u64 (length source), target_len = as_u64 (length target)\<rparr> @ frame" by blast
  then have "header_decode_prefix payload = Inr (\<lparr>source_hash = H source, target_hash = H target,
       source_len = as_u64 (length source), target_len = as_u64 (length target)\<rparr>, frame)"
    using width by (simp add: header_roundtrip header_typed_def hash_width_def)
  moreover have "\<not> as_u64 (length target) > budget"
    using fits size by (simp add: word_less_nat_alt)
  moreover have "file_apply mem' N H source payload 0 = Inr target"
    using law dec width mem size enc by (intro file_roundtrip) auto
  ultimately show ?thesis by (simp add: delta_def)
qed

section \<open>Entries of a created patch\<close>

lemma canonical_mode:
  assumes "snapshot_canonical t" and "e \<in> set (s_entries t)"
  shows "mode_from_bits (content_mode (e_content e)) = Inr (content_mode (e_content e))"
proof -
  have "check_shape (entry_structure e) = Inr ()"
    using assms by (simp add: snapshot_canonical_def tree_wf_def)
  then show ?thesis
    by (cases "e_content e") (auto simp: check_shape_def entry_structure_def mode_from_bits_def result_simps
        split: if_splits)
qed

lemma link_target_found:
  assumes t: "snapshot_canonical t" "s_entries t = pre @ e # post" and pre: "map fst built = pre"
    and link: "hardlink_to (e_metadata e) = Some path" and e: "e_content e = File mode bs"
  shows "\<exists>owned. link_target built path = Inr (bs, owned)"
proof -
  have sorted: "sorted_wrt (<) (map e_path (pre @ e # post))"
    using t tree_wf_sorted by (metis snapshot_canonical_def)
  have "hardlink_ok (pre @ e # post) e" using t by (simp add: snapshot_canonical_def)
  then obtain x where x: "x \<in> set (pre @ e # post)" "e_path x = path" "path < e_path e"
    "e_content x = File mode bs" "hardlink_to (e_metadata x) = None"
    using link e by (auto simp: hardlink_ok_def)
  then have "x \<in> set pre" using sorted by (auto simp: sorted_wrt_append)
  then obtain a where a: "a \<in> set built" "fst a = x" using pre by auto
  have "sorted_wrt (<) (map (\<lambda>a. st_path (entry_structure (fst a))) built)"
    using sorted pre by (auto simp: sorted_wrt_append comp_def)
  from path_lookup.lookup_elem [OF this a(1)] obtain i where
    "find_path (\<lambda>a. entry_structure (fst a)) built path = Some i" "built ! i = a"
    using a(2) x(2) by auto
  then show ?thesis
    using x(4,5) a(2) by (auto simp: link_target_def split: prod.splits)
qed

lemma choose_file:
  assumes s: "snapshot_canonical s" and e: "e_content e = File mode bs"
    and free: "hardlink_to (e_metadata e) = None"
    and op: "choose_operation mem N H limits (projection omit s) e = Inr (op, payload)"
  shows "(op = Op_FileRaw \<and> payload = bs)
    \<or> (op = Op_FileCopy \<and> source_file s (e_path e) = Inr bs)
    \<or> (op = Op_FileDelta \<and> (\<exists>x \<in> set (s_entries s). \<exists>m previous. e_content x = File m previous
         \<and> source_file s (e_path e) = Inr previous \<and> file_encode mem N H previous bs = Inr payload))"
proof -
  let ?old = "map_option (\<lambda>i. e_content (s_entries (projection omit s) ! i))
    (find_path entry_structure (s_entries (projection omit s)) (e_path e))"
  consider m previous where "?old = Some (File m previous)"
    | "\<And>m previous. ?old \<noteq> Some (File m previous)" by blast
  then show ?thesis
  proof cases
    case (1 m previous)
    then show ?thesis
      using op e free source_file_projection [OF s 1]
      by (auto simp: choose_operation_def result_simps split: if_splits)
  next
    case 2
    then have "op = Op_FileRaw \<and> payload = bs"
      using op e free
      by (cases ?old; cases "the ?old") (auto simp: choose_operation_def split: if_splits)
    then show ?thesis by blast
  qed
qed

lemma expand_content_ok:
  assumes s: "snapshot_canonical s" "snapshot_held s"
    and t: "snapshot_canonical t" "snapshot_held t" "s_entries t = pre @ e # post" "map fst built = pre"
    and enc: "encodes mem N H limits (projection omit s) e d"
    and law: "zstd_prefix_frames N" "\<forall>bs. \<exists>c. decoder_for N bs c" and width: "hash_width H"
    and mem: "\<forall>n. mem' n" and fits: "length (content_bytes (e_content e)) \<le> unat budget"
  shows "\<exists>owned. expand_content mem' N H s built budget d (content_mode (e_content e))
    = Inr (e_content e, owned, budget - as_u64 (length (content_bytes (e_content e))))"
proof -
  have op: "choose_operation mem N H limits (projection omit s) e = Inr (d_operation d, d_payload d)"
    and d: "d_path d = e_path e" using enc by (auto simp: encodes_def)
  have size: "in_memory (content_bytes (e_content e))" using t by (simp add: snapshot_held_def)
  note acc = account_ok [OF size fits]
  show ?thesis
  proof (cases "e_content e")
    case (Directory mode)
    then show ?thesis using op by (auto simp: choose_operation_def expand_content_def as_u64_def)
  next
    case (Symlink target)
    then show ?thesis using op acc by (auto simp: choose_operation_def expand_content_def split: if_splits)
  next
    case (File mode bs)
    show ?thesis
    proof (cases "hardlink_to (e_metadata e)")
      case (Some path)
      obtain owned where "link_target built path = Inr (bs, owned)"
        using link_target_found [OF t(1,3,4) Some File] by blast
      then show ?thesis using Some File op acc mem by (auto simp: choose_operation_def expand_content_def)
    next
      case None
      have delta: "delta mem' N H previous (d_payload d) budget = Inr bs"
        if "x \<in> set (s_entries s)" "e_content x = File m previous"
          "file_encode mem N H previous bs = Inr (d_payload d)" for x m previous
      proof -
        have "in_memory previous" using that s(2) by (fastforce simp: snapshot_held_def)
        moreover obtain c where "decoder_for N previous c" using law(2) by blast
        ultimately show ?thesis
          using size fits File by (intro delta_roundtrip [OF law(1) _ width mem _ _ _ that(3)]) auto
      qed
      from choose_file [OF s(1) File None op] show ?thesis
        using delta acc File d by (auto simp: expand_content_def)
    qed
  qed
qed

lemma output_bytes_append [simp]: "output_bytes (xs @ ys) = output_bytes xs + output_bytes ys"
  by (simp add: output_bytes_def)

lemma output_bytes_Cons [simp]:
  "output_bytes (e # es) = length (content_bytes (e_content e)) + output_bytes es"
  by (simp add: output_bytes_def)

lemma account_over:
  assumes "in_memory bs" and "\<not> length bs \<le> unat budget"
  shows "account budget (length bs) = Inl LimitExceeded"
  using assms by (simp add: account_def checked_sub_def word_le_nat_alt)

lemma delta_over:
  assumes width: "hash_width H" and size: "in_memory source" "in_memory target"
    and over: "\<not> length target \<le> unat budget"
    and enc: "file_encode mem N H source target = Inr payload"
  shows "delta mem' N' H source payload budget = Inl LimitExceeded"
proof -
  let ?h = "\<lparr>source_hash = H source, target_hash = H target,
       source_len = as_u64 (length source), target_len = as_u64 (length target)\<rparr>"
  from file_encode_Inr [OF enc] obtain frame where
    "payload = header_encode ?h @ frame"
    and log: "unat (as_u64 (length source)) \<le> 2 ^ 31" "unat (as_u64 (length target)) \<le> 2 ^ 31" by blast
  then have "header_decode_prefix payload = Inr (?h, frame)"
    using width by (simp add: header_roundtrip header_typed_def hash_width_def)
  moreover obtain w where "file_window_log (as_u64 (length source)) (as_u64 (length target)) = Inr w"
    using log file_window_log_Inr by blast
  moreover have "as_u64 (length target) > budget" using over size by (simp add: word_less_nat_alt)
  ultimately show ?thesis by (simp add: delta_def)
qed

lemma expand_content_over:
  assumes s: "snapshot_canonical s" "snapshot_held s"
    and t: "snapshot_canonical t" "snapshot_held t" "s_entries t = pre @ e # post" "map fst built = pre"
    and enc: "encodes mem N H limits (projection omit s) e d" and width: "hash_width H"
    and over: "\<not> length (content_bytes (e_content e)) \<le> unat budget"
  shows "expand_content mem' N' H s built budget d mode' = Inl LimitExceeded"
proof -
  have op: "choose_operation mem N H limits (projection omit s) e = Inr (d_operation d, d_payload d)"
    and d: "d_path d = e_path e" using enc by (auto simp: encodes_def)
  have size: "in_memory (content_bytes (e_content e))" using t by (simp add: snapshot_held_def)
  note acc = account_over [OF size over]
  show ?thesis
  proof (cases "e_content e")
    case (Directory mode)
    then show ?thesis using over by simp
  next
    case (Symlink target)
    then show ?thesis using op acc by (auto simp: choose_operation_def expand_content_def split: if_splits)
  next
    case (File mode bs)
    show ?thesis
    proof (cases "hardlink_to (e_metadata e)")
      case (Some path)
      obtain owned where "link_target built path = Inr (bs, owned)"
        using link_target_found [OF t(1,3,4) Some File] by blast
      then show ?thesis using Some File op acc by (auto simp: choose_operation_def expand_content_def)
    next
      case None
      have delta: "delta mem' N' H previous (d_payload d) budget = Inl LimitExceeded"
        if "x \<in> set (s_entries s)" "e_content x = File m previous"
          "file_encode mem N H previous bs = Inr (d_payload d)" for x m previous
      proof -
        have "in_memory previous" using that s(2) by (fastforce simp: snapshot_held_def)
        then show ?thesis
          using size over File by (intro delta_over [OF width _ _ _ that(3)]) auto
      qed
      from choose_file [OF s(1) File None op] show ?thesis
        using delta acc File d by (auto simp: expand_content_def)
    qed
  qed
qed

lemma expand_entries_created:
  assumes s: "snapshot_canonical s" "snapshot_held s" and t: "snapshot_canonical t" "snapshot_held t"
    and law: "zstd_prefix_frames N" "\<forall>bs. \<exists>c. decoder_for N bs c" and width: "hash_width H"
    and mem: "\<forall>n. mem' n"
    and enc: "list_all2 (encodes mem N H limits (projection omit s)) es ds"
  shows "s_entries t = pre @ es \<Longrightarrow> map fst built = pre \<Longrightarrow>
    (if output_bytes es \<le> unat budget
     then \<exists>all. expand_entries mem' N H s built budget ds = Inr all \<and> map fst all = s_entries t
     else expand_entries mem' N H s built budget ds = Inl LimitExceeded)"
  using enc
proof (induction es ds arbitrary: pre built budget rule: list_all2_induct)
  case Nil
  then show ?case by (simp add: output_bytes_def)
next
  case (Cons e es d ds)
  have "e \<in> set (s_entries t)" using Cons.prems(1) by simp
  then have m: "mode_from_bits (d_mode d) = Inr (content_mode (e_content e))"
    and size: "in_memory (content_bytes (e_content e))"
    using canonical_mode [OF t(1)] Cons.hyps(1) t(2) by (auto simp: encodes_def snapshot_held_def)
  show ?case
  proof (cases "length (content_bytes (e_content e)) \<le> unat budget")
    case False
    then show ?thesis
      by (simp add: m expand_content_over [OF s t Cons.prems(1,2) Cons.hyps(1) width False])
  next
    case fits: True
    let ?rest = "budget - as_u64 (length (content_bytes (e_content e)))"
    obtain owned where x: "expand_content mem' N H s built budget d (content_mode (e_content e))
        = Inr (e_content e, owned, ?rest)"
      using expand_content_ok [OF s t Cons.prems(1,2) Cons.hyps(1) law width mem fits] by blast
    have "output_bytes (e # es) \<le> unat budget \<longleftrightarrow> output_bytes es \<le> unat ?rest"
      using fits unat_budget [OF size fits] by auto
    moreover have "\<lparr>e_path = d_path d, e_content = e_content e, e_metadata = d_metadata d\<rparr> = e"
      using Cons.hyps(1) by (simp add: encodes_def)
    ultimately show ?thesis
      using Cons.IH [of "pre @ [e]" "built @ [(e, owned)]" ?rest] Cons.prems(1,2)
      by (auto simp: m x simp del: output_bytes_Cons split: if_splits)
  qed
qed

section \<open>Entries of any patch\<close>

lemma delta_Inr:
  assumes "delta mem N H source patch budget = Inr bs" and "zstd_bounded_output N"
  shows "in_memory bs"
proof -
  from assms(1) have "file_apply mem N H source patch 0 = Inr bs"
    by (auto simp: delta_def result_simps split: if_splits)
  from file_apply_Inr [OF this] obtain h :: header and frame where
    "unat (target_len h) \<le> 2 ^ 31" "decode mem N source frame (unat (target_len h)) = Inr bs" by blast
  then have "length bs \<le> 2 ^ 31"
    using assms(2) decode_Inr [of mem N source frame "unat (target_len h)" bs]
    by (fastforce simp: zstd_bounded_output_def)
  then show ?thesis by (simp add: in_memory_def)
qed

definition contents_held :: "entry list \<Rightarrow> bool" where
  "contents_held es \<longleftrightarrow> (\<forall>e \<in> set es. in_memory (content_bytes (e_content e)))"

lemma source_file_Inr:
  assumes "source_file s path = Inr bs" and "snapshot_canonical s"
  shows "\<exists>e \<in> set (s_entries s). \<exists>mode. e_path e = path \<and> e_content e = File mode bs"
proof -
  from assms(1) obtain i mode where i: "find_path entry_structure (s_entries s) path = Some i"
    "e_content (s_entries s ! i) = File mode bs"
    by (cases "find_path entry_structure (s_entries s) path";
        cases "e_content (s_entries s ! the (find_path entry_structure (s_entries s) path))")
      (auto simp: source_file_def)
  have "s_entries s ! i \<in> set (s_entries s) \<and> e_path (s_entries s ! i) = path"
    using path_lookup.lookup_nth [of entry_structure "s_entries s" path i] i(1) assms(2)
    by (simp add: snapshot_canonical_def tree_wf_def)
  then show ?thesis using i(2) by blast
qed

lemma find_path_bound: "find_path view xs path = Some i \<Longrightarrow> i < length xs"
  using bisect_bounds [of "length xs" 0 "\<lambda>e. cmp (st_path (view e)) path" xs]
  by (auto simp: find_path_def binary_search_by_def Let_def split: if_splits)

lemma link_target_Inr:
  assumes "link_target built path = Inr (bs, owned)"
  shows "\<exists>a \<in> set built. \<exists>mode. e_content (fst a) = File mode bs"
proof -
  from assms obtain i mode where "find_path (\<lambda>a. entry_structure (fst a)) built path = Some i"
    "e_content (fst (built ! i)) = File mode bs"
    by (cases "find_path (\<lambda>a. entry_structure (fst a)) built path";
        cases "e_content (fst (built ! the (find_path (\<lambda>a. entry_structure (fst a)) built path)))")
      (auto simp: link_target_def case_prod_beta split: if_splits)
  then show ?thesis using find_path_bound by (metis nth_mem)
qed

lemma account_then:
  "in_memory bs \<Longrightarrow> and_then (account budget (length bs)) f = Inr y \<longleftrightarrow>
     length bs \<le> unat budget \<and> f (budget - as_u64 (length bs)) = Inr y"
  by (auto simp: account_def checked_sub_def word_le_nat_alt)

lemma expand_content_Inr:
  assumes "expand_content mem N H s built budget d mode = Inr (c, owned, budget')"
    and s: "snapshot_canonical s" "snapshot_held s" and "zstd_bounded_output N"
    and "contents_held (map fst built)" and "in_memory (d_payload d)"
  shows "in_memory (content_bytes c) \<and> unat budget = unat budget' + length (content_bytes c)"
proof -
  have src: "in_memory bs" if "source_file s path = Inr bs" for path bs
    using source_file_Inr [OF that s(1)] s(2) by (force simp: snapshot_held_def)
  have link: "in_memory bs" if "link_target built path = Inr (bs, owned)" for path bs owned
    using link_target_Inr [OF that] assms(5) by (force simp: contents_held_def)
  have dlt: "in_memory bs'" if "delta mem N H bs p b = Inr bs'" for bs p b bs'
    using delta_Inr [OF that assms(4)] .
  show ?thesis
    using assms(1,6)
    by (cases "d_operation d")
      (auto simp: expand_content_def and_then_Inr [of "source_file _ _"] and_then_Inr [of "delta _ _ _ _ _ _"]
        and_then_pair_Inr account_then unat_budget and_then_unit in_memory_def [of "[]"] dest!: src link dlt split: if_splits)
qed

lemma expand_entries_Inr:
  assumes s: "snapshot_canonical s" "snapshot_held s" and "zstd_bounded_output N"
  shows "expand_entries mem N H s built budget ds = Inr all \<Longrightarrow> contents_held (map fst built) \<Longrightarrow>
    \<forall>d \<in> set ds. in_memory (d_payload d) \<Longrightarrow>
    \<exists>es. map fst all = map fst built @ es \<and> contents_held es \<and> output_bytes es \<le> unat budget
      \<and> map e_path es = map d_path ds \<and> map e_metadata es = map d_metadata ds"
proof (induction ds arbitrary: built budget)
  case Nil
  then show ?case by (simp add: contents_held_def output_bytes_def)
next
  case (Cons d ds)
  from Cons.prems(1) obtain mode c owned budget' where
    x: "expand_content mem N H s built budget d mode = Inr (c, owned, budget')"
    and rest: "expand_entries mem N H s (built @ [(\<lparr>e_path = d_path d, e_content = c,
       e_metadata = d_metadata d\<rparr>, owned)]) budget' ds = Inr all"
    by (auto simp: result_simps)
  let ?e = "\<lparr>e_path = d_path d, e_content = c, e_metadata = d_metadata d\<rparr>"
  have c: "in_memory (content_bytes c)" "unat budget = unat budget' + length (content_bytes c)"
    using expand_content_Inr [OF x s assms(3) Cons.prems(2)] Cons.prems(3) by auto
  then obtain es where "map fst all = map fst built @ ?e # es" "contents_held es"
    "output_bytes es \<le> unat budget'" "map e_path es = map d_path ds" "map e_metadata es = map d_metadata ds"
    using Cons.IH [OF rest] Cons.prems(2,3) by (auto simp: contents_held_def)
  then show ?case using c by (intro exI [of _ "?e # es"]) (auto simp: contents_held_def)
qed

end
