(* ===== verification/Tree_Patch_Correct.thy ===== *)
theory Tree_Patch_Correct
  imports Tree_Patch_Apply
begin

text \<open>
  Creation and application of tree patches together: the round trip, what an accepted patch
  guarantees, and which sources it accepts.
\<close>

section \<open>Application of created patches\<close>

lemma create_Inr:
  assumes "create mem N H s t options = Inr patch" and "snapshot_held s" "snapshot_held t"
  shows "create_projected mem N H (projection (o_omit options) s) (projection (o_omit options) t) options
    = Inr patch"
  using assms project_Inr by (auto simp: create_def and_then_Inr split: if_splits)

lemma created_patch_decodes:
  assumes create: "create mem N H s t options = Inr patch"
    and held: "snapshot_held s" "snapshot_held t" and t: "snapshot_canonical t"
    and typed: "options_typed options" and width: "hash_width H" and mem: "\<forall>n. mem' n"
  shows "\<exists>ds. list_all2 (encodes mem N H limits_default (projection (o_omit options) s))
      (s_entries (projection (o_omit options) t)) ds
    \<and> patch_decode mem' H patch limits_default
      = Inr (created_patch H (projection (o_omit options) s) (projection (o_omit options) t) options ds)"
proof -
  note p = create_Inr [OF create held]
  obtain ds where ds: "list_all2 (encodes mem N H limits_default (projection (o_omit options) s))
      (s_entries (projection (o_omit options) t)) ds"
    and patch: "patch = print_patch H (created_patch H (projection (o_omit options) s)
      (projection (o_omit options) t) options ds)" "length patch \<le> 2 ^ 34"
    using create_projected_Inr [OF p _ _ width] typed unfolding options_typed_def by metis
  have "as_u64 (length patch) \<le> max_patch_bytes (l_envelope limits_default)" "in_memory patch"
    using patch(2) by (auto simp: word_le_nat_alt limits_default_values in_memory_def)
  then have "patch_decode mem' H patch limits_default
      = Inr (created_patch H (projection (o_omit options) s) (projection (o_omit options) t) options ds)"
    using patch(1) created_patch_wf [OF p t held(2) typed width mem ds] by (simp add: patch_decode_iff [OF width])
  with ds show ?thesis by blast
qed

lemma create_granted:
  assumes "snapshot_canonical s" "snapshot_held s" "snapshot_canonical t" "snapshot_held t" "\<forall>n. mem n"
  shows "create mem N H s t options = create_projected mem N H (projection (o_omit options) s)
    (projection (o_omit options) t) options"
  using assms by (simp add: create_def project_granted)

lemma tree_apply_created:
  assumes create: "create mem N H s t options = Inr patch"
    and s: "snapshot_canonical s" "snapshot_held s" and t: "snapshot_canonical t" "snapshot_held t"
    and typed: "options_typed options" and width: "hash_width H"
    and law: "zstd_prefix_frames N" "\<forall>bs. \<exists>c. decoder_for N bs c" and mem: "\<forall>n. mem' n"
    and limits: "al_patch limits = limits_default"
  shows "tree_apply mem' N H s patch limits =
    (if output_bytes (s_entries t) \<le> unat (max_output_bytes limits)
     then Inr (projection (o_omit options) t) else Inl LimitExceeded)"
proof -
  let ?s = "projection (o_omit options) s" and ?t = "projection (o_omit options) t"
  obtain ds where ds: "list_all2 (encodes mem N H limits_default ?s) (s_entries ?t) ds"
    and dec: "patch_decode mem' H patch limits_default = Inr (created_patch H ?s ?t options ds)"
    using created_patch_decodes [OF create s(2) t(2,1) typed width mem] by blast
  have tt: "snapshot_canonical ?t" "snapshot_held ?t" using t by (simp_all add: projection_canonical projection_held)
  have out: "output_bytes (s_entries ?t) = output_bytes (s_entries t)"
    by (simp add: output_bytes_def projection_def comp_def)
  let ?p = "created_patch H ?s ?t options ds"
  have head: "th_omit (p_header ?p) = o_omit options" "th_source_hash (p_header ?p) = snapshot_hash H ?s"
    "th_target_hash (p_header ?p) = snapshot_hash H ?t" "p_entries ?p = ds" "p_root ?p = s_root ?t"
    by (simp_all add: created_patch_def create_header_def)
  have project: "(if o_omit options = 0 then Inr s else project mem' s (o_omit options)) = Inr ?s"
    using project_granted [OF s(2,1) mem] by simp
  have eta: "\<lparr>s_entries = s_entries ?t, s_root = s_root ?t\<rparr> = ?t" by (rule snapshot.equality) simp_all
  have new: "snapshot_new \<lparr>s_entries = s_entries ?t, s_root = s_root ?t\<rparr> = Inr ?t"
    unfolding eta using snapshot_new_iff [OF tt(2)] tt(1) by simp
  have x: "if output_bytes (s_entries t) \<le> unat (max_output_bytes limits)
     then \<exists>all. expand_entries mem' N H s [] (max_output_bytes limits) ds = Inr all \<and> map fst all = s_entries ?t
     else expand_entries mem' N H s [] (max_output_bytes limits) ds = Inl LimitExceeded"
    using expand_entries_created [OF s tt law width mem ds, of "[]" "[]"] unfolding out by simp
  have "tree_apply mem' N H s patch limits =
    and_then (expand_entries mem' N H s [] (max_output_bytes limits) ds) (\<lambda>built.
       and_then (map_err SnapshotError
          (snapshot_new \<lparr>s_entries = map fst built, s_root = s_root ?t\<rparr>)) (\<lambda>result.
       if snapshot_hash H result \<noteq> snapshot_hash H ?t then Inl TargetHashMismatch else Inr result))"
    unfolding tree_apply_def limits dec and_then.simps head project
    by (simp only: and_then.simps reserve_def mem simp_thms if_True if_False refl)
  then show ?thesis using x new by (auto split: if_splits)
qed

section \<open>Application of any patch\<close>

lemma parsed_entry_held:
  assumes "parsed_wf mem limits p"
  shows "d \<in> set (p_entries p) \<Longrightarrow> metadata_held (d_metadata d) \<and> in_memory (d_payload d)"
    and "metadata_held (p_root p)"
proof -
  have block: "metadata_held m" if "block_wf mem limit omit m" for limit omit m
    using that u32_in_memory by (auto simp: block_wf_def metadata_held_def concat_write_chunks)
  show "d \<in> set (p_entries p) \<Longrightarrow> metadata_held (d_metadata d) \<and> in_memory (d_payload d)"
    using assms block by (auto simp: parsed_wf_def entry_wf_def)
  show "metadata_held (p_root p)"
    using assms block metadata_default_held by (auto simp: parsed_wf_def root_wf_def split: if_splits)
qed

lemma tree_apply_Inr:
  assumes app: "tree_apply mem N H s patch limits = Inr r"
    and s: "snapshot_canonical s" "snapshot_held s" and width: "hash_width H"
    and size: "in_memory patch" and bounded: "zstd_bounded_output N"
  shows "\<exists>p. patch_decode mem H patch (al_patch limits) = Inr p
    \<and> snapshot_hash H (projection (th_omit (p_header p)) s) = th_source_hash (p_header p)
    \<and> snapshot_hash H r = th_target_hash (p_header p)
    \<and> snapshot_canonical r \<and> snapshot_held r
    \<and> output_bytes (s_entries r) \<le> unat (max_output_bytes limits)
    \<and> map e_path (s_entries r) = map d_path (p_entries p)
    \<and> map e_metadata (s_entries r) = map d_metadata (p_entries p) \<and> s_root r = p_root p"
proof -
  from app obtain p masked all where p: "patch_decode mem H patch (al_patch limits) = Inr p"
    and masked: "(if th_omit (p_header p) = 0 then Inr s else project mem s (th_omit (p_header p))) = Inr masked"
      "snapshot_hash H masked = th_source_hash (p_header p)"
    and all: "expand_entries mem N H s [] (max_output_bytes limits) (p_entries p) = Inr all"
    and r: "snapshot_new \<lparr>s_entries = map fst all, s_root = p_root p\<rparr> = Inr r"
      "snapshot_hash H r = th_target_hash (p_header p)"
    unfolding tree_apply_def and_then_Inr if_err_Inr map_err_Inr by auto
  have wf: "parsed_wf mem (al_patch limits) p" using p patch_decode_iff [OF width size] by blast
  note held = parsed_entry_held [OF wf]
  have m: "masked = projection (th_omit (p_header p)) s"
    using masked(1) project_Inr [OF s(2)] by (auto split: if_splits)
  obtain es where es: "map fst all = es" "contents_held es" "output_bytes es \<le> unat (max_output_bytes limits)"
    "map e_path es = map d_path (p_entries p)" "map e_metadata es = map d_metadata (p_entries p)"
    using expand_entries_Inr [OF s bounded all] held(1) by (auto simp: contents_held_def)
  have "metadata_held (e_metadata e)" if "e \<in> set es" for e
  proof -
    have "e_metadata e \<in> set (map d_metadata (p_entries p))" using that unfolding es(5) [symmetric] by simp
    then show ?thesis using held(1) by auto
  qed
  then have new: "snapshot_held \<lparr>s_entries = es, s_root = p_root p\<rparr>"
    using es(2) held(2) by (simp add: snapshot_held_def contents_held_def)
  then have "r = \<lparr>s_entries = es, s_root = p_root p\<rparr> \<and> snapshot_canonical r \<and> snapshot_held r"
    using r(1) snapshot_new_iff [OF new, of r] by (auto simp: es(1))
  then show ?thesis using p masked(2) m r(2) es by auto
qed

lemma tree_apply_other_source:
  assumes create: "create mem N H s t options = Inr patch"
    and s: "snapshot_held s" and t: "snapshot_canonical t" "snapshot_held t"
    and s': "snapshot_canonical s'" "snapshot_held s'"
    and typed: "options_typed options" and width: "hash_width H" and mem: "\<forall>n. mem' n"
    and limits: "al_patch limits = limits_default"
    and hash: "snapshot_hash H (projection (o_omit options) s') \<noteq> snapshot_hash H (projection (o_omit options) s)"
  shows "tree_apply mem' N' H s' patch limits = Inl SourceHashMismatch"
proof -
  let ?s = "projection (o_omit options) s" and ?t = "projection (o_omit options) t"
  obtain ds where dec: "patch_decode mem' H patch limits_default = Inr (created_patch H ?s ?t options ds)"
    using created_patch_decodes [OF create s t(2,1) typed width mem] by blast
  let ?p = "created_patch H ?s ?t options ds"
  have head: "th_omit (p_header ?p) = o_omit options" "th_source_hash (p_header ?p) = snapshot_hash H ?s"
    by (simp_all add: created_patch_def create_header_def)
  have project: "(if o_omit options = 0 then Inr s' else project mem' s' (o_omit options))
      = Inr (projection (o_omit options) s')"
    using project_granted [OF s'(2,1) mem] by simp
  show ?thesis
    unfolding tree_apply_def limits dec and_then.simps head project using hash by simp
qed

text \<open>A pair of trees for instances: the target has a delta, a hard link, a copy, a symbolic link and
  a new file.\<close>

definition sample_source :: snapshot where
  "sample_source = \<lparr>s_entries =
     [\<lparr>e_path = ascii ''a'', e_content = Directory 0x1ED, e_metadata = metadata_default\<rparr>,
      \<lparr>e_path = ascii ''a/f'', e_content = File 0x1A4 [1, 2, 3], e_metadata = metadata_default\<rparr>,
      \<lparr>e_path = ascii ''b'', e_content = File 0x1A4 [7], e_metadata = metadata_default\<rparr>],
     s_root = metadata_default\<rparr>"

definition sample_target :: snapshot where
  "sample_target = \<lparr>s_entries =
     [\<lparr>e_path = ascii ''a'', e_content = Directory 0x1ED, e_metadata = metadata_default\<rparr>,
      \<lparr>e_path = ascii ''a/f'', e_content = File 0x1A4 [9, 2], e_metadata = metadata_default\<rparr>,
      \<lparr>e_path = ascii ''a/g'', e_content = File 0x1A4 [9, 2],
        e_metadata = metadata_default\<lparr>hardlink_to := Some (ascii ''a/f'')\<rparr>\<rparr>,
      \<lparr>e_path = ascii ''b'', e_content = File 0x180 [7], e_metadata = metadata_default\<rparr>,
      \<lparr>e_path = ascii ''c'', e_content = Symlink (ascii ''a/f''), e_metadata = metadata_default\<rparr>,
      \<lparr>e_path = ascii ''d'', e_content = File 0x1A4 [5], e_metadata = metadata_default\<rparr>],
     s_root = metadata_default\<rparr>"

definition sample_options :: create_options where
  "sample_options = \<lparr>o_rules = [\<lparr>rule_action = Exclude, rule_pattern = ascii ''*.o''\<rparr>], o_omit = 0\<rparr>"

definition sample_patch :: bytes where
  "sample_patch = projr (create (\<lambda>_. True) stored_native padded_hash sample_source sample_target sample_options)"

lemma sample_created:
  "create (\<lambda>_. True) stored_native padded_hash sample_source sample_target sample_options = Inr sample_patch"
proof -
  have "\<not> isl (create (\<lambda>_. True) stored_native padded_hash sample_source sample_target sample_options)"
    by code_simp
  then show ?thesis by (simp add: sample_patch_def)
qed

lemma sample_source_new: "snapshot_new sample_source = Inr sample_source"
  by code_simp
lemma sample_target_new: "snapshot_new sample_target = Inr sample_target"
  by code_simp

lemma held_default_link:
  "metadata_held (metadata_default\<lparr>hardlink_to := Some (ascii ''a/f'')\<rparr>)"
proof -
  have "metadata_validate (metadata_default\<lparr>hardlink_to := Some (ascii ''a/f'')\<rparr>) = Inr ()" by code_simp
  moreover have "in_memory (concat (write_chunks (metadata_default\<lparr>hardlink_to := Some (ascii ''a/f'')\<rparr>)))"
    by (simp add: in_memory_def concat_write_chunks print_metadata_def metadata_default_def
        print_vector_def print_native_acl_def print_times_def times_default_def
        print_flagged_time_def print_option_def print_blob_def ascii_def)
  ultimately show ?thesis
    by (simp add: metadata_held_def metadata_validate_iff metadata_typed_def metadata_default_def)
qed

lemma sample_source_held: "snapshot_held sample_source"
  by (simp add: snapshot_held_def sample_source_def metadata_default_held in_memory_def)

lemma sample_target_held: "snapshot_held sample_target"
  using held_default_link
  by (simp add: snapshot_held_def sample_target_def metadata_default_held in_memory_def ascii_def)

lemma sample_canonical: "snapshot_canonical sample_source" "snapshot_canonical sample_target"
  using snapshot_new_iff [OF sample_source_held] snapshot_new_iff [OF sample_target_held]
    sample_source_new sample_target_new by auto

lemma sample_options_typed: "options_typed sample_options"
proof -
  have "omit_from_bits 0 = Inr 0" "from_utf8_ok (ascii ''*.o'')" by code_simp+
  then show ?thesis by (simp add: options_typed_def sample_options_def in_memory_def ascii_def)
qed

lemma sample_output: "output_bytes (s_entries sample_target) = 9"
  by (simp add: output_bytes_def sample_target_def ascii_def)

lemma stored_native_bounded: "zstd_bounded_output stored_native"
  by (auto simp: zstd_bounded_output_def stored_native_def unat_as_u64_le)

lemma sample_patch_size: "in_memory sample_patch"
proof -
  have "length sample_patch \<le> 1000" by code_simp
  then show ?thesis by (simp add: in_memory_def)
qed

section \<open>Properties of tree patches\<close>

text \<open>C1. Applying a created patch to its source rebuilds the target tree. Whenever \<open>create\<close> returns a
  patch for two canonical snapshots, \<open>apply\<close> on the same source returns exactly the target with the
  omitted metadata families removed: every path, mode, file content, symbolic link, hard link and
  retained metadata record, for any output budget that admits the target. Memory is granted to
  \<open>apply\<close>, BLAKE3 is 32 bytes wide and the zstd library honours its contract.\<close>

theorem tree_apply_create:
  assumes "create mem N H s t options = Inr patch"
    and "snapshot_canonical s" "snapshot_held s" and "snapshot_canonical t" "snapshot_held t"
    and "options_typed options" and "hash_width H"
    and "zstd_prefix_frames N" "\<forall>bs. \<exists>c. decoder_for N bs c" and "\<forall>n. mem' n"
    and "al_patch limits = limits_default"
    and "output_bytes (s_entries t) \<le> unat (max_output_bytes limits)"
  shows "tree_apply mem' N H s patch limits = Inr (projection (o_omit options) t)"
  using tree_apply_created [OF assms(1-11)] assms(12) by simp

theorem tree_apply_create_witness:
  "tree_apply (\<lambda>_. True) stored_native padded_hash sample_source sample_patch apply_limits_default
     = Inr sample_target"
proof -
  have "output_bytes (s_entries sample_target) \<le> unat (max_output_bytes apply_limits_default)"
    "al_patch apply_limits_default = limits_default"
    unfolding sample_output by (simp_all add: apply_limits_default_def)
  then show ?thesis
    using tree_apply_create [OF sample_created sample_canonical(1) sample_source_held sample_canonical(2)
        sample_target_held sample_options_typed padded_hash_width stored_native_frames]
      stored_native_decoder
    by (auto simp: sample_options_def)
qed

text \<open>C5. The output budget is enforced: if the files and links of the target hold more bytes in total
  than the budget, applying the created patch is refused with the limit error, for any budget and
  whichever entry crosses it, copied, linked, raw or compressed.\<close>

theorem tree_apply_over_budget:
  assumes "create mem N H s t options = Inr patch"
    and "snapshot_canonical s" "snapshot_held s" and "snapshot_canonical t" "snapshot_held t"
    and "options_typed options" and "hash_width H"
    and "zstd_prefix_frames N" "\<forall>bs. \<exists>c. decoder_for N bs c" and "\<forall>n. mem' n"
    and "al_patch limits = limits_default"
    and "output_bytes (s_entries t) > unat (max_output_bytes limits)"
  shows "tree_apply mem' N H s patch limits = Inl LimitExceeded"
  using tree_apply_created [OF assms(1-11)] assms(12) by simp

theorem tree_apply_over_budget_witness:
  "tree_apply (\<lambda>_. True) stored_native padded_hash sample_source sample_patch
     \<lparr>al_patch = limits_default, max_output_bytes = 8\<rparr> = Inl LimitExceeded"
  by (rule tree_apply_over_budget [OF sample_created sample_canonical(1) sample_source_held
        sample_canonical(2) sample_target_held sample_options_typed padded_hash_width stored_native_frames])
    (auto simp: sample_output intro: stored_native_decoder)

text \<open>C2. What a successful \<open>apply\<close> guarantees, for any patch, even a hostile one, and any allocator: the
  patch parses within the limits, the source has the identity that the header names, the result is a
  canonical snapshot with the identity that the header names, its paths, metadata and root are those
  of the patch, and its files and links hold no more bytes than the budget. The codec is only trusted
  to count the bytes it writes.\<close>

theorem tree_apply_sound:
  assumes "tree_apply mem N H s patch limits = Inr r"
    and "snapshot_canonical s" "snapshot_held s" and "hash_width H"
    and "in_memory patch" and "zstd_bounded_output N"
  shows "\<exists>p. patch_decode mem H patch (al_patch limits) = Inr p
    \<and> snapshot_hash H (projection (th_omit (p_header p)) s) = th_source_hash (p_header p)
    \<and> snapshot_hash H r = th_target_hash (p_header p)
    \<and> snapshot_canonical r \<and> snapshot_held r
    \<and> output_bytes (s_entries r) \<le> unat (max_output_bytes limits)
    \<and> map e_path (s_entries r) = map d_path (p_entries p)
    \<and> map e_metadata (s_entries r) = map d_metadata (p_entries p) \<and> s_root r = p_root p"
  using assms by (rule tree_apply_Inr)

lemma sample_applied:
  "tree_apply (\<lambda>_. True) stored_native padded_hash sample_source sample_patch
     \<lparr>al_patch = limits_default, max_output_bytes = 9\<rparr> = Inr sample_target"
  by (subst tree_apply_created [OF sample_created sample_canonical(1) sample_source_held
        sample_canonical(2) sample_target_held sample_options_typed padded_hash_width stored_native_frames])
    (auto simp: sample_output sample_options_def intro: stored_native_decoder)

theorem tree_apply_sound_witness:
  "\<exists>p. patch_decode (\<lambda>_. True) padded_hash sample_patch limits_default = Inr p
    \<and> snapshot_hash padded_hash sample_target = th_target_hash (p_header p)
    \<and> map d_path (p_entries p) = map e_path (s_entries sample_target)"
  using tree_apply_sound [OF sample_applied sample_canonical(1) sample_source_held padded_hash_width
      sample_patch_size stored_native_bounded] by auto

text \<open>C3. A patch cannot produce anything but the tree it names: if the target hash in the header of a
  parsed patch is the identity of a canonical snapshot \<open>t\<close>, then every successful application of that
  patch, to any source, returns \<open>t\<close>, unless the hash function collides on the inputs hashed for the
  result and for \<open>t\<close>.\<close>

theorem tree_apply_authentic:
  assumes "tree_apply mem N H s patch limits = Inr r"
    and "snapshot_canonical s" "snapshot_held s" and "hash_width H"
    and "in_memory patch" and "zstd_bounded_output N"
    and "patch_decode mem H patch (al_patch limits) = Inr p"
    and "th_target_hash (p_header p) = snapshot_hash H t"
    and "snapshot_canonical t" "snapshot_held t"
    and "inj_on H (hashed_inputs H r \<union> hashed_inputs H t)"
  shows "r = t"
  using tree_apply_Inr [OF assms(1-6)] assms(7-11)
  by (intro snapshot_hash_inj [OF _ _ _ _ assms(4)]) auto

theorem tree_apply_authentic_witness: "\<exists>r. r = sample_target \<and> tree_apply (\<lambda>_. True) stored_native
    padded_hash sample_source sample_patch \<lparr>al_patch = limits_default, max_output_bytes = 9\<rparr> = Inr r"
proof -
  obtain p where p: "patch_decode (\<lambda>_. True) padded_hash sample_patch limits_default = Inr p"
    "snapshot_hash padded_hash sample_target = th_target_hash (p_header p)"
    using tree_apply_Inr [OF sample_applied sample_canonical(1) sample_source_held padded_hash_width
        sample_patch_size stored_native_bounded] by auto
  have "inj_on padded_hash (set (snapshot_identity padded_hash sample_target
      # metadata_input (s_root sample_target) # map (\<lambda>e. metadata_input (e_metadata e)) (s_entries sample_target)))"
    unfolding inj_on_def by code_simp
  then have "inj_on padded_hash (hashed_inputs padded_hash sample_target \<union> hashed_inputs padded_hash sample_target)"
    by (simp add: hashed_inputs_def)
  with tree_apply_authentic [OF sample_applied sample_canonical(1) sample_source_held padded_hash_width
      sample_patch_size stored_native_bounded, of p sample_target] p sample_canonical(2) sample_target_held
  show ?thesis using sample_applied by auto
qed

text \<open>C4. A created patch is refused on any other source: if a canonical snapshot differs from the one
  the patch was created for, in anything but the omitted metadata families, then \<open>apply\<close> reports the
  source hash mismatch before expanding a single entry, unless the hash function collides.\<close>

theorem tree_apply_wrong_source:
  assumes "create mem N H s t options = Inr patch"
    and "snapshot_canonical s" "snapshot_held s" and "snapshot_canonical t" "snapshot_held t"
    and "snapshot_canonical s'" "snapshot_held s'"
    and "options_typed options" and "hash_width H" and "\<forall>n. mem' n"
    and "al_patch limits = limits_default"
    and "projection (o_omit options) s' \<noteq> projection (o_omit options) s"
    and "inj_on H (hashed_inputs H (projection (o_omit options) s')
      \<union> hashed_inputs H (projection (o_omit options) s))"
  shows "tree_apply mem' N' H s' patch limits = Inl SourceHashMismatch"
proof -
  have "snapshot_hash H (projection (o_omit options) s') \<noteq> snapshot_hash H (projection (o_omit options) s)"
    using snapshot_hash_inj [OF _ _ _ _ assms(9) assms(13)] assms(2,3,6,7,12)
    by (auto simp: projection_canonical projection_held)
  then show ?thesis
    by (rule tree_apply_other_source [OF assms(1,3,4,5,6,7,8,9,10,11)])
qed

theorem tree_apply_wrong_source_witness:
  "tree_apply (\<lambda>_. True) stored_native padded_hash sample_tree sample_patch apply_limits_default
     = Inl SourceHashMismatch"
proof -
  have "inj_on padded_hash (set (snapshot_identity padded_hash sample_tree # snapshot_identity padded_hash sample_source
      # metadata_input (s_root sample_tree) # metadata_input (s_root sample_source)
      # map (\<lambda>e. metadata_input (e_metadata e)) (s_entries sample_tree @ s_entries sample_source)))"
    unfolding inj_on_def by code_simp
  moreover have "hashed_inputs padded_hash sample_tree \<union> hashed_inputs padded_hash sample_source
      = set (snapshot_identity padded_hash sample_tree # snapshot_identity padded_hash sample_source
      # metadata_input (s_root sample_tree) # metadata_input (s_root sample_source)
      # map (\<lambda>e. metadata_input (e_metadata e)) (s_entries sample_tree @ s_entries sample_source))"
    by (auto simp: hashed_inputs_def)
  moreover have "snapshot_canonical sample_tree"
    using snapshot_new_iff [OF sample_tree_held] sample_tree_new by auto
  moreover have "sample_tree \<noteq> sample_source" by (simp add: sample_tree_def sample_source_def)
  ultimately show ?thesis
    by (intro tree_apply_wrong_source [OF sample_created sample_canonical(1) sample_source_held
          sample_canonical(2) sample_target_held _ sample_tree_held sample_options_typed padded_hash_width])
      (auto simp: sample_options_def apply_limits_default_def)
qed

text \<open>C6. Omitted metadata does not influence a patch: creating a patch from trees that differ only in
  the omitted families gives the same bytes or the same error, when memory is granted.\<close>

theorem create_ignores_omitted:
  assumes "snapshot_canonical s" "snapshot_held s" "snapshot_canonical t" "snapshot_held t"
    and "snapshot_canonical s'" "snapshot_held s'" "snapshot_canonical t'" "snapshot_held t'"
    and "\<forall>n. mem n"
    and "projection (o_omit options) s = projection (o_omit options) s'"
    and "projection (o_omit options) t = projection (o_omit options) t'"
  shows "create mem N H s t options = create mem N H s' t' options"
  using assms by (simp add: create_granted)

theorem create_ignores_omitted_witness:
  "create (\<lambda>_. True) stored_native padded_hash sample_source
      (sample_tree\<lparr>s_root := metadata_default\<lparr>finder_flags := 1\<rparr>\<rparr>) \<lparr>o_rules = [], o_omit = family_bit Finder\<rparr>
   = create (\<lambda>_. True) stored_native padded_hash sample_source sample_tree
      \<lparr>o_rules = [], o_omit = family_bit Finder\<rparr>"
  (is "create _ _ _ _ ?t ?options = _")
proof -
  have "metadata_validate (metadata_default\<lparr>finder_flags := 1\<rparr>) = Inr ()" by code_simp
  moreover have "in_memory (concat (write_chunks (metadata_default\<lparr>finder_flags := 1\<rparr>)))"
    by (simp add: in_memory_def concat_write_chunks print_metadata_def metadata_default_def
        print_vector_def print_native_acl_def print_times_def times_default_def
        print_flagged_time_def print_option_def)
  ultimately have held: "snapshot_held ?t"
    using sample_tree_held
    by (simp add: snapshot_held_def metadata_held_def metadata_validate_iff metadata_typed_def
        metadata_default_def)
  have "snapshot_new ?t = Inr ?t" by code_simp
  then have "snapshot_canonical ?t" "snapshot_canonical sample_tree"
    using snapshot_new_iff [OF held] snapshot_new_iff [OF sample_tree_held] sample_tree_new by auto
  moreover have "projection (o_omit ?options) ?t = projection (o_omit ?options) sample_tree" by code_simp
  ultimately show ?thesis
    using sample_canonical(1) sample_source_held sample_tree_held held
    by (intro create_ignores_omitted) auto
qed

end
