(* ===== verification/Linux_Acl.thy ===== *)
theory Linux_Acl
  imports Metadata_Decode
begin

text \<open>
  Linux POSIX ACL records and their portable container (\<open>rust/src/linux_acl.rs\<close>): the kernel's
  version-2 record list as bytes, its validation, the conversion from and to portable access entries
  with numeric principals, and the DIFZACL container of an access and a default list. The sort of
  \<open>encode_portable\<close> is unstable on equal keys; two equal keys make the result invalid whatever their
  order, so the stable sort used here gives the same results.
\<close>

definition ACL_MAGIC :: bytes where
  "ACL_MAGIC = ascii ''DIFZACL'' @ [1]"

datatype acl_error = InvalidAcl | OutOfMemory | UnrepresentableAcl

text \<open>One record: tag, numeric identifier, permissions.\<close>

type_synonym posix_entry = "u16 \<times> u32 \<times> u16"

record posix_acl =
  pa_bytes :: bytes

record linux_acl =
  access_acl :: posix_acl
  default_acl :: posix_acl

section \<open>Numbers\<close>

fun principal_digits :: "bool \<Rightarrow> u32 \<Rightarrow> bytes \<Rightarrow> acl_error + u32" where
  "principal_digits negative v [] = Inr v"
| "principal_digits negative v (b # bs) =
     (if b = 95 then principal_digits negative v bs
      else if \<not> is_ascii_digit b \<or> (negative \<and> b \<noteq> 48) then Inl UnrepresentableAcl
      else and_then (ok_or UnrepresentableAcl
          (Option.bind (checked_mul v 10) (\<lambda>n. checked_add n (ucast (b - 48)))))
        (\<lambda>v. principal_digits negative v bs))"

definition principal :: "bytes \<Rightarrow> acl_error + u32" where
  "principal name =
     (let (negative, digits) =
        (if name \<noteq> [] \<and> hd name = 43 then (False, tl name)
         else if name \<noteq> [] \<and> hd name = 45 then (True, tl name)
         else (False, name)) in
      if digits = [] \<or> starts_with digits [95] \<or> ends_with digits [95] then Inl UnrepresentableAcl
      else principal_digits negative 0 digits)"

text \<open>The digit buffer and the index of its first digit.\<close>

function decimal_loop :: "bytes \<Rightarrow> usize \<Rightarrow> u32 \<Rightarrow> bytes \<times> usize" where
  "decimal_loop digits start v =
     (let start = start - 1; digits = digits[start := 48 + ucast (v mod 10)]; v = v div 10 in
      if v = 0 then (digits, start) else decimal_loop digits start v)"
  by pat_completeness auto
termination
  by (relation "measure (\<lambda>(_, _, v). unat v)") (auto simp: unat_div unat_eq_zero [symmetric] simp del: unat_eq_zero)

definition decimal :: "allocator \<Rightarrow> u32 \<Rightarrow> acl_error + bytes" where
  "decimal mem v =
     (let (digits, start) = decimal_loop (replicate 10 0) 10 v in
      and_then (reserve mem (length digits - start) OutOfMemory) (\<lambda>_. Inr (drop start digits)))"

section \<open>Kernel records\<close>

fun acl_tag :: "u16 \<Rightarrow> acl_error + ace_tag" where
  "acl_tag v =
     (if v = 1 then Inr Owner else if v = 2 then Inr NamedUser else if v = 4 then Inr Group
      else if v = 8 then Inr NamedGroup else if v = 16 then Inr Mask else if v = 32 then Inr Everyone
      else Inl InvalidAcl)"

definition kernel_permission :: "permissions \<Rightarrow> u16" where
  "kernel_permission permissions =
     (let p = (\<lambda>b. if permissions_contains permissions b then 1 else 0) in
      push_bit 2 (p 1) OR push_bit 1 (p 2) OR p 4)"

definition ace_entry :: "ace \<Rightarrow> acl_error + posix_entry" where
  "ace_entry a =
     and_then (case ace_kind a of
         Owner \<Rightarrow> Inr (1, - 1) | Group \<Rightarrow> Inr (4, - 1) | Everyone \<Rightarrow> Inr (32, - 1) | Mask \<Rightarrow> Inr (16, - 1)
       | NamedUser \<Rightarrow> and_then (principal (ace_name a)) (\<lambda>id. Inr (2, id))
       | NamedGroup \<Rightarrow> and_then (principal (ace_name a)) (\<lambda>id. Inr (8, id)))
     (\<lambda>(tag, id). Inr (tag, id, kernel_permission (ace_permissions a)))"

fun ace_entries :: "ace list \<Rightarrow> acl_error + posix_entry list" where
  "ace_entries [] = Inr []"
| "ace_entries (a # as) = and_then (ace_entry a) (\<lambda>e. and_then (ace_entries as) (\<lambda>es. Inr (e # es)))"

definition entry_key :: "posix_entry \<Rightarrow> u16 \<times> u32" where
  "entry_key = (\<lambda>(tag, id, _). (tag, id))"

definition entry_bytes :: "posix_entry \<Rightarrow> bytes" where
  "entry_bytes = (\<lambda>(tag, id, perm). le_bytes tag @ le_bytes perm @ le_bytes id)"

text \<open>\<open>chunks_exact(8)\<close>.\<close>

fun chunks8 :: "bytes \<Rightarrow> bytes list" where
  "chunks8 (a # b # c # d # e # f # g # h # bs) = [a, b, c, d, e, f, g, h] # chunks8 bs"
| "chunks8 _ = []"

definition entry_fields :: "bytes \<Rightarrow> posix_entry" where
  "entry_fields chunk = (le_word (take 2 chunk), le_word (take 4 (drop 4 chunk)), le_word (take 2 (drop 2 chunk)))"

text \<open>The state of the validation loop.\<close>

record acl_scan =
  sc_base :: u8
  sc_last_tag :: u16
  sc_last_id :: u32
  sc_named :: bool

definition scan_entry :: "posix_entry \<Rightarrow> acl_scan \<Rightarrow> acl_error + acl_scan" where
  "scan_entry = (\<lambda>(raw_tag, id, permission) s.
     if permission > 7 \<or> raw_tag < sc_last_tag s then Inl InvalidAcl
     else and_then (acl_tag raw_tag) (\<lambda>kind.
       and_then
         (if kind = NamedUser \<or> kind = NamedGroup then
            (if id = - 1 \<or> (raw_tag = sc_last_tag s \<and> id \<le> sc_last_id s) then Inl InvalidAcl
             else Inr (s\<lparr>sc_named := True\<rparr>))
          else
            (if id \<noteq> - 1 \<or> raw_tag = sc_last_tag s then Inl InvalidAcl
             else Inr (s\<lparr>sc_base := sc_base s OR
               (case kind of Owner \<Rightarrow> 1 | Group \<Rightarrow> 2 | Mask \<Rightarrow> 4 | Everyone \<Rightarrow> 8 | _ \<Rightarrow> 0)\<rparr>)))
         (\<lambda>s. Inr (s\<lparr>sc_last_tag := raw_tag, sc_last_id := id\<rparr>))))"

fun scan_entries :: "posix_entry list \<Rightarrow> acl_scan \<Rightarrow> acl_error + acl_scan" where
  "scan_entries [] s = Inr s"
| "scan_entries (e # es) s = and_then (scan_entry e s) (scan_entries es)"

definition posix_acl_new :: "bytes \<Rightarrow> acl_error + posix_acl" where
  "posix_acl_new bs =
     (if bs = [] then Inr \<lparr>pa_bytes = bs\<rparr>
      else if length bs < 4 \<or> (length bs - 4) mod 8 \<noteq> 0 \<or> take 4 bs \<noteq> le_bytes (2 :: u32) then Inl InvalidAcl
      else
        and_then (scan_entries (map entry_fields (chunks8 (drop 4 bs)))
            \<lparr>sc_base = 0, sc_last_tag = 0, sc_last_id = 0, sc_named = False\<rparr>) (\<lambda>s.
        if sc_base s AND 11 \<noteq> 11 \<or> (sc_named s \<and> sc_base s AND 4 = 0) then Inl InvalidAcl
        else Inr \<lparr>pa_bytes = bs\<rparr>))"

definition portable_permission :: "u8 \<Rightarrow> u8" where
  "portable_permission permission =
     drop_bit 2 (permission AND 4) OR (permission AND 2) OR push_bit 2 (permission AND 1)"

definition portable_ace :: "allocator \<Rightarrow> bytes \<Rightarrow> acl_error + ace" where
  "portable_ace mem chunk =
     and_then (acl_tag (le_word (take 2 chunk))) (\<lambda>tag.
     and_then (if tag = NamedUser \<or> tag = NamedGroup then decimal mem (le_word (take 4 (drop 4 chunk)))
               else Inr []) (\<lambda>name.
     and_then (map_err (\<lambda>_. InvalidAcl) (permissions_from_bits (portable_permission (chunk ! 2)))) (\<lambda>permissions.
     Inr \<lparr>ace_kind = tag, ace_permissions = permissions, ace_name = name\<rparr>)))"

fun portable_aces :: "allocator \<Rightarrow> bytes list \<Rightarrow> acl_error + ace list" where
  "portable_aces mem [] = Inr []"
| "portable_aces mem (c # cs) =
     and_then (portable_ace mem c) (\<lambda>a. and_then (portable_aces mem cs) (\<lambda>as. Inr (a # as)))"

definition portable :: "allocator \<Rightarrow> posix_acl \<Rightarrow> acl_error + ace list" where
  "portable mem acl =
     (if pa_bytes acl = [] then Inr []
      else and_then (reserve mem ((length (pa_bytes acl) - 4) div 8) OutOfMemory) (\<lambda>_.
        portable_aces mem (chunks8 (drop 4 (pa_bytes acl)))))"

definition encode_portable :: "allocator \<Rightarrow> metadata \<Rightarrow> acl_error + bytes" where
  "encode_portable mem m =
     (if aces m = [] then Inr []
      else
        and_then (reserve mem (length (aces m)) OutOfMemory) (\<lambda>_.
        and_then (ace_entries (aces m)) (\<lambda>entries.
        let entries = sort_key entry_key entries in
        and_then (ok_or InvalidAcl (Option.bind (checked_mul_usize (length entries) 8)
            (\<lambda>n. checked_add_usize n 4))) (\<lambda>n.
        and_then (reserve mem n OutOfMemory) (\<lambda>_.
        let bs = le_bytes (2 :: u32) @ concat (map entry_bytes entries) in
        and_then (posix_acl_new bs) (\<lambda>_. Inr bs))))))"

section \<open>The container\<close>

definition linux_acl_encode :: "allocator \<Rightarrow> linux_acl \<Rightarrow> acl_error + bytes" where
  "linux_acl_encode mem acl =
     (let access = pa_bytes (access_acl acl); default' = pa_bytes (default_acl acl) in
      and_then (ok_or InvalidAcl (u32_try_from (length access))) (\<lambda>a.
      and_then (ok_or InvalidAcl (u32_try_from (length default'))) (\<lambda>d.
      and_then (ok_or InvalidAcl (Option.bind (checked_add_usize (length access) (length default'))
          (\<lambda>n. checked_add_usize n 16))) (\<lambda>n.
      and_then (reserve mem n OutOfMemory) (\<lambda>_.
      Inr (ACL_MAGIC @ le_bytes a @ le_bytes d @ access @ default'))))))"

definition linux_acl_decode :: "bytes \<Rightarrow> acl_error + linux_acl" where
  "linux_acl_decode bs =
     (if length bs < 16 \<or> take 8 bs \<noteq> ACL_MAGIC then Inl InvalidAcl
      else
        (let access = le_word (take 4 (drop 8 bs)) :: u32; default' = le_word (take 4 (drop 12 bs)) :: u32 in
         if ucast access + ucast default' \<noteq> as_u64 (length bs - 16) then Inl InvalidAcl
         else
           (let boundary = 16 + unat access in
            and_then (posix_acl_new (take (boundary - 16) (drop 16 bs))) (\<lambda>a.
            and_then (posix_acl_new (drop boundary bs)) (\<lambda>d.
            Inr \<lparr>access_acl = a, default_acl = d\<rparr>)))))"

section \<open>Numbers: lemmas\<close>

text \<open>The usual decimal numeral.\<close>

function decimal_string :: "nat \<Rightarrow> bytes" where
  "decimal_string n = (if n < 10 then [48 + of_nat n] else decimal_string (n div 10) @ [48 + of_nat (n mod 10)])"
  by pat_completeness auto
termination
  by (relation "measure id") auto

declare decimal_string.simps [simp del] decimal_loop.simps [simp del]

lemma decimal_string_length: "0 < k \<Longrightarrow> n < 10 ^ k \<Longrightarrow> length (decimal_string n) \<le> k"
proof (induction k arbitrary: n)
  case (Suc k)
  show ?case
  proof (cases "n < 10")
    case False
    then have "k \<noteq> 0" using Suc.prems(2) by (cases k) auto
    moreover have "n div 10 < 10 ^ k" using Suc.prems(2) by (auto simp: div_less_iff_less_mult mult.commute)
    ultimately show ?thesis using Suc.IH False by (simp add: decimal_string.simps [of n])
  qed (simp add: decimal_string.simps [of n])
qed simp

lemma decimal_loop_string:
  "length (decimal_string (unat v)) \<le> start \<Longrightarrow> start \<le> length digits \<Longrightarrow>
    \<exists>digits'. decimal_loop digits start v = (digits', start - length (decimal_string (unat v)))
      \<and> length digits' = length digits
      \<and> drop (start - length (decimal_string (unat v))) digits' = decimal_string (unat v) @ drop start digits"
proof (induction "unat v" arbitrary: digits start v rule: less_induct)
  case less
  have digit: "ucast (v mod 10) = (of_nat (unat v mod 10) :: u8)"
  proof -
    have "unat v mod 10 = unat (v mod 10)" by (simp add: unat_mod)
    then show ?thesis by simp
  qed
  have pos: "0 < start" using less.prems(1) by (cases "unat v < 10") (auto simp: decimal_string.simps [of "unat v"])
  let ?digits = "digits[start - 1 := 48 + ucast (v mod 10)]"
  have last: "drop (start - 1) ?digits = (48 + ucast (v mod 10)) # drop start digits"
    using pos less.prems(2) by (simp add: drop_update_swap Cons_nth_drop_Suc [symmetric])
  show ?case
  proof (cases "unat v < 10")
    case True
    then have "v div 10 = 0" by (simp add: word_unat_eq_iff unat_div)
    then show ?thesis
      using last True digit pos by (simp add: decimal_loop.simps [of digits] decimal_string.simps [of "unat v"] Let_def)
  next
    case False
    then have "v div 10 \<noteq> 0" by (simp add: word_unat_eq_iff unat_div)
    moreover have "unat (v div 10) = unat v div 10" by (simp add: unat_div)
    moreover have "length (decimal_string (unat v div 10)) \<le> start - 1" "start - 1 \<le> length ?digits"
      using less.prems False by (simp_all add: decimal_string.simps [of "unat v"])
    ultimately show ?thesis
      using less.hyps [of "v div 10" "start - 1" ?digits] last False digit
      by (fastforce simp: decimal_loop.simps [of digits] decimal_string.simps [of "unat v"] Let_def)
  qed
qed

lemma decimal_eq:
  "decimal mem v = and_then (reserve mem (length (decimal_string (unat v))) OutOfMemory)
     (\<lambda>_. Inr (decimal_string (unat v)))"
proof -
  have "unat v < 2 ^ 32" using unsigned_less [of v, where 'a = nat] by simp
  then have n: "length (decimal_string (unat v)) \<le> 10" by (intro decimal_string_length) auto
  from decimal_loop_string [OF n, of "replicate 10 0"] n show ?thesis
    by (auto simp: decimal_def Let_def)
qed

lemma principal_digits_append:
  "principal_digits neg v (xs @ ys) = and_then (principal_digits neg v xs) (\<lambda>v. principal_digits neg v ys)"
proof (induction xs arbitrary: v)
  case (Cons b xs)
  have assoc: "and_then (and_then r f) g = and_then r (\<lambda>x. and_then (f x) g)" for r :: "acl_error + u32" and f g
    by (cases r) auto
  show ?case by (simp add: Cons assoc)
qed simp

lemma digit_byte:
  assumes "d < 10"
  shows "is_ascii_digit (48 + of_nat d)" "(48 + of_nat d :: u8) \<noteq> 95" "unat (ucast (48 + of_nat d - 48 :: u8) :: u32) = d"
proof -
  have "d \<in> {0, 1, 2, 3, 4, 5, 6, 7, 8, 9}" using assms by auto
  then show "is_ascii_digit (48 + of_nat d)" "(48 + of_nat d :: u8) \<noteq> 95"
    "unat (ucast (48 + of_nat d - 48 :: u8) :: u32) = d"
    by (auto simp: is_ascii_digit_def)
qed

lemma principal_digit:
  assumes "d < 10" and "unat v * 10 + d < 2 ^ 32"
  shows "principal_digits False v [48 + of_nat d] = Inr (of_nat (unat v * 10 + d))"
proof -
  have v: "unat (v * 10) = unat v * 10" using assms by (simp add: unat_word_ariths)
  have "checked_mul v 10 = Some (v * 10)" using assms by (simp add: checked_mul_def)
  moreover have "checked_add (v * 10) (ucast (48 + of_nat d - 48 :: u8)) = Some (of_nat (unat v * 10 + d))"
    using assms v digit_byte(3) [OF assms(1)]
    by (simp add: checked_add_def word_unat_eq_iff unat_word_ariths unsigned_of_nat take_bit_nat_eq_self)
  ultimately show ?thesis using digit_byte [OF assms(1)] by simp
qed

lemma principal_digits_string:
  "n < 2 ^ 32 \<Longrightarrow> principal_digits False 0 (decimal_string n) = Inr (of_nat n)"
proof (induction n rule: less_induct)
  case (less n)
  show ?case
  proof (cases "n < 10")
    case True
    then show ?thesis using principal_digit [of n 0] by (simp add: decimal_string.simps [of n] del: principal_digits.simps)
  next
    case False
    have "unat (of_nat (n div 10) :: u32) = n div 10"
      using less.prems by (simp add: unsigned_of_nat take_bit_nat_eq_self)
    then show ?thesis
      using False less principal_digit [of "n mod 10" "of_nat (n div 10)"]
      by (simp add: decimal_string.simps [of n] principal_digits_append del: principal_digits.simps)
  qed
qed

lemma decimal_string_digits: "b \<in> set (decimal_string n) \<Longrightarrow> is_ascii_digit b"
proof (induction n rule: less_induct)
  case (less n)
  then show ?case
    using digit_byte(1) [of "n mod 10"] digit_byte(1) [of n] less.IH [of "n div 10"]
    by (cases "n < 10") (auto simp: decimal_string.simps [of n])
qed

lemma decimal_string_nonempty: "decimal_string n \<noteq> []"
  by (simp add: decimal_string.simps [of n])

lemma starts_with_single: "starts_with xs [x] \<longleftrightarrow> xs \<noteq> [] \<and> hd xs = x"
  by (cases xs) (auto simp: starts_with_def)

lemma ends_with_single: "ends_with xs [x] \<longleftrightarrow> xs \<noteq> [] \<and> last xs = x"
  by (cases xs rule: rev_cases) (auto simp: ends_with_def)

lemma principal_decimal_string:
  assumes "n < 2 ^ 32"
  shows "principal (decimal_string n) = Inr (of_nat n)"
proof -
  have d: "is_ascii_digit b" if "b \<in> {hd (decimal_string n), last (decimal_string n)}" for b
    using that decimal_string_digits hd_in_set [OF decimal_string_nonempty] last_in_set [OF decimal_string_nonempty]
    by blast
  have "hd (decimal_string n) \<notin> {43, 45, 95}" "last (decimal_string n) \<noteq> 95"
    using d [of "hd (decimal_string n)"] d [of "last (decimal_string n)"] by (auto simp: is_ascii_digit_def)
  then show ?thesis
    using principal_digits_string [OF assms] decimal_string_nonempty [of n]
    by (simp add: principal_def starts_with_single ends_with_single)
qed

section \<open>Kernel records: lemmas\<close>

lemma entry_bytes_length: "length (entry_bytes e) = 8"
  by (simp add: entry_bytes_def split: prod.splits)

lemma entry_fields_bytes: "entry_fields (entry_bytes e) = e"
  by (simp add: entry_fields_def entry_bytes_def split: prod.splits)

lemma chunks8_append: "length c = 8 \<Longrightarrow> chunks8 (c @ bs) = c # chunks8 bs"
  by (auto simp: length_Suc_conv numeral_eq_Suc)

lemma chunks8_concat: "chunks8 (concat (map entry_bytes es)) = map entry_bytes es"
  by (induction es) (simp_all add: chunks8_append entry_bytes_length)

lemma chunk_fields: "length c = 8 \<Longrightarrow> entry_bytes (entry_fields c) = c"
  by (auto simp: entry_bytes_def entry_fields_def take_drop_chunk)

lemma concat_chunks8: "length bs mod 8 = 0 \<Longrightarrow> concat (map (\<lambda>c. entry_bytes (entry_fields c)) (chunks8 bs)) = bs"
proof (induction bs rule: chunks8.induct)
  case (1 a b c d e f g h bs)
  then show ?case by (simp add: chunk_fields)
qed auto

text \<open>A record that may stand in an ACL, and a list of records that is one.\<close>

definition entry_ok :: "posix_entry \<Rightarrow> bool" where
  "entry_ok = (\<lambda>(tag, id, perm). perm \<le> 7
     \<and> (tag \<in> {1, 4, 16, 32} \<and> id = - 1 \<or> tag \<in> {2, 8} \<and> id \<noteq> - 1))"

definition entries_wf :: "posix_entry list \<Rightarrow> bool" where
  "entries_wf es \<longleftrightarrow> (\<forall>e \<in> set es. entry_ok e) \<and> sorted_wrt (<) (map entry_key es)
     \<and> {1, 4, 32} \<subseteq> fst ` set es \<and> (fst ` set es \<inter> {2, 8} = {} \<or> 16 \<in> fst ` set es)"

definition print_entries :: "posix_entry list \<Rightarrow> bytes" where
  "print_entries es = le_bytes (2 :: u32) @ concat (map entry_bytes es)"

lemma print_entries_fields: "map entry_fields (chunks8 (drop 4 (print_entries es))) = es"
  by (simp add: print_entries_def chunks8_concat comp_def entry_fields_bytes)

definition base_bit :: "u16 \<Rightarrow> u8" where
  "base_bit tag = (if tag = 1 then 1 else if tag = 4 then 2 else if tag = 16 then 4 else if tag = 32 then 8 else 0)"

definition scan_next :: "posix_entry \<Rightarrow> acl_scan \<Rightarrow> acl_scan" where
  "scan_next = (\<lambda>(tag, id, perm) s. \<lparr>sc_base = sc_base s OR base_bit tag, sc_last_tag = tag, sc_last_id = id,
     sc_named = (sc_named s \<or> tag \<in> {2, 8})\<rparr>)"

definition scan_ok :: "acl_scan \<Rightarrow> bool" where
  "scan_ok s \<longleftrightarrow> (sc_last_tag s \<in> {1, 4, 16, 32} \<longrightarrow> sc_last_id s = - 1)"

lemma acl_tag_cases:
  "acl_tag tag = Inr kind \<longleftrightarrow>
     (kind = Owner \<and> tag = 1) \<or> (kind = NamedUser \<and> tag = 2) \<or> (kind = Group \<and> tag = 4)
     \<or> (kind = NamedGroup \<and> tag = 8) \<or> (kind = Mask \<and> tag = 16) \<or> (kind = Everyone \<and> tag = 32)"
  by (cases kind) auto

lemma word_max: "(w :: u32) < - 1 \<longleftrightarrow> w \<noteq> - 1"
  using word_n1_ge [of w] by (auto simp: le_less)

lemma scan_entry_eq:
  "scan_entry (tag, who, perm) s =
     (if perm > 7 \<or> tag < sc_last_tag s then Inl InvalidAcl
      else if tag \<in> {2, 8} then
        (if who = - 1 \<or> (tag = sc_last_tag s \<and> who \<le> sc_last_id s) then Inl InvalidAcl
         else Inr (scan_next (tag, who, perm) s))
      else if tag \<in> {1, 4, 16, 32} then
        (if who \<noteq> - 1 \<or> tag = sc_last_tag s then Inl InvalidAcl else Inr (scan_next (tag, who, perm) s))
      else Inl InvalidAcl)"
proof -
  consider "tag = 1" | "tag = 2" | "tag = 4" | "tag = 8" | "tag = 16" | "tag = 32" | "tag \<notin> {1, 2, 4, 8, 16, 32}"
    by auto
  then show ?thesis
    by cases (simp_all add: scan_entry_def scan_next_def base_bit_def)
qed

lemma scan_entry_Inr:
  assumes "scan_ok s"
  shows "scan_entry e s = Inr s' \<longleftrightarrow>
    entry_ok e \<and> (sc_last_tag s, sc_last_id s) < entry_key e \<and> s' = scan_next e s"
proof -
  obtain tag who perm where e: "e = (tag, who, perm)" by (cases e) auto
  have less: "(sc_last_tag s, sc_last_id s) < entry_key e \<longleftrightarrow>
      \<not> tag < sc_last_tag s \<and> \<not> (tag = sc_last_tag s \<and> who \<le> sc_last_id s)"
    by (auto simp: e entry_key_def not_less)
  show ?thesis
  proof (cases "tag \<in> {1, 4, 16, 32}")
    case True
    then have "\<not> tag \<in> {2, 8}" by auto
    then have "scan_entry e s = Inr s' \<longleftrightarrow> \<not> perm > 7 \<and> \<not> tag < sc_last_tag s \<and> who = - 1
        \<and> tag \<noteq> sc_last_tag s \<and> s' = scan_next e s"
      unfolding e scan_entry_eq using True by auto
    moreover have "who = - 1 \<Longrightarrow> tag = sc_last_tag s \<Longrightarrow> who \<le> sc_last_id s"
      using assms True by (auto simp: scan_ok_def)
    ultimately show ?thesis using True \<open>\<not> tag \<in> {2, 8}\<close> unfolding less by (auto simp: e entry_ok_def not_less)
  next
    case False
    then have "scan_entry e s = Inr s' \<longleftrightarrow> \<not> perm > 7 \<and> \<not> tag < sc_last_tag s \<and> tag \<in> {2, 8} \<and> who \<noteq> - 1
        \<and> \<not> (tag = sc_last_tag s \<and> who \<le> sc_last_id s) \<and> s' = scan_next e s"
      unfolding e scan_entry_eq by auto
    then show ?thesis using False unfolding less by (auto simp: e entry_ok_def not_less)
  qed
qed

lemma scan_next_ok: "entry_ok e \<Longrightarrow> scan_ok (scan_next e s)"
  by (auto simp: entry_ok_def scan_next_def scan_ok_def)

lemma scan_next_key: "(sc_last_tag (scan_next e s), sc_last_id (scan_next e s)) = entry_key e"
  by (simp add: scan_next_def entry_key_def split: prod.splits)

lemma scan_entries_Inr:
  "scan_ok s \<Longrightarrow> scan_entries es s = Inr s' \<longleftrightarrow> (\<forall>e \<in> set es. entry_ok e)
     \<and> sorted_wrt (<) ((sc_last_tag s, sc_last_id s) # map entry_key es) \<and> s' = fold scan_next es s"
proof (induction es arbitrary: s)
  case (Cons e es)
  have "scan_entries (e # es) s = Inr s' \<longleftrightarrow> entry_ok e \<and> (sc_last_tag s, sc_last_id s) < entry_key e
      \<and> scan_entries es (scan_next e s) = Inr s'"
    by (auto simp: and_then_Inr scan_entry_Inr [OF Cons.prems])
  also have "\<dots> \<longleftrightarrow> entry_ok e \<and> (sc_last_tag s, sc_last_id s) < entry_key e \<and> (\<forall>e \<in> set es. entry_ok e)
      \<and> sorted_wrt (<) (entry_key e # map entry_key es) \<and> s' = fold scan_next es (scan_next e s)"
    using Cons.IH [OF scan_next_ok, of e s] unfolding scan_next_key by blast
  finally show ?case
    by (auto intro: less_trans)
qed auto

lemma fold_scan_named: "sc_named (fold scan_next es s) \<longleftrightarrow> sc_named s \<or> fst ` set es \<inter> {2, 8} \<noteq> {}"
  by (induction es arbitrary: s) (auto simp: scan_next_def split: prod.splits)

lemma fold_scan_base:
  "bit (sc_base (fold scan_next es s)) i \<longleftrightarrow> bit (sc_base s) i \<or> (\<exists>e \<in> set es. bit (base_bit (fst e)) i)"
  by (induction es arbitrary: s) (auto simp: scan_next_def bit_or_iff split: prod.splits)

lemma base_bits:
  "bit (base_bit tag) 0 \<longleftrightarrow> tag = 1" "bit (base_bit tag) (Suc 0) \<longleftrightarrow> tag = 4"
  "bit (base_bit tag) 2 \<longleftrightarrow> tag = 16" "bit (base_bit tag) 3 \<longleftrightarrow> tag = 32"
  by (simp_all add: base_bit_def)

lemma and_bits:
  fixes w :: u8
  shows "w AND 11 = 11 \<longleftrightarrow> bit w 0 \<and> bit w (Suc 0) \<and> bit w 3" "w AND 4 = 0 \<longleftrightarrow> \<not> bit w 2"
proof -
  have bits: "bit (11 :: u8) i \<longleftrightarrow> i \<in> {0, Suc 0, 3}" "bit (4 :: u8) i \<longleftrightarrow> i = 2" if "i < 8" for i
  proof -
    have "i \<in> {0, Suc 0, 2, 3, 4, 5, 6, 7}" using that by auto
    then show "bit (11 :: u8) i \<longleftrightarrow> i \<in> {0, Suc 0, 3}" "bit (4 :: u8) i \<longleftrightarrow> i = 2" by auto
  qed
  have "w AND 11 = 11 \<longleftrightarrow> (\<forall>i < 8. bit (11 :: u8) i \<longrightarrow> bit w i)"
    by (auto simp: bit_eq_iff bit_and_iff)
  also have "\<dots> \<longleftrightarrow> (\<forall>i \<in> {i. i < 8 \<and> bit (11 :: u8) i}. bit w i)" by auto
  also have "{i. i < 8 \<and> bit (11 :: u8) i} = {0, Suc 0, 3}"
    by (rule set_eqI) (use bits(1) in auto)
  also have "(\<forall>i \<in> {0, Suc 0, 3}. bit w i) \<longleftrightarrow> bit w 0 \<and> bit w (Suc 0) \<and> bit w 3" by simp
  finally show "w AND 11 = 11 \<longleftrightarrow> bit w 0 \<and> bit w (Suc 0) \<and> bit w 3" .
  have "w AND 4 = 0 \<longleftrightarrow> (\<forall>i < 8. bit (4 :: u8) i \<longrightarrow> \<not> bit w i)"
    by (auto simp: bit_eq_iff bit_and_iff)
  also have "\<dots> \<longleftrightarrow> (\<forall>i \<in> {i. i < 8 \<and> bit (4 :: u8) i}. \<not> bit w i)" by auto
  also have "{i. i < 8 \<and> bit (4 :: u8) i} = {2}"
    by (rule set_eqI) (use bits(2) in auto)
  also have "(\<forall>i \<in> {2}. \<not> bit w i) \<longleftrightarrow> \<not> bit w 2" by simp
  finally show "w AND 4 = 0 \<longleftrightarrow> \<not> bit w 2" .
qed

lemma scan_sorted:
  assumes "\<forall>e \<in> set es. entry_ok e"
  shows "sorted_wrt (<) ((0, 0) # map entry_key es) \<longleftrightarrow> sorted_wrt (<) (map entry_key es)"
proof -
  have "(0, 0) < entry_key e" if "entry_ok e" for e
    using that by (auto simp: entry_ok_def entry_key_def)
  then show ?thesis using assms by simp
qed

lemma posix_acl_new_iff:
  "posix_acl_new bs = Inr acl \<longleftrightarrow>
     acl = \<lparr>pa_bytes = bs\<rparr> \<and> (bs = [] \<or> (\<exists>es. bs = print_entries es \<and> entries_wf es))"
proof (cases "bs = []")
  case False
  let ?s = "\<lparr>sc_base = 0, sc_last_tag = 0, sc_last_id = 0, sc_named = False\<rparr>"
  let ?es = "map entry_fields (chunks8 (drop 4 bs))"
  have scan: "scan_ok ?s" by (simp add: scan_ok_def)
  have final: "\<not> (sc_base s AND 11 \<noteq> 11 \<or> (sc_named s \<and> sc_base s AND 4 = 0)) \<longleftrightarrow>
      {1, 4, 32} \<subseteq> fst ` set es \<and> (fst ` set es \<inter> {2, 8} = {} \<or> 16 \<in> fst ` set es)"
    if "s = fold scan_next es ?s" for s es
    unfolding that and_bits fold_scan_base fold_scan_named base_bits by (auto simp: image_iff)
  have "posix_acl_new bs = Inr acl \<longleftrightarrow> acl = \<lparr>pa_bytes = bs\<rparr> \<and> 4 \<le> length bs \<and> (length bs - 4) mod 8 = 0
      \<and> take 4 bs = le_bytes (2 :: u32) \<and> entries_wf ?es"
    using False final [OF refl, of ?es] scan_sorted [of ?es]
    by (auto simp: posix_acl_new_def and_then_Inr scan_entries_Inr [OF scan] entries_wf_def not_less)
  moreover have "4 \<le> length bs \<and> (length bs - 4) mod 8 = 0 \<and> take 4 bs = le_bytes (2 :: u32) \<and> entries_wf ?es
      \<longleftrightarrow> (\<exists>es. bs = print_entries es \<and> entries_wf es)" (is "?L \<longleftrightarrow> ?R")
  proof
    assume ?L
    then have len: "(length bs - 4) mod 8 = 0" and v: "take 4 bs = le_bytes (2 :: u32)"
      and wf: "entries_wf ?es" by blast+
    have "concat (map entry_bytes ?es) = drop 4 bs"
      using concat_chunks8 [of "drop 4 bs"] len by (simp add: comp_def)
    then have "bs = print_entries ?es" using v by (metis append_take_drop_id print_entries_def)
    with wf show ?R by blast
  next
    assume ?R
    then obtain es where bs: "bs = print_entries es" and "entries_wf es" by blast
    have "length (concat (map entry_bytes es)) = 8 * length es"
      by (simp add: length_concat comp_def entry_bytes_length sum_list_triv)
    then show ?L
      using \<open>entries_wf es\<close> print_entries_fields [of es] unfolding bs by (simp add: print_entries_def)
  qed
  ultimately show ?thesis using False by simp
qed (auto simp: posix_acl_new_def)

section \<open>Portable entries: lemmas\<close>

text \<open>The entry with its principal written as the usual decimal numeral.\<close>

definition numeric_ace :: "ace \<Rightarrow> ace" where
  "numeric_ace a = a\<lparr>ace_name := (case principal (ace_name a) of
     Inr v \<Rightarrow> decimal_string (unat v) | Inl _ \<Rightarrow> ace_name a)\<rparr>"

lemma permission_bits:
  assumes "b \<le> 7"
  shows "kernel_permission b \<le> 7 \<and> portable_permission (le_bytes (kernel_permission b) ! 0) = b"
proof -
  have "unat b \<in> {0, 1, 2, 3, 4, 5, 6, 7}" using assms(1) by (auto simp: word_le_nat_alt)
  then have "b \<in> set [0, 1, 2, 3, 4, 5, 6, 7]" by (auto simp: word_unat_eq_iff)
  moreover have "list_all (\<lambda>b. kernel_permission b \<le> 7 \<and> portable_permission (le_bytes (kernel_permission b) ! 0) = b)
    [0, 1, 2, 3, 4, 5, 6, 7]" by code_simp
  ultimately show ?thesis unfolding list_all_iff by blast
qed

lemma portable_ace_entry:
  assumes a: "ace_entry a = Inr e" and valid: "validate_ace_name (ace_kind a) (ace_name a) = Inr ()"
    and perm: "ace_permissions a \<le> 7" and mem: "\<forall>n. mem n"
  shows "portable_ace mem (entry_bytes e) = Inr (numeric_ace a)"
proof -
  obtain tag who perm where e: "e = (tag, who, perm)" by (cases e) auto
  have perm_eq: "perm = kernel_permission (ace_permissions a)"
    and kind: "acl_tag tag = Inr (ace_kind a)"
    and named: "ace_kind a \<in> {NamedUser, NamedGroup} \<Longrightarrow> principal (ace_name a) = Inr who"
    and base: "ace_kind a \<notin> {NamedUser, NamedGroup} \<Longrightarrow> ace_name a = []"
    using a valid by (cases "ace_kind a"; auto simp: e ace_entry_def result_simps validate_ace_name_def Let_def
        split: if_splits)+
  have fields: "take 2 (entry_bytes e) = le_bytes tag" "take 4 (drop 4 (entry_bytes e)) = le_bytes who"
    "entry_bytes e ! 2 = le_bytes perm ! 0"
    by (simp_all add: e entry_bytes_def nth_append)
  have p: "permissions_from_bits (portable_permission (le_bytes perm ! 0)) = Inr (ace_permissions a)"
    using permission_bits [OF assms(3)] assms(3) by (simp add: perm_eq permissions_from_bits_iff)
  have n: "(if ace_kind a = NamedUser \<or> ace_kind a = NamedGroup then decimal mem who else Inr [])
      = Inr (ace_name (numeric_ace a))"
    using named base mem by (auto simp: numeric_ace_def decimal_eq reserve_def principal_def)
  have "numeric_ace a = \<lparr>ace_kind = ace_kind a, ace_permissions = ace_permissions a, ace_name = ace_name (numeric_ace a)\<rparr>"
    by (simp add: numeric_ace_def)
  then show ?thesis
    unfolding portable_ace_def fields le_word_bytes_widths kind and_then.simps n p map_err.simps by simp
qed

lemma portable_ace_entries:
  assumes "list_all2 (\<lambda>a e. ace_entry a = Inr e) as es"
    and "\<forall>a \<in> set as. validate_ace_name (ace_kind a) (ace_name a) = Inr () \<and> ace_permissions a \<le> 7"
    and "\<forall>n. mem n"
  shows "portable_aces mem (map entry_bytes es) = Inr (map numeric_ace as)"
  using assms by (induction rule: list_all2_induct) (auto simp: portable_ace_entry)

lemma ace_entries_Inr: "ace_entries as = Inr es \<longleftrightarrow> list_all2 (\<lambda>a e. ace_entry a = Inr e) as es"
  by (induction as arbitrary: es) (auto simp: result_simps list_all2_Cons1)

lemma sort_key_pairs:
  assumes "list_all2 R as es"
  shows "\<exists>as'. mset as' = mset as \<and> list_all2 R as' (sort_key f es)"
proof -
  have "list_all2 (\<lambda>e a. R a e) es as" using assms by (simp add: list_all2_conv_all_nth)
  then obtain as' where "list_all2 (\<lambda>e a. R a e) (sort_key f es) as'" "mset as' = mset as"
    using list_all2_reorder_left_invariance [of _ es as "sort_key f es"] by auto
  then show ?thesis by (intro exI [of _ as']) (simp add: list_all2_conv_all_nth)
qed

text \<open>Kernel order: the owner, named users by number, the group, named groups by number, the mask, and
  everyone.\<close>

fun kernel_rank :: "ace_tag \<Rightarrow> nat" where
  "kernel_rank Owner = 0" | "kernel_rank NamedUser = 1" | "kernel_rank Group = 2"
| "kernel_rank NamedGroup = 3" | "kernel_rank Mask = 4" | "kernel_rank Everyone = 5"

definition kernel_key :: "ace \<Rightarrow> nat \<times> nat" where
  "kernel_key a = (kernel_rank (ace_kind a),
     if ace_kind a = NamedUser \<or> ace_kind a = NamedGroup
     then (case principal (ace_name a) of Inr number \<Rightarrow> unat number | Inl _ \<Rightarrow> 0) else 0)"

lemma kernel_key_entry:
  "ace_entry a = Inr e \<Longrightarrow> ace_entry b = Inr f \<Longrightarrow> entry_key e < entry_key f \<longleftrightarrow> kernel_key a < kernel_key b"
  by (cases "ace_kind a"; cases "ace_kind b")
    (auto simp: ace_entry_def result_simps entry_key_def kernel_key_def word_less_nat_alt word_le_nat_alt)

lemma kernel_key_sorted:
  assumes "list_all2 (\<lambda>a e. ace_entry a = Inr e) as es" and "sorted_wrt (<) (map entry_key es)"
  shows "sorted_wrt (<) (map kernel_key as)"
  unfolding sorted_wrt_iff_nth_less
proof (intro allI impI)
  fix i j
  assume "i < j" "j < length (map kernel_key as)"
  then show "map kernel_key as ! i < map kernel_key as ! j"
    using assms kernel_key_entry [of "as ! i" "es ! i" "as ! j" "es ! j"]
    by (simp add: sorted_wrt_iff_nth_less list_all2_conv_all_nth)
qed

lemma encode_portable_Inr:
  assumes enc: "encode_portable mem m = Inr bs" and "metadata_canonical m" "metadata_typed m" and "\<forall>n. mem' n"
  shows "posix_acl_new bs = Inr \<lparr>pa_bytes = bs\<rparr>
    \<and> portable mem' \<lparr>pa_bytes = bs\<rparr> = Inr (map numeric_ace (sort_key kernel_key (aces m)))
    \<and> sorted_wrt (<) (map kernel_key (sort_key kernel_key (aces m)))"
proof (cases "aces m = []")
  case True
  then show ?thesis using enc by (auto simp: encode_portable_def posix_acl_new_def portable_def)
next
  case False
  with enc obtain es where es: "ace_entries (aces m) = Inr es"
    and bs: "bs = print_entries (sort_key entry_key es)" and new: "\<exists>acl. posix_acl_new bs = Inr acl"
    by (auto simp: encode_portable_def result_simps Let_def print_entries_def)
  have acl: "posix_acl_new bs = Inr \<lparr>pa_bytes = bs\<rparr>" using new posix_acl_new_iff by blast
  have ok: "\<forall>a \<in> set (aces m). validate_ace_name (ace_kind a) (ace_name a) = Inr () \<and> ace_permissions a \<le> 7"
    using assms(2,3) by (auto simp: metadata_canonical_def metadata_typed_def check_ace_def result_simps)
  obtain as where as: "mset as = mset (aces m)" "list_all2 (\<lambda>a e. ace_entry a = Inr e) as (sort_key entry_key es)"
    using es sort_key_pairs unfolding ace_entries_Inr by blast
  have "set as = set (aces m)" using as(1) by (metis set_mset_mset)
  then have "portable_aces mem' (map entry_bytes (sort_key entry_key es)) = Inr (map numeric_ace as)"
    using portable_ace_entries [OF as(2) _ assms(4)] ok by auto
  moreover have "bs \<noteq> []" "chunks8 (drop 4 bs) = map entry_bytes (sort_key entry_key es)"
    by (simp_all add: bs print_entries_def chunks8_concat le_bytes_def)
  ultimately have "portable mem' \<lparr>pa_bytes = bs\<rparr> = Inr (map numeric_ace as)"
    using assms(4) by (simp add: portable_def reserve_def)
  moreover have sorted: "sorted_wrt (<) (map kernel_key as)"
  proof (rule kernel_key_sorted [OF as(2)])
    obtain fs where "bs = print_entries fs" "entries_wf fs" using acl \<open>bs \<noteq> []\<close> posix_acl_new_iff by blast
    then show "sorted_wrt (<) (map entry_key (sort_key entry_key es))"
      using bs print_entries_fields by (metis entries_wf_def)
  qed
  moreover have "sort_key kernel_key (aces m) = as" using as(1) sorted by (intro sort_key_canonical) simp_all
  ultimately show ?thesis using acl by simp
qed

lemma linux_acl_decode_iff:
  assumes "in_memory bs"
  shows "linux_acl_decode bs = Inr acl \<longleftrightarrow>
    (\<exists>a d. acl = \<lparr>access_acl = \<lparr>pa_bytes = a\<rparr>, default_acl = \<lparr>pa_bytes = d\<rparr>\<rparr>
      \<and> length a < 2 ^ 32 \<and> length d < 2 ^ 32
      \<and> posix_acl_new a = Inr \<lparr>pa_bytes = a\<rparr> \<and> posix_acl_new d = Inr \<lparr>pa_bytes = d\<rparr>
      \<and> bs = ACL_MAGIC @ le_bytes (as_u32 (length a)) @ le_bytes (as_u32 (length d)) @ a @ d)"
    (is "?L \<longleftrightarrow> ?R")
proof
  assume ?L
  let ?a = "le_word (take 4 (drop 8 bs)) :: u32" and ?d = "le_word (take 4 (drop 12 bs)) :: u32"
  from \<open>?L\<close> obtain a d where len: "16 \<le> length bs" and magic: "take 8 bs = ACL_MAGIC"
    and sum: "ucast ?a + ucast ?d = as_u64 (length bs - 16)"
    and new: "posix_acl_new (take (unat ?a) (drop 16 bs)) = Inr a" "posix_acl_new (drop (16 + unat ?a) bs) = Inr d"
    and acl: "acl = \<lparr>access_acl = a, default_acl = d\<rparr>"
    by (auto simp: linux_acl_decode_def result_simps Let_def not_less split: if_splits)
  have "unat (ucast ?a + ucast ?d :: u64) = unat ?a + unat ?d"
    using unsigned_less [of ?a, where 'a = nat] unsigned_less [of ?d, where 'a = nat]
    by (simp add: unat_word_ariths unsigned_ucast_eq take_bit_nat_eq_self)
  then have total: "length bs - 16 = unat ?a + unat ?d"
    using sum assms len by (simp add: in_memory_def)
  let ?A = "take (unat ?a) (drop 16 bs)" and ?D = "drop (16 + unat ?a) bs"
  have "length ?A = unat ?a" "length ?D = unat ?d" using total len by auto
  moreover have "bs = take 8 bs @ take 4 (drop 8 bs) @ take 4 (drop 12 bs) @ ?A @ ?D"
    by (simp add: take_drop_chunk)
  moreover have "a = \<lparr>pa_bytes = ?A\<rparr>" "d = \<lparr>pa_bytes = ?D\<rparr>" using new posix_acl_new_iff by auto
  ultimately show ?R
    using acl new magic len unsigned_less [of ?a, where 'a = nat] unsigned_less [of ?d, where 'a = nat]
    by (intro exI [of _ ?A] exI [of _ ?D]) (simp add: as_u32_def)
next
  assume ?R
  then obtain a d where acl: "acl = \<lparr>access_acl = \<lparr>pa_bytes = a\<rparr>, default_acl = \<lparr>pa_bytes = d\<rparr>\<rparr>"
    and len: "length a < 2 ^ 32" "length d < 2 ^ 32"
    and new: "posix_acl_new a = Inr \<lparr>pa_bytes = a\<rparr>" "posix_acl_new d = Inr \<lparr>pa_bytes = d\<rparr>"
    and bs: "bs = ACL_MAGIC @ le_bytes (as_u32 (length a)) @ le_bytes (as_u32 (length d)) @ a @ d" by blast
  have magic: "length ACL_MAGIC = 8" by (simp add: ACL_MAGIC_def ascii_def)
  have "ucast (as_u32 (length a)) + ucast (as_u32 (length d)) = as_u64 (length a + length d)"
    using len by (simp add: word_unat_eq_iff unat_word_ariths unsigned_ucast_eq take_bit_nat_eq_self)
  then show ?L
    using len new by (simp add: linux_acl_decode_def bs magic acl Let_def)
qed

section \<open>Properties of ACLs\<close>

text \<open>C30. The kernel record list is accepted exactly when it is empty or a version-2 list that Linux
  would accept: every record has a known tag, permissions within rwx, the undefined identifier on the
  four base tags and a defined one on named users and groups; the records are strictly ascending by
  tag and identifier; owner, group and other are present; and a named record requires a mask.\<close>

theorem posix_acl_accepts:
  "posix_acl_new bs = Inr acl \<longleftrightarrow>
     acl = \<lparr>pa_bytes = bs\<rparr> \<and> (bs = [] \<or> (\<exists>es. bs = print_entries es \<and> entries_wf es))"
  by (rule posix_acl_new_iff)

text \<open>C31. Portable access entries survive the kernel form: what \<open>encode_portable\<close> writes is an ACL that
  Linux accepts, and reading it back yields exactly the same entries in kernel order (owner, named users
  by number, group, named groups by number, mask, everyone), no two at the same place, with every
  principal as its plain decimal numeral.\<close>

theorem portable_acl_roundtrip:
  assumes "encode_portable mem m = Inr bs" and "metadata_canonical m" "metadata_typed m" and "\<forall>n. mem' n"
  shows "posix_acl_new bs = Inr \<lparr>pa_bytes = bs\<rparr>
    \<and> portable mem' \<lparr>pa_bytes = bs\<rparr> = Inr (map numeric_ace (sort_key kernel_key (aces m)))
    \<and> sorted_wrt (<) (map kernel_key (sort_key kernel_key (aces m)))"
  using assms by (rule encode_portable_Inr)

text \<open>Canonical order is by name, so \<open>10\<close> stands before \<open>9\<close>.\<close>

definition sample_aces :: "ace list" where
  "sample_aces = [\<lparr>ace_kind = Owner, ace_permissions = 7, ace_name = []\<rparr>,
     \<lparr>ace_kind = Group, ace_permissions = 5, ace_name = []\<rparr>,
     \<lparr>ace_kind = Everyone, ace_permissions = 1, ace_name = []\<rparr>,
     \<lparr>ace_kind = NamedUser, ace_permissions = 3, ace_name = ascii ''+1_0''\<rparr>,
     \<lparr>ace_kind = NamedUser, ace_permissions = 5, ace_name = ascii ''9''\<rparr>,
     \<lparr>ace_kind = Mask, ace_permissions = 7, ace_name = []\<rparr>]"

theorem portable_acl_roundtrip_witness:
  "\<exists>bs. encode_portable (\<lambda>_. True) (metadata_default\<lparr>aces := sample_aces\<rparr>) = Inr bs
     \<and> portable (\<lambda>_. True) \<lparr>pa_bytes = bs\<rparr> = Inr
         [\<lparr>ace_kind = Owner, ace_permissions = 7, ace_name = []\<rparr>,
          \<lparr>ace_kind = NamedUser, ace_permissions = 5, ace_name = ascii ''9''\<rparr>,
          \<lparr>ace_kind = NamedUser, ace_permissions = 3, ace_name = ascii ''10''\<rparr>,
          \<lparr>ace_kind = Group, ace_permissions = 5, ace_name = []\<rparr>,
          \<lparr>ace_kind = Mask, ace_permissions = 7, ace_name = []\<rparr>,
          \<lparr>ace_kind = Everyone, ace_permissions = 1, ace_name = []\<rparr>]"
proof -
  let ?m = "metadata_default\<lparr>aces := sample_aces\<rparr>"
  have "metadata_validate ?m = Inr ()" by code_simp
  then have c: "metadata_canonical ?m" by (simp add: metadata_validate_iff)
  have t: "metadata_typed ?m" by (simp add: metadata_typed_def metadata_default_def sample_aces_def)
  have "\<not> isl (encode_portable (\<lambda>_. True) ?m)" by code_simp
  then obtain bs where bs: "encode_portable (\<lambda>_. True) ?m = Inr bs" by (cases "encode_portable (\<lambda>_. True) ?m") auto
  have "map numeric_ace (sort_key kernel_key (aces ?m)) =
         [\<lparr>ace_kind = Owner, ace_permissions = 7, ace_name = []\<rparr>,
          \<lparr>ace_kind = NamedUser, ace_permissions = 5, ace_name = ascii ''9''\<rparr>,
          \<lparr>ace_kind = NamedUser, ace_permissions = 3, ace_name = ascii ''10''\<rparr>,
          \<lparr>ace_kind = Group, ace_permissions = 5, ace_name = []\<rparr>,
          \<lparr>ace_kind = Mask, ace_permissions = 7, ace_name = []\<rparr>,
          \<lparr>ace_kind = Everyone, ace_permissions = 1, ace_name = []\<rparr>]" by code_simp
  with portable_acl_roundtrip [OF bs c t, of "\<lambda>_. True"] bs show ?thesis by auto
qed

text \<open>Decimal principals round-trip: every 32-bit identifier is written in at most ten digits without
  leaving the digit buffer, and read back as itself.\<close>

lemma principal_decimal:
  assumes "mem (length (decimal_string (unat v)))"
  shows "\<exists>bs. decimal mem v = Inr bs \<and> length bs \<le> 10 \<and> principal bs = Inr v"
proof -
  have v: "unat v < 2 ^ 32" using unsigned_less [of v, where 'a = nat] by simp
  then have "length (decimal_string (unat v)) \<le> 10" by (intro decimal_string_length) auto
  then show ?thesis
    using assms principal_decimal_string [OF v] by (simp add: decimal_eq reserve_def)
qed

text \<open>The DIFZACL container is a bijective codec: decoding accepts exactly the magic, the two
  lengths and two record lists that are each accepted, with nothing after them, and encoding writes
  that form.\<close>

lemma linux_acl_codec:
  assumes "in_memory bs"
  shows "linux_acl_decode bs = Inr acl \<longleftrightarrow>
    linux_acl_encode (\<lambda>_. True) acl = Inr bs
    \<and> posix_acl_new (pa_bytes (access_acl acl)) = Inr (access_acl acl)
    \<and> posix_acl_new (pa_bytes (default_acl acl)) = Inr (default_acl acl)"
proof -
  obtain a d where acl: "acl = \<lparr>access_acl = \<lparr>pa_bytes = a\<rparr>, default_acl = \<lparr>pa_bytes = d\<rparr>\<rparr>"
    by (cases acl; cases "access_acl acl"; cases "default_acl acl") auto
  have "linux_acl_encode (\<lambda>_. True) acl = Inr bs \<longleftrightarrow> length a < 2 ^ 32 \<and> length d < 2 ^ 32
      \<and> bs = ACL_MAGIC @ le_bytes (as_u32 (length a)) @ le_bytes (as_u32 (length d)) @ a @ d"
    by (auto simp: acl linux_acl_encode_def result_simps u32_try_from_def checked_add_usize_def reserve_def
        as_u32_def Let_def)
  then show ?thesis by (auto simp: linux_acl_decode_iff [OF assms] acl)
qed

end
