(* ===== verification/Symlink_Transport.thy ===== *)
theory Symlink_Transport
  imports Metadata_Decode Tree_Path Ordered_Search
begin

text \<open>
  The per-directory transport of symbolic link metadata (\<open>rust/src/symlink_transport.rs\<close>): records
  by link name, their relations, the wire form bounded by 64 KiB, and the lookup by name.
\<close>

definition ATTRIBUTE :: bytes where
  "ATTRIBUTE = ascii ''difz.symlinks''"

definition MAX_BYTES :: usize where
  "MAX_BYTES = 65536"

definition LINK_MAGIC :: bytes where
  "LINK_MAGIC = ascii ''DIFZLINK'' @ [1]"

definition MAX_RECORDS :: usize where
  "MAX_RECORDS = (MAX_BYTES - length LINK_MAGIC - 4) div 31"

datatype transport_error = InvalidTransport | TransportTooLarge | OutOfMemory | TransportMetadata meta_error

record link_record =
  link_name :: bytes
  link_metadata :: metadata
  absent_times :: u8
  observed_mtime :: "time option"
  acl_override :: bool
  finder_override :: bool

record transport =
  t_records :: "link_record list"

section \<open>Validation\<close>

definition link_validate :: "link_record \<Rightarrow> transport_error + unit" where
  "link_validate r =
     (let m = link_metadata r; t = mtimes m; absent = absent_times r in
      if (mtime t \<noteq> None \<or> absent AND 1 \<noteq> 0) \<noteq> (observed_mtime r \<noteq> None) then Inl InvalidTransport
      else and_then (map_err (\<lambda>_. InvalidTransport) (validate_path (link_name r))) (\<lambda>_.
        if absent AND NOT 7 \<noteq> 0
          \<or> list_ex (\<lambda>(b, v). absent AND b \<noteq> 0 \<and> v \<noteq> None) [(1, mtime t), (2, atime t), (4, btime t)]
        then Inl InvalidTransport
        else if slash \<in> set (link_name r)
          \<or> (metadata_is_empty m \<and> absent = 0 \<and> \<not> acl_override r \<and> \<not> finder_override r)
          \<or> holes m \<noteq> [] \<or> hardlink_to m \<noteq> None
        then Inl InvalidTransport
        else Inr ()))"

definition check_after :: "link_record option \<Rightarrow> bytes \<Rightarrow> transport_error + unit" where
  "check_after previous name =
     (case previous of
        Some p \<Rightarrow> if link_name p \<ge> name then Inl InvalidTransport else Inr ()
      | None \<Rightarrow> Inr ())"

fun validate_links :: "link_record option \<Rightarrow> link_record list \<Rightarrow> transport_error + unit" where
  "validate_links previous [] = Inr ()"
| "validate_links previous (r # rs) =
     and_then (link_validate r) (\<lambda>_.
     and_then (check_after previous (link_name r)) (\<lambda>_.
     and_then (map_err TransportMetadata (encode_time_override (observed_mtime r))) (\<lambda>_.
     validate_links (Some r) rs)))"

definition transport_new :: "link_record list \<Rightarrow> transport_error + transport" where
  "transport_new rs =
     (if length rs > MAX_RECORDS then Inl TransportTooLarge
      else and_then (validate_links None rs) (\<lambda>_. Inr \<lparr>t_records = rs\<rparr>))"

section \<open>Encoding\<close>

fun add_counts :: "usize \<Rightarrow> usize list \<Rightarrow> transport_error + usize" where
  "add_counts n [] = Inr n"
| "add_counts n (k # ks) =
     and_then (ok_or TransportTooLarge (checked_add_usize n k)) (\<lambda>n.
     if n > MAX_BYTES then Inl TransportTooLarge else add_counts n ks)"

fun encoded_size :: "usize \<Rightarrow> link_record list \<Rightarrow> transport_error + usize" where
  "encoded_size n [] = Inr n"
| "encoded_size n (r # rs) =
     and_then (map_err TransportMetadata (encode_time_override (observed_mtime r))) (\<lambda>obs.
     and_then (map_err TransportMetadata (metadata_encoded_len (link_metadata r))) (\<lambda>blob.
     and_then (add_counts n [9, length obs, length (link_name r), blob]) (\<lambda>n.
     encoded_size n rs)))"

definition link_flags :: "link_record \<Rightarrow> u8" where
  "link_flags r = absent_times r OR push_bit 3 (if acl_override r then 1 else 0)
     OR push_bit 4 (if finder_override r then 1 else 0)"

fun encode_links :: "allocator \<Rightarrow> link_record list \<Rightarrow> bytes \<Rightarrow> transport_error + bytes" where
  "encode_links mem [] out = Inr out"
| "encode_links mem (r # rs) out =
     and_then (map_err TransportMetadata (metadata_encode mem (link_metadata r))) (\<lambda>blob.
     and_then (map_err TransportMetadata (encode_time_override (observed_mtime r))) (\<lambda>obs.
     encode_links mem rs (out @ le_bytes (as_u32 (length (link_name r))) @ le_bytes (as_u32 (length blob))
       @ [link_flags r] @ obs @ link_name r @ blob)))"

definition transport_encode :: "allocator \<Rightarrow> transport \<Rightarrow> transport_error + bytes" where
  "transport_encode mem t =
     and_then (encoded_size (length LINK_MAGIC + 4) (t_records t)) (\<lambda>n.
     and_then (reserve mem n OutOfMemory) (\<lambda>_.
     encode_links mem (t_records t) (LINK_MAGIC @ le_bytes (as_u32 (length (t_records t))))))"

section \<open>Decoding\<close>

definition skip_override :: "reader \<Rightarrow> transport_error + reader" where
  "skip_override r =
     and_then (reader_byte InvalidTransport r) (\<lambda>(tag, r).
     if tag = 0 then Inr r
     else if tag = 1 then and_then (reader_take InvalidTransport 12 r) (\<lambda>(_, r). Inr r)
     else Inl InvalidTransport)"

definition read_observed :: "reader \<Rightarrow> transport_error + time option \<times> reader" where
  "read_observed r =
     and_then (skip_override r) (\<lambda>r'.
     and_then (map_err (\<lambda>_. InvalidTransport)
         (decode_time_override (take (rd_pos r' - rd_pos r) (drop (rd_pos r) (rd_bytes r))))) (\<lambda>v.
     Inr (v, r')))"

definition metadata_failure :: "meta_error \<Rightarrow> transport_error" where
  "metadata_failure e = (case e of meta_error.OutOfMemory \<Rightarrow> OutOfMemory | _ \<Rightarrow> InvalidTransport)"

definition read_link :: "allocator \<Rightarrow> reader \<Rightarrow> transport_error + link_record \<times> reader" where
  "read_link mem r =
     and_then (reader_u32 InvalidTransport r) (\<lambda>(name_len, r).
     and_then (reader_u32 InvalidTransport r) (\<lambda>(meta_len, r).
     and_then (reader_byte InvalidTransport r) (\<lambda>(flags, r).
     if flags AND 0xe0 \<noteq> 0 then Inl InvalidTransport
     else
       and_then (read_observed r) (\<lambda>(obs, r).
       and_then (reader_take InvalidTransport (unat name_len) r) (\<lambda>(name, r).
       and_then (reader_take InvalidTransport (unat meta_len) r) (\<lambda>(blob, r).
       and_then (map_err metadata_failure (metadata_decode mem blob)) (\<lambda>m.
       let record = \<lparr>link_name = name, link_metadata = m, absent_times = flags AND 7, observed_mtime = obs,
          acl_override = (flags AND 8 \<noteq> 0), finder_override = (flags AND 16 \<noteq> 0)\<rparr> in
       and_then (link_validate record) (\<lambda>_. Inr (record, r)))))))))"

fun read_links :: "allocator \<Rightarrow> nat \<Rightarrow> link_record option \<Rightarrow> reader
    \<Rightarrow> transport_error + link_record list \<times> reader" where
  "read_links mem 0 previous r = Inr ([], r)"
| "read_links mem (Suc n) previous r =
     and_then (read_link mem r) (\<lambda>(record, r).
     and_then (check_after previous (link_name record)) (\<lambda>_.
     and_then (read_links mem n (Some record) r) (\<lambda>(rs, r). Inr (record # rs, r))))"

definition transport_decode :: "allocator \<Rightarrow> bytes \<Rightarrow> transport_error + transport" where
  "transport_decode mem bs =
     (if length bs > MAX_BYTES then Inl TransportTooLarge
      else
        and_then (reader_take InvalidTransport (length LINK_MAGIC) (read_from bs)) (\<lambda>(magic, r).
        if magic \<noteq> LINK_MAGIC then Inl InvalidTransport
        else
          and_then (reader_u32 InvalidTransport r) (\<lambda>(count, r).
          if unat count > (length bs - rd_pos r) div 31 then Inl InvalidTransport
          else
            and_then (reserve mem (unat count) OutOfMemory) (\<lambda>_.
            and_then (read_links mem (unat count) None r) (\<lambda>(rs, r).
            if rd_pos r \<noteq> length bs then Inl InvalidTransport else Inr \<lparr>t_records = rs\<rparr>)))))"

definition transport_find :: "transport \<Rightarrow> bytes \<Rightarrow> link_record option" where
  "transport_find t name =
     map_option (\<lambda>i. t_records t ! i) (binary_search_by (\<lambda>r. cmp (link_name r) name) (t_records t))"

section \<open>Codec lemmas\<close>

definition print_override :: "time option \<Rightarrow> bytes" where
  "print_override v = (case v of None \<Rightarrow> [0] | Some t \<Rightarrow> 1 # print_time t)"

definition override_wf :: "time option \<Rightarrow> bool" where
  "override_wf v \<longleftrightarrow> (\<forall>t. v = Some t \<longrightarrow> valid_time t)"

lemma encode_time_override_iff: "encode_time_override v = Inr bs \<longleftrightarrow> override_wf v \<and> bs = print_override v"
  by (auto simp: encode_time_override_def override_wf_def print_override_def and_then_Inr time_encode_iff
      split: option.splits)

lemma skip_override_iff:
  assumes ok: "reader_ok r"
  shows "skip_override r = Inr r' \<longleftrightarrow>
    (\<exists>xs. consumes r xs r' \<and> (xs = [0] \<or> (\<exists>ys. length ys = 12 \<and> xs = 1 # ys)))"
proof -
  have "skip_override r = Inr r' \<longleftrightarrow> (\<exists>tag r1. consumes r [tag] r1
      \<and> (if tag = 0 then r' = r1 else tag = 1 \<and> (\<exists>ys. length ys = 12 \<and> consumes r1 ys r')))"
    unfolding skip_override_def byte_codec.parse_then [OF ok]
    by (intro ex_cong1) (auto simp: take_codec.parse_then split: if_splits)
  also have "\<dots> \<longleftrightarrow> consumes r [0] r' \<or> (\<exists>r1 ys. consumes r [1] r1 \<and> length ys = 12 \<and> consumes r1 ys r')"
    by (auto split: if_splits) (rule exI [of _ 1], auto)
  also have "\<dots> \<longleftrightarrow> consumes r [0] r' \<or> (\<exists>ys. length ys = 12 \<and> consumes r (1 # ys) r')"
    using consumes_append [OF ok, of "[1]" _ r'] by auto
  finally show ?thesis by blast
qed

interpretation observed_codec: wire_codec read_observed print_override override_wf
proof unfold_locales
  fix r r' and v :: "time option"
  assume ok: "reader_ok r"
  have "read_observed r = Inr (v, r') \<longleftrightarrow> (\<exists>xs. consumes r xs r' \<and> (xs = [0] \<or> (\<exists>ys. length ys = 12 \<and> xs = 1 # ys))
      \<and> decode_time_override (take (rd_pos r' - rd_pos r) (drop (rd_pos r) (rd_bytes r))) = Inr v)"
    by (auto simp: read_observed_def result_simps skip_override_iff [OF ok])
  also have "\<dots> \<longleftrightarrow> (\<exists>xs. consumes r xs r' \<and> (xs = [0] \<or> (\<exists>ys. length ys = 12 \<and> xs = 1 # ys))
      \<and> decode_time_override xs = Inr v)"
    using consumes_slice [OF ok] by metis
  also have "\<dots> \<longleftrightarrow> override_wf v \<and> consumes r (print_override v) r'"
    by (auto simp: time_override_codec encode_time_override_iff print_override_def split: option.splits)
  finally show "read_observed r = Inr (v, r') \<longleftrightarrow> override_wf v \<and> consumes r (print_override v) r'" .
qed

lemma flag_bits:
  fixes flags absent :: u8
  shows "flags AND 0xe0 = 0 \<and> absent = flags AND 7 \<and> acl = (flags AND 8 \<noteq> 0) \<and> finder = (flags AND 16 \<noteq> 0) \<longleftrightarrow>
    absent AND NOT 7 = 0
    \<and> flags = absent OR push_bit 3 (if acl then 1 else 0) OR push_bit 4 (if finder then 1 else 0)"
proof -
  let ?flags = "\<lambda>absent acl finder. absent OR push_bit 3 (if acl then 1 else 0) OR push_bit 4 (if finder then 1 else 0 :: u8)"
  have all: "w \<in> set (map of_nat [0..<256])" for w :: u8
    using unsigned_less [of w, where 'a = nat] by (auto simp: image_iff intro!: bexI [of _ "unat w"])
  have pack: "list_all (\<lambda>f. f AND 0xe0 = 0 \<longrightarrow> (f AND 7) AND NOT 7 = 0
      \<and> f = ?flags (f AND 7) (f AND 8 \<noteq> 0) (f AND 16 \<noteq> 0)) (map of_nat [0..<256])" by code_simp
  have unpack: "list_all (\<lambda>a. list_all (\<lambda>(x, y). a AND NOT 7 = 0 \<longrightarrow> ?flags a x y AND 0xe0 = 0
      \<and> a = ?flags a x y AND 7 \<and> x = (?flags a x y AND 8 \<noteq> 0) \<and> y = (?flags a x y AND 16 \<noteq> 0))
      [(False, False), (False, True), (True, False), (True, True)]) (map of_nat [0..<256])" by code_simp
  have "(acl, finder) \<in> set [(False, False), (False, True), (True, False), (True, True)]" by auto
  with unpack all [of absent] have u: "absent AND NOT 7 = 0 \<Longrightarrow> ?flags absent acl finder AND 0xe0 = 0
      \<and> absent = ?flags absent acl finder AND 7 \<and> acl = (?flags absent acl finder AND 8 \<noteq> 0)
      \<and> finder = (?flags absent acl finder AND 16 \<noteq> 0)"
    unfolding list_all_iff by fast
  have p: "flags AND 0xe0 = 0 \<Longrightarrow> (flags AND 7) AND NOT 7 = 0
      \<and> flags = ?flags (flags AND 7) (flags AND 8 \<noteq> 0) (flags AND 16 \<noteq> 0)"
    using pack all [of flags] unfolding list_all_iff by fast
  show ?thesis
  proof
    assume "flags AND 0xe0 = 0 \<and> absent = flags AND 7 \<and> acl = (flags AND 8 \<noteq> 0) \<and> finder = (flags AND 16 \<noteq> 0)"
    then have "flags AND 0xe0 = 0" and e: "absent = flags AND 7" "acl = (flags AND 8 \<noteq> 0)"
      "finder = (flags AND 16 \<noteq> 0)" by blast+
    then show "absent AND NOT 7 = 0 \<and> flags = ?flags absent acl finder" unfolding e by (intro p)
  next
    assume "absent AND NOT 7 = 0 \<and> flags = ?flags absent acl finder"
    then have "absent AND NOT 7 = 0" and e: "flags = ?flags absent acl finder" by blast+
    then show "flags AND 0xe0 = 0 \<and> absent = flags AND 7 \<and> acl = (flags AND 8 \<noteq> 0) \<and> finder = (flags AND 16 \<noteq> 0)"
      using u unfolding e by blast
  qed
qed

definition print_link :: "link_record \<Rightarrow> bytes" where
  "print_link x = le_bytes (as_u32 (length (link_name x))) @ le_bytes (as_u32 (length (print_metadata (link_metadata x))))
     @ [link_flags x] @ print_override (observed_mtime x) @ link_name x @ print_metadata (link_metadata x)"

definition link_wf :: "allocator \<Rightarrow> link_record \<Rightarrow> bool" where
  "link_wf mem x \<longleftrightarrow> link_validate x = Inr () \<and> override_wf (observed_mtime x)
     \<and> metadata_canonical (link_metadata x) \<and> metadata_typed (link_metadata x)
     \<and> descriptors_granted mem (link_metadata x)
     \<and> length (link_name x) < 2 ^ 32 \<and> length (print_metadata (link_metadata x)) < 2 ^ 32"

lemma link_validate_flags: "link_validate x = Inr () \<Longrightarrow> absent_times x AND NOT 7 = 0"
  by (auto simp: link_validate_def Let_def result_simps split: if_splits)

lemma link_flags_iff:
  "(flags AND 0xe0 = 0 \<and> absent_times x = flags AND 7 \<and> acl_override x = (flags AND 8 \<noteq> 0)
      \<and> finder_override x = (flags AND 16 \<noteq> 0)) \<and> link_validate x = Inr () \<longleftrightarrow>
    flags = link_flags x \<and> link_validate x = Inr ()"
  unfolding flag_bits link_flags_def using link_validate_flags by blast

lemma consumes_flags:
  assumes "reader_ok r"
  shows "consumes r (b # print_override v @ ys) r2 \<longleftrightarrow>
     (\<exists>r1. consumes r [b] r1 \<and> consumes r1 (print_override v @ ys) r2)"
proof -
  have "b # print_override v @ ys = [b] @ (print_override v @ ys)" by simp
  then show ?thesis using consumes_append [OF assms] by (simp only:)
qed

lemma read_link_tail:
  "and_then (map_err metadata_failure d) (\<lambda>m.
     let record = \<lparr>link_name = name, link_metadata = m, absent_times = a, observed_mtime = obs,
          acl_override = p, finder_override = q\<rparr> in
     and_then (link_validate record) (\<lambda>_. Inr (record, r))) = Inr (x, r') \<longleftrightarrow>
   d = Inr (link_metadata x) \<and> name = link_name x \<and> absent_times x = a \<and> obs = observed_mtime x
     \<and> acl_override x = p \<and> finder_override x = q \<and> link_validate x = Inr () \<and> r = r'"
  by (cases x) (auto simp: result_simps Let_def)

interpretation link_codec: wire_codec "read_link mem" print_link "link_wf mem" for mem
proof unfold_locales
  fix r r' and x :: link_record
  assume ok: "reader_ok r"
  have "read_link mem r = Inr (x, r') \<longleftrightarrow> (\<exists>r1 r2 flags r3 r4 r5 blob.
      consumes r (le_bytes (as_u32 (length (link_name x)))) r1 \<and> length (link_name x) < 2 ^ 32
      \<and> consumes r1 (le_bytes (as_u32 (length blob))) r2 \<and> length blob < 2 ^ 32
      \<and> consumes r2 [flags] r3 \<and> override_wf (observed_mtime x) \<and> consumes r3 (print_override (observed_mtime x)) r4
      \<and> consumes r4 (link_name x) r5 \<and> consumes r5 blob r'
      \<and> metadata_decode mem blob = Inr (link_metadata x)
      \<and> (flags AND 0xe0 = 0 \<and> absent_times x = flags AND 7 \<and> acl_override x = (flags AND 8 \<noteq> 0)
      \<and> finder_override x = (flags AND 16 \<noteq> 0)) \<and> link_validate x = Inr ())"
    unfolding read_link_def
    using ok
    by (simp add: byte_codec.parse_then u32_codec.parse_then observed_codec.parse_then take_codec.parse_then
        if_err_Inr read_link_tail cong: conj_cong) (auto simp: u32_count, blast+)
  also have "\<dots> \<longleftrightarrow> link_wf mem x \<and> consumes r (print_link x) r'"
    unfolding link_flags_iff
    using ok
    by (simp add: metadata_decode_iff [OF u32_in_memory] link_wf_def print_link_def
        consumes_append consumes_flags cong: conj_cong) blast
  finally show "read_link mem r = Inr (x, r') \<longleftrightarrow> link_wf mem x \<and> consumes r (print_link x) r'" .
qed

lemma check_after_Inr: "check_after previous name = Inr u \<longleftrightarrow> (\<forall>p. previous = Some p \<longrightarrow> link_name p < name)"
  by (auto simp: check_after_def not_le split: option.splits if_splits)

lemma read_links_iff:
  assumes "reader_ok r"
  shows "read_links mem n previous r = Inr (xs, r') \<longleftrightarrow> length xs = n \<and> (\<forall>x \<in> set xs. link_wf mem x)
    \<and> sorted_wrt (<) (map link_name (case previous of None \<Rightarrow> xs | Some p \<Rightarrow> p # xs))
    \<and> consumes r (concat (map print_link xs)) r'"
  using assms
proof (induction n arbitrary: previous r xs)
  case 0
  then show ?case by (auto split: option.splits)
next
  case (Suc n)
  have "read_links mem (Suc n) previous r = Inr (xs, r') \<longleftrightarrow> (\<exists>x r1 ys. link_wf mem x \<and> consumes r (print_link x) r1
      \<and> (\<forall>p. previous = Some p \<longrightarrow> link_name p < link_name x)
      \<and> read_links mem n (Some x) r1 = Inr (ys, r') \<and> xs = x # ys)"
    unfolding read_links.simps link_codec.parse_then [OF Suc.prems]
    by (auto simp: and_then_Inr check_after_Inr)
  also have "\<dots> \<longleftrightarrow> (\<exists>x r1 ys. link_wf mem x \<and> consumes r (print_link x) r1
      \<and> (\<forall>p. previous = Some p \<longrightarrow> link_name p < link_name x)
      \<and> (length ys = n \<and> (\<forall>x \<in> set ys. link_wf mem x) \<and> sorted_wrt (<) (map link_name (x # ys))
         \<and> consumes r1 (concat (map print_link ys)) r') \<and> xs = x # ys)"
    using Suc.IH [OF consumes_okD] by (intro ex_cong1) auto
  also have "\<dots> \<longleftrightarrow> length xs = Suc n \<and> (\<forall>x \<in> set xs. link_wf mem x)
    \<and> sorted_wrt (<) (map link_name (case previous of None \<Rightarrow> xs | Some p \<Rightarrow> p # xs))
    \<and> consumes r (concat (map print_link xs)) r'"
    using Suc.prems
    by (auto simp: consumes_append length_Suc_conv split: option.splits intro: less_trans)
  finally show ?case .
qed

interpretation links_codec: wire_codec "read_links mem n None" "\<lambda>xs. concat (map print_link xs)"
  "\<lambda>xs. length xs = n \<and> (\<forall>x \<in> set xs. link_wf mem x) \<and> sorted_wrt (<) (map link_name xs)" for mem n
  by unfold_locales (simp add: read_links_iff)

definition print_transport :: "transport \<Rightarrow> bytes" where
  "print_transport t = LINK_MAGIC @ le_bytes (as_u32 (length (t_records t))) @ concat (map print_link (t_records t))"

definition transport_wf :: "allocator \<Rightarrow> transport \<Rightarrow> bool" where
  "transport_wf mem t \<longleftrightarrow> sorted_wrt (<) (map link_name (t_records t)) \<and> (\<forall>x \<in> set (t_records t). link_wf mem x)"

lemma link_name_bounds:
  assumes "link_validate x = Inr ()"
  shows "0 < length (link_name x)" "length (link_name x) \<le> 4096"
proof -
  have "valid_path (link_name x)"
    using assms by (auto simp: link_validate_def Let_def result_simps split: if_splits)
  then show "0 < length (link_name x)" "length (link_name x) \<le> 4096" using valid_path_length by blast+
qed

lemma length_print_override: "0 < length (print_override v)"
  by (simp add: print_override_def split: option.splits)

lemma length_print_link: "link_validate x = Inr () \<Longrightarrow> 31 \<le> length (print_link x)"
  using link_name_bounds(1) [of x] length_print_metadata [of "link_metadata x"]
    length_print_override [of "observed_mtime x"]
  unfolding print_link_def by (simp del: length_greater_0_conv)

lemma transport_count:
  "\<forall>x \<in> set xs. link_validate x = Inr () \<Longrightarrow> 31 * length xs \<le> length (concat (map print_link xs))"
proof (induction xs)
  case (Cons x xs)
  then show ?case using length_print_link [of x] by simp
qed simp

lemma LINK_MAGIC_length: "length LINK_MAGIC = 9"
  by (simp add: LINK_MAGIC_def ascii_def)

lemma transport_decode_iff:
  "transport_decode mem bs = Inr t \<longleftrightarrow>
     length bs \<le> 65536 \<and> mem (length (t_records t)) \<and> transport_wf mem t \<and> bs = print_transport t"
proof (cases "length bs \<le> 65536")
  case True
  then have ok: "reader_ok (read_from bs)" by (simp add: in_memory_def)
  let ?xs = "t_records t"
  have count: "length ?xs \<le> (length bs - rd_pos r) div 31"
    if "\<forall>x \<in> set ?xs. link_wf mem x" "consumes r (concat (map print_link ?xs)) r'" "rd_bytes r = bs" for r r'
  proof -
    have "31 * length ?xs \<le> length (concat (map print_link ?xs))"
      using that(1) by (intro transport_count) (simp add: link_wf_def)
    also have "\<dots> \<le> length (remaining r)" using that(2) by (simp add: consumes_def)
    also have "\<dots> = length bs - rd_pos r" using that(3) by (simp add: remaining_def)
    finally show ?thesis by (simp add: less_eq_div_iff_mult_less_eq mult.commute)
  qed
  have bytes: "rd_bytes r1 = bs" if "consumes (read_from bs) xs r" "consumes r ys r1" for xs ys r r1
    using that by (simp add: consumes_def)
  let ?k = "\<lambda>n r. if n > (length bs - rd_pos r) div 31 then Inl InvalidTransport
    else and_then (reserve mem n OutOfMemory) (\<lambda>_. and_then (read_links mem n None r)
      (\<lambda>(rs, r). if rd_pos r \<noteq> length bs then Inl InvalidTransport else Inr \<lparr>t_records = rs\<rparr>))"
  have k: "?k n r = Inr t \<longleftrightarrow> n = length ?xs \<and> n \<le> (length bs - rd_pos r) div 31 \<and> mem n \<and> transport_wf mem t
      \<and> (\<exists>r2. consumes r (concat (map print_link ?xs)) r2 \<and> rd_pos r2 = length bs)" if "reader_ok r" for n r
    using that by (cases t) (auto simp: links_codec.parse_then if_err_Inr reserve_then transport_wf_def)
  have "transport_decode mem bs = and_then (reader_take InvalidTransport (length LINK_MAGIC) (read_from bs))
      (\<lambda>(magic, r). if magic \<noteq> LINK_MAGIC then Inl InvalidTransport
       else and_then (reader_u32 InvalidTransport r) (\<lambda>(n, r). ?k (unat n) r))"
    using True by (simp add: transport_decode_def MAX_BYTES_def)
  then have "transport_decode mem bs = Inr t \<longleftrightarrow> (\<exists>r. consumes (read_from bs) LINK_MAGIC r
      \<and> and_then (reader_u32 InvalidTransport r) (\<lambda>(n, r). ?k (unat n) r) = Inr t)"
    by (simp only: magic_then [OF ok])
  also have "\<dots> \<longleftrightarrow> (\<exists>r. consumes (read_from bs) LINK_MAGIC r
      \<and> (\<exists>n r1. n < 2 ^ 32 \<and> consumes r (le_bytes (as_u32 n)) r1 \<and> ?k n r1 = Inr t))"
    by (intro ex_cong1 conj_cong refl u32_then [where f = ?k] consumes_okD)
  also have "\<dots> \<longleftrightarrow> (\<exists>r. consumes (read_from bs) LINK_MAGIC r
      \<and> (\<exists>n r1. n < 2 ^ 32 \<and> consumes r (le_bytes (as_u32 n)) r1
      \<and> n = length ?xs \<and> n \<le> (length bs - rd_pos r1) div 31 \<and> mem n \<and> transport_wf mem t
      \<and> (\<exists>r2. consumes r1 (concat (map print_link ?xs)) r2 \<and> rd_pos r2 = length bs)))"
    by (intro ex_cong1 conj_cong refl k consumes_okD)
  also have "\<dots> \<longleftrightarrow> (\<exists>r r1 r2. consumes (read_from bs) LINK_MAGIC r
      \<and> consumes r (le_bytes (as_u32 (length ?xs))) r1 \<and> length ?xs < 2 ^ 32
      \<and> length ?xs \<le> (length bs - rd_pos r1) div 31 \<and> mem (length ?xs) \<and> transport_wf mem t
      \<and> consumes r1 (concat (map print_link ?xs)) r2 \<and> rd_pos r2 = length bs)"
    by blast
  also have "\<dots> \<longleftrightarrow> (length ?xs < 2 ^ 32 \<and> mem (length ?xs) \<and> transport_wf mem t)
      \<and> (\<exists>r. consumes (read_from bs) (print_transport t) r \<and> rd_pos r = length bs)"
    using ok count bytes
    by (simp add: print_transport_def consumes_append transport_wf_def cong: conj_cong) blast
  also have "(\<exists>r. consumes (read_from bs) (print_transport t) r \<and> rd_pos r = length bs) \<longleftrightarrow> bs = print_transport t"
    using ok consumes_all by simp
  also have "(length ?xs < 2 ^ 32 \<and> mem (length ?xs) \<and> transport_wf mem t) \<and> bs = print_transport t \<longleftrightarrow>
      mem (length ?xs) \<and> transport_wf mem t \<and> bs = print_transport t"
    using True transport_count [of ?xs]
    by (auto simp: print_transport_def transport_wf_def link_wf_def)
  finally show ?thesis using True by simp
qed (simp add: transport_decode_def MAX_BYTES_def)

section \<open>Construction, encoding and lookup\<close>

definition record_ok :: "link_record \<Rightarrow> bool" where
  "record_ok x \<longleftrightarrow> link_validate x = Inr () \<and> override_wf (observed_mtime x)"

lemma validate_links_Inr:
  "validate_links previous xs = Inr u \<longleftrightarrow> (\<forall>x \<in> set xs. record_ok x)
     \<and> sorted_wrt (<) (map link_name (case previous of None \<Rightarrow> xs | Some p \<Rightarrow> p # xs))"
proof (induction xs arbitrary: previous)
  case Nil
  then show ?case by (auto split: option.splits)
next
  case (Cons x xs)
  have "validate_links previous (x # xs) = Inr u \<longleftrightarrow> record_ok x
      \<and> (\<forall>p. previous = Some p \<longrightarrow> link_name p < link_name x) \<and> validate_links (Some x) xs = Inr u"
    by (auto simp: result_simps check_after_Inr encode_time_override_iff record_ok_def)
  then show ?case unfolding Cons.IH by (auto split: option.splits intro: less_trans)
qed

lemma transport_new_iff:
  "transport_new xs = Inr t \<longleftrightarrow> t = \<lparr>t_records = xs\<rparr> \<and> length xs \<le> 2113
     \<and> (\<forall>x \<in> set xs. record_ok x) \<and> sorted_wrt (<) (map link_name xs)"
  by (auto simp: transport_new_def result_simps validate_links_Inr MAX_RECORDS_def MAX_BYTES_def
      LINK_MAGIC_length)

lemma add_counts_Inr: "n \<le> 65536 \<Longrightarrow> add_counts n ks = Inr m \<longleftrightarrow> m = n + sum_list ks \<and> m \<le> 65536"
  by (induction ks arbitrary: n) (auto simp: result_simps checked_add_usize_def MAX_BYTES_def)

lemma length_print_link_sum:
  "length (print_link x) = 9 + (length (print_override (observed_mtime x))
     + (length (link_name x) + length (print_metadata (link_metadata x))))"
  by (simp add: print_link_def)

lemma encoded_size_Inr:
  "n \<le> 65536 \<Longrightarrow> encoded_size n xs = Inr m \<longleftrightarrow> (\<forall>x \<in> set xs. override_wf (observed_mtime x))
     \<and> m = n + length (concat (map print_link xs)) \<and> m \<le> 65536"
proof (induction xs arbitrary: n)
  case (Cons x xs)
  have "encoded_size n (x # xs) = Inr m \<longleftrightarrow> override_wf (observed_mtime x)
      \<and> n + length (print_link x) \<le> 65536 \<and> encoded_size (n + length (print_link x)) xs = Inr m"
    using Cons.prems
    by (auto simp: result_simps encode_time_override_iff metadata_encoded_len_iff add_counts_Inr
        length_print_link_sum simp del: add_counts.simps)
  then show ?case using Cons.IH by auto
qed auto

lemma add_counts_over: "n \<le> 65536 \<Longrightarrow> n + sum_list ks > 65536 \<Longrightarrow> add_counts n ks = Inl TransportTooLarge"
  by (induction ks arbitrary: n) (auto simp: checked_add_usize_def MAX_BYTES_def)

lemma encoded_size_over:
  "n \<le> 65536 \<Longrightarrow> \<forall>x \<in> set xs. override_wf (observed_mtime x) \<and> in_memory (print_metadata (link_metadata x)) \<Longrightarrow>
     n + length (concat (map print_link xs)) > 65536 \<Longrightarrow> encoded_size n xs = Inl TransportTooLarge"
proof (induction xs arbitrary: n)
  case (Cons x xs)
  let ?ks = "[9, length (print_override (observed_mtime x)), length (link_name x),
    length (print_metadata (link_metadata x))]"
  have sum: "n + sum_list ?ks = n + length (print_link x)" by (simp add: length_print_link_sum)
  have "encode_time_override (observed_mtime x) = Inr (print_override (observed_mtime x))"
    using Cons.prems(2) by (simp add: encode_time_override_iff)
  moreover have "metadata_encoded_len (link_metadata x) = Inr (length (print_metadata (link_metadata x)))"
    using Cons.prems(2) by (simp add: metadata_encoded_len_iff in_memory_def)
  ultimately have size: "encoded_size n (x # xs) = and_then (add_counts n ?ks) (\<lambda>n. encoded_size n xs)"
    by (simp del: add_counts.simps)
  show ?case
  proof (cases "n + length (print_link x) \<le> 65536")
    case True
    then have "add_counts n ?ks = Inr (n + length (print_link x))"
      using sum by (simp add: add_counts_Inr [OF Cons.prems(1)] del: add_counts.simps)
    then show ?thesis using size True Cons by (simp add: add.assoc)
  next
    case False
    then show ?thesis using size add_counts_over [OF Cons.prems(1), of ?ks] sum by (simp del: add_counts.simps)
  qed
qed simp

lemma encode_links_Inr:
  "encode_links mem xs out = Inr out' \<longleftrightarrow> (\<forall>x \<in> set xs. override_wf (observed_mtime x)
       \<and> mem (length (print_metadata (link_metadata x))) \<and> length (print_metadata (link_metadata x)) < 2 ^ 64)
     \<and> out' = out @ concat (map print_link xs)"
  by (induction xs arbitrary: out)
    (auto simp: result_simps encode_time_override_iff metadata_encode_iff print_link_def)

lemma encode_links_eq:
  "\<forall>x \<in> set xs. override_wf (observed_mtime x) \<Longrightarrow> \<forall>x \<in> set xs. in_memory (print_metadata (link_metadata x)) \<Longrightarrow>
   encode_links mem xs out = (if \<forall>x \<in> set xs. mem (length (print_metadata (link_metadata x)))
     then Inr (out @ concat (map print_link xs)) else Inl (TransportMetadata meta_error.OutOfMemory))"
proof (induction xs arbitrary: out)
  case (Cons x xs)
  have len: "metadata_encoded_len (link_metadata x) = Inr (length (print_metadata (link_metadata x)))"
    using Cons.prems(2) by (simp add: metadata_encoded_len_iff in_memory_def)
  have enc: "encode_time_override (observed_mtime x) = Inr (print_override (observed_mtime x))"
    using Cons.prems(1) by (simp add: encode_time_override_iff)
  show ?case
  proof (cases "mem (length (print_metadata (link_metadata x)))")
    case True
    then have "metadata_encode mem (link_metadata x) = Inr (print_metadata (link_metadata x))"
      using Cons.prems(2) by (simp add: metadata_encode_iff in_memory_def)
    then show ?thesis using Cons True enc by (auto simp: print_link_def [of x])
  next
    case False
    then show ?thesis using len by (simp add: metadata_encode_def reserve_def)
  qed
qed simp

lemma transport_encode_Inr:
  assumes "\<forall>n. mem n"
  shows "transport_encode mem t = Inr bs \<longleftrightarrow> (\<forall>x \<in> set (t_records t). override_wf (observed_mtime x))
     \<and> bs = print_transport t \<and> length bs \<le> 65536"
proof -
  have short: "length (print_metadata (link_metadata x)) \<le> length (concat (map print_link (t_records t)))"
    if "x \<in> set (t_records t)" for x
    using split_list [OF that] by (auto simp: length_print_link_sum)
  show ?thesis
    using short assms
    by (fastforce simp: transport_encode_def result_simps encoded_size_Inr encode_links_Inr LINK_MAGIC_length
        print_transport_def)
qed

text \<open>The records hold canonical metadata, as their type promises.\<close>

definition records_held :: "transport \<Rightarrow> bool" where
  "records_held t \<longleftrightarrow>
     (\<forall>x \<in> set (t_records t). metadata_canonical (link_metadata x) \<and> metadata_typed (link_metadata x))"

lemma transport_codec_iff:
  assumes mem: "\<forall>n. mem n"
  shows "transport_decode mem bs = Inr t \<longleftrightarrow>
    records_held t \<and> transport_new (t_records t) = Inr t \<and> transport_encode mem t = Inr bs"
proof -
  have wf: "length (t_records t) \<le> 2113 \<and> (\<forall>x \<in> set (t_records t). link_wf mem x)"
    if "length (print_transport t) \<le> 65536" "\<forall>x \<in> set (t_records t). record_ok x" "records_held t"
  proof -
    have "31 * length (t_records t) \<le> length (concat (map print_link (t_records t)))"
      using that(2) by (intro transport_count) (simp add: record_ok_def)
    moreover have "link_wf mem x" if x: "x \<in> set (t_records t)" for x
    proof -
      have "length (print_metadata (link_metadata x)) \<le> length (concat (map print_link (t_records t)))"
        using split_list [OF x] by (auto simp: length_print_link_sum)
      then show ?thesis
        using that \<open>records_held t\<close> \<open>\<forall>x \<in> set (t_records t). record_ok x\<close>
          \<open>length (print_transport t) \<le> 65536\<close> link_name_bounds(2) [of x] mem
        by (auto simp: link_wf_def record_ok_def records_held_def descriptors_granted_def print_transport_def)
    qed
    ultimately show ?thesis using that(1) by (simp add: print_transport_def LINK_MAGIC_length)
  qed
  show ?thesis
    unfolding transport_decode_iff transport_new_iff transport_encode_Inr [OF mem]
    using wf mem
    by (cases t) (auto simp: transport_wf_def link_wf_def record_ok_def records_held_def)
qed

definition sample_transport :: transport where
  "sample_transport = \<lparr>t_records =
     [\<lparr>link_name = ascii ''a'', link_metadata = metadata_default\<lparr>finder_flags := 1\<rparr>, absent_times = 0,
        observed_mtime = None, acl_override = True, finder_override = False\<rparr>,
      \<lparr>link_name = ascii ''b'', link_metadata = metadata_default, absent_times = 5,
        observed_mtime = Some \<lparr>sec = 7, nsec = 9\<rparr>, acl_override = False, finder_override = True\<rparr>]\<rparr>"

lemma sample_transport_new: "transport_new (t_records sample_transport) = Inr sample_transport"
proof -
  have "validate_links None (t_records sample_transport) = Inr ()" by code_simp
  then show ?thesis
    by (simp add: transport_new_iff validate_links_Inr) (simp add: sample_transport_def)
qed

lemma sample_transport_held: "records_held sample_transport"
proof -
  have "metadata_validate metadata_default = Inr ()" "metadata_validate (metadata_default\<lparr>finder_flags := 1\<rparr>) = Inr ()"
    by code_simp+
  then show ?thesis
    by (simp add: records_held_def sample_transport_def metadata_validate_iff metadata_typed_def metadata_default_def)
qed

lemma sample_transport_size: "length (print_transport sample_transport) = 87"
  by code_simp

lemma sample_transport_encode:
  "transport_encode (\<lambda>_. True) sample_transport = Inr (print_transport sample_transport)"
proof -
  have "\<forall>x \<in> set (t_records sample_transport). record_ok x"
    using sample_transport_new by (simp add: transport_new_iff)
  then show ?thesis by (simp add: transport_encode_Inr record_ok_def sample_transport_size)
qed

section \<open>Properties of the transport\<close>

text \<open>C32. The symlink transport is a bijective codec: with memory granted, a byte string decodes to a
  transport exactly when the transport passes the construction checks and the byte string is its
  encoding, at most 64 KiB long. Unsorted or duplicate names, contradictory times, unknown flag bits,
  forged counts and trailing bytes are refused.\<close>

theorem transport_codec:
  assumes "\<forall>n. mem n"
  shows "transport_decode mem bs = Inr t \<longleftrightarrow>
    records_held t \<and> transport_new (t_records t) = Inr t \<and> transport_encode mem t = Inr bs"
  using assms by (rule transport_codec_iff)

theorem transport_codec_witness:
  "transport_decode (\<lambda>_. True) (print_transport sample_transport) = Inr sample_transport"
  using transport_codec [of "\<lambda>_. True" "print_transport sample_transport" sample_transport]
    sample_transport_held sample_transport_new sample_transport_encode by simp

text \<open>C33. Encoding on every allocator. A constructed transport whose serialization has more than 65536
  bytes is refused as too large whatever the allocator answers, so no request decides before the
  bound does. Otherwise the only failures are refused requests: the one for the output, whose size is
  exactly that of the serialization, and the ones for the metadata of the records. When they are
  granted the result is the serialization.\<close>

theorem transport_encode_bound:
  assumes "transport_new xs = Inr t" and "\<forall>x \<in> set xs. in_memory (print_metadata (link_metadata x))"
  shows "transport_encode mem t =
    (if length (print_transport t) > 65536 then Inl TransportTooLarge
     else if \<not> mem (length (print_transport t)) then Inl OutOfMemory
     else if \<forall>x \<in> set xs. mem (length (print_metadata (link_metadata x))) then Inr (print_transport t)
     else Inl (TransportMetadata meta_error.OutOfMemory))"
proof -
  have t: "t_records t = xs" "\<forall>x \<in> set xs. override_wf (observed_mtime x)"
    using assms(1) by (auto simp: transport_new_iff record_ok_def)
  have size: "encoded_size 13 xs = (if length (print_transport t) > 65536 then Inl TransportTooLarge
      else Inr (length (print_transport t)))"
    using encoded_size_over [of 13 xs] encoded_size_Inr [of 13 xs] t assms(2)
    by (simp add: print_transport_def LINK_MAGIC_length)
  have "encode_links mem xs (LINK_MAGIC @ le_bytes (as_u32 (length xs)))
      = (if \<forall>x \<in> set xs. mem (length (print_metadata (link_metadata x))) then Inr (print_transport t)
         else Inl (TransportMetadata meta_error.OutOfMemory))"
    using encode_links_eq [OF t(2) assms(2)] by (simp add: print_transport_def t(1))
  then show ?thesis using size by (simp add: transport_encode_def t(1) LINK_MAGIC_length reserve_def)
qed

theorem transport_encode_bound_witness:
  "transport_encode (\<lambda>_. True) sample_transport = Inr (print_transport sample_transport)"
proof -
  have "\<forall>x \<in> set (t_records sample_transport). in_memory (print_metadata (link_metadata x))"
    by (simp add: sample_transport_def in_memory_def print_metadata_def metadata_default_def print_vector_def
        print_native_acl_def print_times_def times_default_def print_flagged_time_def print_option_def)
  from transport_encode_bound [OF sample_transport_new this, of "\<lambda>_. True"] show ?thesis
    by (simp add: sample_transport_size)
qed

text \<open>Lookup by name: on a constructed transport, \<open>find\<close> returns a record exactly when it is the
  record of that name.\<close>

lemma transport_find_record:
  assumes "transport_new xs = Inr t"
  shows "transport_find t name = Some x \<longleftrightarrow> x \<in> set xs \<and> link_name x = name"
proof -
  have t: "t_records t = xs" "sorted_wrt (<) (map link_name xs)" using assms by (auto simp: transport_new_iff)
  have "transport_find t name = Some x \<longleftrightarrow>
      (\<exists>i. binary_search_by (\<lambda>r. cmp (link_name r) name) xs = Some i \<and> xs ! i = x)"
    by (auto simp: transport_find_def t(1))
  also have "\<dots> \<longleftrightarrow> (\<exists>y \<in> set xs. link_name y = name \<and> y = x)"
    by (rule slice_search.lookup_ex [OF t(2)])
  finally show ?thesis by blast
qed

end
