(* ===== verification/C_Api.thy ===== *)
theory C_Api
  imports Zdif_File Metadata_Base
begin

text \<open>
  The C boundary (\<open>rust/c-api/src/lib.rs\<close>). Memory is explicit: the live bytes (the caller's regions
  and the storage of returned vectors), the live buffer owners, and the caller's output slots, each a
  partial map from addresses; address 0 is the null pointer. An access outside live memory is the
  outcome \<open>Undefined\<close>, so a theorem that a call returns also says that it stays inside the memory the
  contract of \<open>difz-rust.h\<close> grants. A panic caught by \<open>catch_unwind\<close> is the outcome \<open>Panicked\<close>. A step
  that fails or panics leaves its memory as it is, with all it has written and allocated, and
  \<open>guard\<close> returns that memory. The addresses that the allocator hands out are a parameter (\<open>c_heap\<close>);
  what the code relies on is \<open>storage_fresh\<close> and \<open>fresh_for\<close>. The capacity of a vector beyond its
  length is not represented.
\<close>

section \<open>Memory\<close>

type_synonym ptr = u64
type_synonym i32 = "32 word"

text \<open>A buffer owns a vector: its storage and its length.\<close>

record buffer =
  vec_ptr :: ptr
  vec_len :: usize

record cmem =
  ram :: "ptr \<rightharpoonup> u8"
  buffers :: "ptr \<rightharpoonup> buffer"
  slots :: "ptr \<rightharpoonup> ptr"
  masks :: "ptr \<rightharpoonup> u32"

record c_heap =
  vec_alloc :: "cmem \<Rightarrow> usize \<Rightarrow> ptr"
  owner_alloc :: "cmem \<Rightarrow> ptr"

fun load :: "(ptr \<rightharpoonup> u8) \<Rightarrow> ptr \<Rightarrow> nat \<Rightarrow> bytes option" where
  "load m p 0 = Some []"
| "load m p (Suc n) =
     (case m p of None \<Rightarrow> None | Some b \<Rightarrow> map_option ((#) b) (load m (p + 1) n))"

fun store :: "(ptr \<rightharpoonup> u8) \<Rightarrow> ptr \<Rightarrow> bytes \<Rightarrow> (ptr \<rightharpoonup> u8)" where
  "store m p [] = m"
| "store m p (b # bs) = (store m (p + 1) bs)(p \<mapsto> b)"

fun erase :: "(ptr \<rightharpoonup> u8) \<Rightarrow> ptr \<Rightarrow> nat \<Rightarrow> (ptr \<rightharpoonup> u8)" where
  "erase m p 0 = m"
| "erase m p (Suc n) = (erase m (p + 1) n)(p := None)"

section \<open>Status codes\<close>

datatype status = InvalidData | WrongSource | Limit | OutOfMemory | Argument | Panic

fun status_code :: "status \<Rightarrow> i32" where
  "status_code InvalidData = - 1"
| "status_code WrongSource = - 2"
| "status_code Limit = - 4"
| "status_code status.OutOfMemory = - 5"
| "status_code Argument = - 6"
| "status_code Panic = - 7"

fun from_file :: "file_error \<Rightarrow> status" where
  "from_file file_error.OutOfMemory = status.OutOfMemory"
| "from_file SizeMismatch = WrongSource"
| "from_file SourceHashMismatch = WrongSource"
| "from_file file_error.WindowTooLarge = Limit"
| "from_file ResourceLimitExceeded = Limit"
| "from_file file_error.InvalidMagic = InvalidData"
| "from_file file_error.Truncated = InvalidData"
| "from_file TargetHashMismatch = InvalidData"
| "from_file file_error.CompressionFailed = InvalidData"
| "from_file file_error.DecompressionFailed = InvalidData"

section \<open>The boundary\<close>

text \<open>A step of a guarded closure returns, panics or is undefined. In the first two cases it leaves a
  memory, whether it succeeds or not: nothing is rolled back.\<close>

datatype 'a outcome = Returned "status + 'a" cmem | Panicked cmem | Undefined

type_synonym 'a action = "cmem \<Rightarrow> 'a outcome"

text \<open>The \<open>?\<close> operator inside a guarded closure.\<close>

definition attempt :: "'a action \<Rightarrow> ('a \<Rightarrow> 'b action) \<Rightarrow> 'b action" where
  "attempt m f st =
     (case m st of
        Returned (Inr x) st' \<Rightarrow> f x st'
      | Returned (Inl s) st' \<Rightarrow> Returned (Inl s) st'
      | Panicked st' \<Rightarrow> Panicked st'
      | Undefined \<Rightarrow> Undefined)"

text \<open>The result of a library call that leaves the memory alone.\<close>

definition call :: "status + 'a \<Rightarrow> 'a action" where
  "call r st = Returned r st"

definition guard :: "unit action \<Rightarrow> cmem \<Rightarrow> (i32 \<times> cmem) option" where
  "guard operation st =
     (case operation st of
        Returned (Inr _) st' \<Rightarrow> Some (0, st')
      | Returned (Inl s) st' \<Rightarrow> Some (status_code s, st')
      | Panicked st' \<Rightarrow> Some (status_code Panic, st')
      | Undefined \<Rightarrow> None)"

definition input :: "ptr \<Rightarrow> usize \<Rightarrow> bytes action" where
  "input data len st =
     (if len > 2 ^ 63 - 1 \<or> (len \<noteq> 0 \<and> data = 0) then Returned (Inl Argument) st
      else if len = 0 then Returned (Inr []) st
      else (case load (ram st) data len of None \<Rightarrow> Undefined | Some bs \<Rightarrow> Returned (Inr bs) st))"

text \<open>A vector that a library call returns is in storage; dropping it releases the storage.\<close>

definition vec_new :: "c_heap \<Rightarrow> bytes \<Rightarrow> buffer action" where
  "vec_new A bs st =
     (let p = vec_alloc A st (length bs) in
      Returned (Inr \<lparr>vec_ptr = p, vec_len = length bs\<rparr>) (st\<lparr>ram := store (ram st) p bs\<rparr>))"

definition vec_drop :: "buffer \<Rightarrow> cmem \<Rightarrow> cmem" where
  "vec_drop v st = st\<lparr>ram := erase (ram st) (vec_ptr v) (vec_len v)\<rparr>"

text \<open>The owner is allocated and takes the vector over; without an owner the vector is dropped.\<close>

definition own :: "c_heap \<Rightarrow> buffer \<Rightarrow> ptr action" where
  "own A v st =
     (let owner = owner_alloc A st in
      if owner = 0 then Returned (Inl status.OutOfMemory) (vec_drop v st)
      else Returned (Inr owner) (st\<lparr>buffers := (buffers st)(owner \<mapsto> v)\<rparr>))"

definition write_slot :: "ptr \<Rightarrow> ptr \<Rightarrow> unit action" where
  "write_slot out owner st =
     (if slots st out = None then Undefined
      else Returned (Inr ()) (st\<lparr>slots := (slots st)(out \<mapsto> owner)\<rparr>))"

definition produce :: "c_heap \<Rightarrow> cmem \<Rightarrow> ptr \<Rightarrow> buffer action \<Rightarrow> (i32 \<times> cmem) option" where
  "produce A st out operation =
     (if out = 0 then Some (status_code Argument, st)
      else guard (attempt operation (\<lambda>v. attempt (own A v) (\<lambda>owner. write_slot out owner))) st)"

definition difz_file_encode ::
  "allocator \<Rightarrow> ('c, 'd) native \<Rightarrow> hasher \<Rightarrow> c_heap \<Rightarrow> cmem \<Rightarrow> ptr \<Rightarrow> usize \<Rightarrow> ptr \<Rightarrow> usize \<Rightarrow> usize
    \<Rightarrow> ptr \<Rightarrow> (i32 \<times> cmem) option" where
  "difz_file_encode mem N H A st source slen target tlen max_bytes out =
     produce A st out
       (attempt (input source slen) (\<lambda>s.
        attempt (input target tlen) (\<lambda>t.
        attempt (call (map_err from_file (file_encode mem N H s t))) (\<lambda>bs.
        attempt (vec_new A bs) (\<lambda>v st.
        if max_bytes \<noteq> 0 \<and> vec_len v > max_bytes then Returned (Inl Limit) (vec_drop v st)
        else Returned (Inr v) st)))))"

definition difz_file_apply ::
  "allocator \<Rightarrow> ('c, 'd) native \<Rightarrow> hasher \<Rightarrow> c_heap \<Rightarrow> cmem \<Rightarrow> ptr \<Rightarrow> usize \<Rightarrow> ptr \<Rightarrow> usize \<Rightarrow> usize
    \<Rightarrow> ptr \<Rightarrow> (i32 \<times> cmem) option" where
  "difz_file_apply mem N H A st source slen patch plen max_bytes out =
     produce A st out
       (attempt (input source slen) (\<lambda>s.
        attempt (input patch plen) (\<lambda>p.
        attempt (call (map_err from_file (file_apply mem N H s p max_bytes))) (vec_new A))))"

definition difz_buffer_data :: "cmem \<Rightarrow> ptr \<Rightarrow> ptr option" where
  "difz_buffer_data st buffer =
     (if buffer = 0 then Some 0
      else map_option (\<lambda>b. if vec_len b = 0 then 0 else vec_ptr b) (buffers st buffer))"

definition difz_buffer_len :: "cmem \<Rightarrow> ptr \<Rightarrow> usize option" where
  "difz_buffer_len st buffer =
     (if buffer = 0 then Some 0 else map_option vec_len (buffers st buffer))"

text \<open>Dropping the vector releases its storage; then the owner is released.\<close>

definition difz_buffer_free :: "cmem \<Rightarrow> ptr \<Rightarrow> cmem option" where
  "difz_buffer_free st buffer =
     (if buffer = 0 then Some st
      else map_option (\<lambda>v. (vec_drop v st)\<lparr>buffers := (buffers st)(buffer := None)\<rparr>) (buffers st buffer))"

definition write_mask :: "ptr \<Rightarrow> u32 \<Rightarrow> unit action" where
  "write_mask out bits st =
     (if masks st out = None then Undefined
      else Returned (Inr ()) (st\<lparr>masks := (masks st)(out \<mapsto> bits)\<rparr>))"

definition difz_metadata_omit_parse :: "cmem \<Rightarrow> ptr \<Rightarrow> usize \<Rightarrow> ptr \<Rightarrow> (i32 \<times> cmem) option" where
  "difz_metadata_omit_parse st text len out =
     (if out = 0 then Some (status_code Argument, st)
      else guard
        (attempt (input text len) (\<lambda>bs.
         attempt (call (map_err (\<lambda>_. InvalidData) (omit_parse bs))) (\<lambda>omit. write_mask out omit))) st)"

text \<open>Evaluation of the length check on binary integers.\<close>

lemma input_code [code]:
  "input data len st =
     (if int len > 9223372036854775807 \<or> (len \<noteq> 0 \<and> data = 0) then Returned (Inl Argument) st
      else if len = 0 then Returned (Inr []) st
      else (case load (ram st) data len of None \<Rightarrow> Undefined | Some bs \<Rightarrow> Returned (Inr bs) st))"
proof -
  have "len > 2 ^ 63 - 1 \<longleftrightarrow> int len > 9223372036854775807" by simp
  then show ?thesis by (simp only: input_def)
qed

section \<open>Lemmas on memory\<close>

definition region :: "ptr \<Rightarrow> nat \<Rightarrow> ptr set" where
  "region p n = (\<lambda>i. p + of_nat i) ` {..<n}"

lemma region_Suc: "region p (Suc n) = insert p (region (p + 1) n)"
  by (force simp: region_def lessThan_Suc_eq_insert_0 image_image)

lemma region_0 [simp]: "region p 0 = {}"
  by (simp add: region_def)

lemma region_start:
  assumes "Suc n \<le> 2 ^ 64"
  shows "p \<notin> region (p + 1) n"
proof
  assume "p \<in> region (p + 1) n"
  then obtain i where i: "i < n" "of_nat (Suc i) = (0 :: u64)"
    by (auto simp: region_def algebra_simps)
  then have "2 ^ 64 dvd Suc i" using word_of_nat_eq_0_iff [where 'a = 64, of "Suc i"] by simp
  then show False using i assms by (auto dest: dvd_imp_le)
qed

lemma load_length: "load m p n = Some bs \<Longrightarrow> length bs = n"
  by (induction m p n arbitrary: bs rule: load.induct) (auto split: option.splits)

lemma load_region: "load m p n = Some bs \<Longrightarrow> region p n \<subseteq> dom m"
  by (induction m p n arbitrary: bs rule: load.induct) (auto simp: region_Suc split: option.splits)

lemma load_cong: "(\<And>q. q \<in> region p n \<Longrightarrow> m q = m' q) \<Longrightarrow> load m p n = load m' p n"
  by (induction m p n rule: load.induct) (auto simp: region_Suc split: option.splits)

lemma store_other: "q \<notin> region p (length bs) \<Longrightarrow> store m p bs q = m q"
  by (induction m p bs rule: store.induct) (auto simp: region_Suc)

lemma dom_store: "dom (store m p bs) = region p (length bs) \<union> dom m"
  by (induction m p bs rule: store.induct) (simp_all add: region_Suc del: fun_upd_apply)

lemma load_store: "length bs \<le> 2 ^ 64 \<Longrightarrow> load (store m p bs) p (length bs) = Some bs"
proof (induction m p bs rule: store.induct)
  case (2 m p b bs)
  then have "p \<notin> region (p + 1) (length bs)" by (intro region_start) simp
  then have "load ((store m (p + 1) bs)(p \<mapsto> b)) (p + 1) (length bs)
      = load (store m (p + 1) bs) (p + 1) (length bs)"
    by (intro load_cong) auto
  then show ?case using 2 by (simp del: fun_upd_apply add: fun_upd_same)
qed simp

lemma load_store_disjoint:
  assumes "load m q n = Some cs" and "region p (length bs) \<inter> dom m = {}"
  shows "load (store m p bs) q n = Some cs"
proof -
  have "load (store m p bs) q n = load m q n"
    using assms load_region [OF assms(1)] by (intro load_cong store_other) blast
  then show ?thesis using assms(1) by simp
qed

lemma erase_apply: "erase m p n q = (if q \<in> region p n then None else m q)"
  by (induction m p n rule: erase.induct) (auto simp: region_Suc)

lemma erase_store:
  assumes "region p (length bs) \<inter> dom m = {}"
  shows "erase (store m p bs) p (length bs) = m"
proof
  fix q
  show "erase (store m p bs) p (length bs) q = m q"
    using assms store_other [of q p bs m] by (cases "m q") (auto simp: erase_apply)
qed

lemma erase_store_other:
  assumes "region q n \<inter> region p (length bs) = {}"
  shows "erase (store m p bs) q n = store (erase m q n) p bs"
proof
  fix x
  show "erase (store m p bs) q n x = store (erase m q n) p bs x"
  proof (cases "x \<in> region p (length bs)")
    case True
    then have "store m p bs x = store (erase m q n) p bs x"
      by (induction m p bs rule: store.induct) (auto simp: region_Suc)
    then show ?thesis using True assms by (auto simp: erase_apply)
  qed (simp add: store_other erase_apply)
qed

section \<open>Lemmas on the boundary\<close>

text \<open>What the contract grants for an input region: it is live, or the pair is refused or empty.\<close>

definition readable :: "cmem \<Rightarrow> ptr \<Rightarrow> usize \<Rightarrow> bool" where
  "readable st p n \<longleftrightarrow> n > 2 ^ 63 - 1 \<or> p = 0 \<or> load (ram st) p n \<noteq> None"

text \<open>What the allocator grants for a vector of \<open>n\<close> bytes: a length of at most \<open>isize::MAX\<close>, storage
  away from every live byte, and a new owner.\<close>

definition fresh_for :: "c_heap \<Rightarrow> cmem \<Rightarrow> bytes \<Rightarrow> bool" where
  "fresh_for A st bs \<longleftrightarrow> in_memory bs
     \<and> vec_alloc A st (length bs) \<noteq> 0
     \<and> region (vec_alloc A st (length bs)) (length bs) \<inter> dom (ram st) = {}
     \<and> owner_alloc A (st\<lparr>ram := store (ram st) (vec_alloc A st (length bs)) bs\<rparr>) \<notin> insert 0 (dom (buffers st))"

definition published :: "c_heap \<Rightarrow> cmem \<Rightarrow> ptr \<Rightarrow> bytes \<Rightarrow> cmem" where
  "published A st out bs =
     (let p = vec_alloc A st (length bs);
          st1 = st\<lparr>ram := store (ram st) p bs\<rparr>;
          owner = owner_alloc A st1 in
      st1\<lparr>buffers := (buffers st1)(owner \<mapsto> \<lparr>vec_ptr = p, vec_len = length bs\<rparr>),
          slots := (slots st1)(out \<mapsto> owner)\<rparr>)"

definition published_owner :: "c_heap \<Rightarrow> cmem \<Rightarrow> bytes \<Rightarrow> ptr" where
  "published_owner A st bs = owner_alloc A (st\<lparr>ram := store (ram st) (vec_alloc A st (length bs)) bs\<rparr>)"

lemma status_code_nonzero [simp]: "status_code s \<noteq> 0"
  by (cases s) simp_all

lemma attempt_Inr: "attempt m f st = Returned (Inr y) st' \<longleftrightarrow>
    (\<exists>x st1. m st = Returned (Inr x) st1 \<and> f x st1 = Returned (Inr y) st')"
  by (auto simp: attempt_def split: outcome.splits sum.splits)

lemma call_Inr: "call r st = Returned (Inr y) st' \<longleftrightarrow> r = Inr y \<and> st' = st"
  by (auto simp: call_def)

lemma vec_new_Inr: "vec_new A bs st = Returned (Inr v) st' \<longleftrightarrow>
    v = \<lparr>vec_ptr = vec_alloc A st (length bs), vec_len = length bs\<rparr>
    \<and> st' = st\<lparr>ram := store (ram st) (vec_alloc A st (length bs)) bs\<rparr>"
  by (auto simp: vec_new_def Let_def)

lemma limit_Inr: "(if c then Returned (Inl s) st1 else Returned (Inr x) st) = Returned (Inr y) st' \<longleftrightarrow> \<not> c \<and> x = y \<and> st = st'"
  by auto

lemma guard_Some: "guard m st = Some (code, st') \<longleftrightarrow>
    (if code = 0 then m st = Returned (Inr ()) st'
     else m st = Panicked st' \<and> code = - 7 \<or> (\<exists>s. m st = Returned (Inl s) st' \<and> code = status_code s))"
  by (auto simp: guard_def split: outcome.splits sum.splits)

lemma input_Inr: "input p n st = Returned (Inr bs) st' \<longleftrightarrow>
    st' = st \<and> n < 2 ^ 63 \<and> (n = 0 \<or> p \<noteq> 0) \<and> load (ram st) p n = Some bs"
  by (auto simp: input_def split: option.splits)

lemmas step_simps = attempt_Inr call_Inr input_Inr vec_new_Inr limit_Inr

lemma input_cases:
  assumes "readable st p n"
  shows "(\<exists>s. input p n st = Returned (Inl s) st) \<or> (\<exists>bs. input p n st = Returned (Inr bs) st \<and> load (ram st) p n = Some bs)"
  using assms by (cases n) (auto simp: input_def readable_def split: option.splits)

text \<open>\<open>produce\<close> on every outcome of its closure.\<close>

lemma produce_ok:
  "produce A st out m = Some (0, st') \<longleftrightarrow> out \<noteq> 0
     \<and> (\<exists>v st1. m st = Returned (Inr v) st1 \<and> owner_alloc A st1 \<noteq> 0 \<and> slots st1 out \<noteq> None
        \<and> st' = st1\<lparr>buffers := (buffers st1)(owner_alloc A st1 \<mapsto> v), slots := (slots st1)(out \<mapsto> owner_alloc A st1)\<rparr>)"
  by (auto simp: produce_def guard_Some attempt_Inr own_def write_slot_def Let_def)

text \<open>A published buffer: what its handle reports, what stays readable, and what freeing it restores.\<close>

lemma published_fields:
  "buffers (published A st out bs) (published_owner A st bs)
     = Some \<lparr>vec_ptr = vec_alloc A st (length bs), vec_len = length bs\<rparr>"
  "slots (published A st out bs) = (slots st)(out \<mapsto> published_owner A st bs)"
  "ram (published A st out bs) = store (ram st) (vec_alloc A st (length bs)) bs"
  "buffers (published A st out bs) = (buffers st)(published_owner A st bs \<mapsto>
     \<lparr>vec_ptr = vec_alloc A st (length bs), vec_len = length bs\<rparr>)"
  by (simp_all add: published_def published_owner_def Let_def)

lemma published_handle:
  assumes "fresh_for A st bs"
  shows "difz_buffer_len (published A st out bs) (published_owner A st bs) = Some (length bs)"
    and "difz_buffer_data (published A st out bs) (published_owner A st bs)
      = Some (if bs = [] then 0 else vec_alloc A st (length bs))"
    and "load (ram (published A st out bs)) (vec_alloc A st (length bs)) (length bs) = Some bs"
  using assms load_store [of bs] in_memory_u64 [of bs]
  by (simp_all add: difz_buffer_len_def difz_buffer_data_def published_fields fresh_for_def
      published_owner_def less_imp_le)

lemma published_keeps:
  assumes "fresh_for A st bs" and "load (ram st) p n = Some cs"
  shows "load (ram (published A st out bs)) p n = Some cs"
  using assms load_store_disjoint by (simp add: fresh_for_def published_fields)

lemma published_free:
  assumes "fresh_for A st bs"
    and "ram st' = ram (published A st out bs)" "buffers st' = buffers (published A st out bs)"
  shows "difz_buffer_free st' (published_owner A st bs) = Some (st'\<lparr>ram := ram st, buffers := buffers st\<rparr>)"
proof -
  have "buffers st (published_owner A st bs) = None" "published_owner A st bs \<noteq> 0"
    using assms(1) by (auto simp: fresh_for_def published_owner_def)
  then show ?thesis
    using assms erase_store [of "vec_alloc A st (length bs)" bs "ram st"]
    by (simp add: difz_buffer_free_def vec_drop_def published_fields fresh_for_def fun_upd_idem)
qed

lemma file_encode_call:
  "difz_file_encode mem N H A st sp sn tp tn maximum out = Some (0, st') \<longleftrightarrow>
     out \<noteq> 0 \<and> slots st out \<noteq> None \<and> sn < 2 ^ 63 \<and> tn < 2 ^ 63 \<and> (sn = 0 \<or> sp \<noteq> 0) \<and> (tn = 0 \<or> tp \<noteq> 0)
     \<and> (\<exists>source target patch. load (ram st) sp sn = Some source \<and> load (ram st) tp tn = Some target
        \<and> file_encode mem N H source target = Inr patch \<and> (maximum = 0 \<or> length patch \<le> maximum)
        \<and> published_owner A st patch \<noteq> 0 \<and> st' = published A st out patch)"
  unfolding difz_file_encode_def produce_ok step_simps
  by (auto simp: map_err_Inr published_def published_owner_def Let_def not_less)

lemma file_apply_call:
  "difz_file_apply mem N H A st sp sn pp pn maximum out = Some (0, st') \<longleftrightarrow>
     out \<noteq> 0 \<and> slots st out \<noteq> None \<and> sn < 2 ^ 63 \<and> pn < 2 ^ 63 \<and> (sn = 0 \<or> sp \<noteq> 0) \<and> (pn = 0 \<or> pp \<noteq> 0)
     \<and> (\<exists>source patch output. load (ram st) sp sn = Some source \<and> load (ram st) pp pn = Some patch
        \<and> file_apply mem N H source patch maximum = Inr output
        \<and> published_owner A st output \<noteq> 0 \<and> st' = published A st out output)"
  unfolding difz_file_apply_def produce_ok step_simps
  by (auto simp: map_err_Inr published_def published_owner_def Let_def)

text \<open>What the two closures do to the memory: nothing unless they succeed, and then they leave one new
  vector. The vector of a patch over the caller's limit is released again.\<close>

definition makes :: "c_heap \<Rightarrow> cmem \<Rightarrow> (bytes \<Rightarrow> bool) \<Rightarrow> buffer outcome \<Rightarrow> bool" where
  "makes A st Q r \<longleftrightarrow> (\<exists>s. r = Returned (Inl s) st) \<or> (\<exists>bs. Q bs \<and> r = vec_new A bs st)"

definition storage_fresh :: "c_heap \<Rightarrow> cmem \<Rightarrow> nat \<Rightarrow> bool" where
  "storage_fresh A st n \<longleftrightarrow> region (vec_alloc A st n) n \<inter> dom (ram st) = {}"

lemma vec_drop_new:
  assumes "storage_fresh A st (length bs)" and "vec_new A bs st = Returned (Inr v) st1"
  shows "vec_drop v st1 = st"
  using assms erase_store by (simp add: vec_new_Inr vec_drop_def storage_fresh_def)

lemma makes_input:
  assumes "readable st p n" and "\<And>bs. load (ram st) p n = Some bs \<Longrightarrow> makes A st Q (f bs st)"
  shows "makes A st Q (attempt (input p n) f st)"
  using input_cases [OF assms(1)] assms(2) by (auto simp: attempt_def makes_def)

lemma produce_contract:
  assumes "makes A st Q (m st)" and "\<And>bs. Q bs \<Longrightarrow> storage_fresh A st (length bs)"
    and "out = 0 \<or> slots st out \<noteq> None"
  shows "\<exists>code st'. produce A st out m = Some (code, st')
    \<and> (if code = 0 then \<exists>bs. Q bs \<and> published_owner A st bs \<noteq> 0 \<and> st' = published A st out bs else st' = st)"
proof (cases "out = 0 \<or> (\<exists>s. m st = Returned (Inl s) st)")
  case True
  then show ?thesis by (auto simp: produce_def guard_def attempt_def) (metis status_code_nonzero)
next
  case False
  with assms obtain bs where bs: "Q bs" "m st = vec_new A bs st" "storage_fresh A st (length bs)" "slots st out \<noteq> None"
    by (auto simp: makes_def)
  obtain v st1 where v: "vec_new A bs st = Returned (Inr v) st1" by (auto simp: vec_new_def Let_def)
  note fields = v [unfolded vec_new_Inr]
  show ?thesis
  proof (cases "owner_alloc A st1 = 0")
    case True
    then show ?thesis
      using False bs v vec_drop_new [OF bs(3) v] by (simp add: produce_def guard_def attempt_def own_def)
  next
    case owned: False
    then have "produce A st out m = Some (0, published A st out bs)"
      using False bs v fields by (simp add: produce_ok published_def Let_def)
    then show ?thesis using bs(1) owned fields by (auto simp: published_owner_def)
  qed
qed

lemma encode_makes:
  assumes "load (ram st) sp sn = Some source" "load (ram st) tp tn = Some target"
    and "\<And>patch. file_encode mem N H source target = Inr patch \<Longrightarrow> storage_fresh A st (length patch)"
  shows "makes A st (\<lambda>patch. \<exists>source target. load (ram st) sp sn = Some source \<and> load (ram st) tp tn = Some target
        \<and> file_encode mem N H source target = Inr patch \<and> (maximum = 0 \<or> length patch \<le> maximum))
     (attempt (call (map_err from_file (file_encode mem N H source target))) (\<lambda>bs.
        attempt (vec_new A bs) (\<lambda>v st.
        if maximum \<noteq> 0 \<and> vec_len v > maximum then Returned (Inl Limit) (vec_drop v st)
        else Returned (Inr v) st)) st)"
proof (cases "file_encode mem N H source target")
  case (Inr patch)
  obtain v st1 where v: "vec_new A patch st = Returned (Inr v) st1" by (auto simp: vec_new_def Let_def)
  then have "vec_drop v st1 = st" "vec_len v = length patch"
    using assms(3) [OF Inr] vec_drop_new by (auto simp: vec_new_Inr)
  then show ?thesis using assms(1,2) v Inr by (auto simp: attempt_def call_def makes_def not_less)
qed (simp add: attempt_def call_def makes_def)

lemma apply_makes:
  assumes "load (ram st) sp sn = Some source" "load (ram st) tp tn = Some patch"
  shows "makes A st (\<lambda>output. \<exists>source patch. load (ram st) sp sn = Some source \<and> load (ram st) tp tn = Some patch
        \<and> file_apply mem N H source patch maximum = Inr output)
     (attempt (call (map_err from_file (file_apply mem N H source patch maximum))) (vec_new A) st)"
  using assms by (cases "file_apply mem N H source patch maximum") (auto simp: attempt_def call_def makes_def)

lemma file_apply_length: "file_apply mem N H source patch maximum = Inr output \<Longrightarrow> length output < 2 ^ 63"
  by (drule file_apply_Inr) (auto dest!: decode_Inr)

lemma omit_parse_call:
  assumes "readable st p n" and "bits = 0 \<or> masks st bits \<noteq> None"
  shows "\<exists>code st'. difz_metadata_omit_parse st p n bits = Some (code, st')
      \<and> (if code = 0
         then \<exists>text omit. load (ram st) p n = Some text \<and> omit_parse text = Inr omit
           \<and> st' = st\<lparr>masks := (masks st)(bits \<mapsto> omit)\<rparr>
         else st' = st)"
proof (cases "bits = 0")
  case False
  from input_cases [OF assms(1)] show ?thesis
  proof (elim disjE exE conjE)
    fix cs
    assume "input p n st = Returned (Inr cs) st" "load (ram st) p n = Some cs"
    then show ?thesis using assms(2) False
      by (cases "omit_parse cs")
        (auto simp: difz_metadata_omit_parse_def guard_def attempt_def call_def write_mask_def)
  qed (simp add: difz_metadata_omit_parse_def guard_def attempt_def False)
qed (simp add: difz_metadata_omit_parse_def)

lemma produce_publishes_last:
  assumes "produce A st out m = Some (code, st')" "code \<noteq> 0" "out \<noteq> 0"
  shows "\<exists>st1. (m st = Panicked st1 \<and> code = - 7 \<or> (\<exists>r. m st = Returned r st1))
    \<and> slots st' = slots st1 \<and> buffers st' = buffers st1"
  using assms
  by (auto simp: produce_def guard_Some attempt_def own_def write_slot_def vec_drop_def Let_def
      split: outcome.splits sum.splits if_splits)

section \<open>Properties of the C boundary\<close>

text \<open>C35. The contract of the exported calls. Let every input region be live (or refused, or empty), the
  output slots null or writable, the storage of new vectors fresh, and a patch shorter than \<open>2 ^ 63\<close>
  bytes, as every vector is. Then \<open>difz_file_encode\<close> and \<open>difz_file_apply\<close> return a status and touch no
  memory outside what the contract grants. Status zero means that the file operation succeeded on the
  bytes of the two regions, and the only changes are a new buffer with its bytes and the output slot
  that names its owner, which is not null. On every other status the memory, the slot and the buffers
  are as before: also when the patch exceeds the caller's limit, and when there is no memory for the
  owner, after the vector was made. \<open>difz_metadata_omit_parse\<close> writes the mask when the text parses and
  nothing otherwise. Whatever the closure of \<open>produce\<close> does, panics included, the output slot and the
  buffers of a call that fails are as the closure left them: publication is the last step.\<close>

theorem c_call_contract:
  assumes "readable st sp sn" "readable st tp tn" and "out = 0 \<or> slots st out \<noteq> None"
    and "bits = 0 \<or> masks st bits \<noteq> None"
    and fresh: "\<forall>n<2 ^ 63. storage_fresh A st n"
    and size: "\<forall>s t patch. file_encode mem N H s t = Inr patch \<longrightarrow> in_memory patch"
  shows "(\<exists>code st'. difz_file_encode mem N H A st sp sn tp tn maximum out = Some (code, st')
      \<and> (if code = 0
         then \<exists>patch. (\<exists>source target. load (ram st) sp sn = Some source \<and> load (ram st) tp tn = Some target
             \<and> file_encode mem N H source target = Inr patch \<and> (maximum = 0 \<or> length patch \<le> maximum))
           \<and> published_owner A st patch \<noteq> 0 \<and> st' = published A st out patch
         else st' = st))
    \<and> (\<exists>code st'. difz_file_apply mem N H A st sp sn tp tn maximum out = Some (code, st')
      \<and> (if code = 0
         then \<exists>output. (\<exists>source patch. load (ram st) sp sn = Some source \<and> load (ram st) tp tn = Some patch
             \<and> file_apply mem N H source patch maximum = Inr output)
           \<and> published_owner A st output \<noteq> 0 \<and> st' = published A st out output
         else st' = st))
    \<and> (\<exists>code st'. difz_metadata_omit_parse st sp sn bits = Some (code, st')
      \<and> (if code = 0
         then \<exists>text omit. load (ram st) sp sn = Some text \<and> omit_parse text = Inr omit
           \<and> st' = st\<lparr>masks := (masks st)(bits \<mapsto> omit)\<rparr>
         else st' = st))
    \<and> (produce A st out m = Some (code, st') \<longrightarrow> code \<noteq> 0 \<longrightarrow> out \<noteq> 0 \<longrightarrow>
        (\<exists>st1. (m st = Panicked st1 \<and> code = - 7 \<or> (\<exists>r. m st = Returned r st1))
          \<and> slots st' = slots st1 \<and> buffers st' = buffers st1))"
proof (intro conjI)
  show "\<exists>code st'. difz_file_encode mem N H A st sp sn tp tn maximum out = Some (code, st')
      \<and> (if code = 0
         then \<exists>patch. (\<exists>source target. load (ram st) sp sn = Some source \<and> load (ram st) tp tn = Some target
             \<and> file_encode mem N H source target = Inr patch \<and> (maximum = 0 \<or> length patch \<le> maximum))
           \<and> published_owner A st patch \<noteq> 0 \<and> st' = published A st out patch
         else st' = st)"
    unfolding difz_file_encode_def using assms(1-3) size fresh
    by (intro produce_contract makes_input encode_makes) (auto simp: in_memory_def)
next
  show "\<exists>code st'. difz_file_apply mem N H A st sp sn tp tn maximum out = Some (code, st')
      \<and> (if code = 0
         then \<exists>output. (\<exists>source patch. load (ram st) sp sn = Some source \<and> load (ram st) tp tn = Some patch
             \<and> file_apply mem N H source patch maximum = Inr output)
           \<and> published_owner A st output \<noteq> 0 \<and> st' = published A st out output
         else st' = st)"
    unfolding difz_file_apply_def using assms(1-3) fresh
    by (intro produce_contract makes_input apply_makes) (auto dest: file_apply_length)
qed (use assms omit_parse_call produce_publishes_last in blast)+

text \<open>A memory with a source at 16, a target at 32 and two output slots, and an allocator for it.\<close>

definition sample_heap :: c_heap where
  "sample_heap = \<lparr>vec_alloc = (\<lambda>st n. if ram st 1024 = None then 1024 else 4096),
     owner_alloc = (\<lambda>st. if buffers st 8 = None then 8 else 9)\<rparr>"

definition sample_memory :: cmem where
  "sample_memory = \<lparr>ram = store (store Map.empty 16 [1, 2, 3]) 32 [9, 2], buffers = Map.empty,
     slots = [64 \<mapsto> 0, 72 \<mapsto> 0], masks = Map.empty\<rparr>"

lemma sample_heap_simps:
  "vec_alloc sample_heap st n = (if ram st 1024 = None then 1024 else 4096)"
  "owner_alloc sample_heap st = (if buffers st 8 = None then 8 else 9)"
  by (simp_all add: sample_heap_def)

lemma sample_loads:
  "load (ram sample_memory) 16 3 = Some [1, 2, 3]" "load (ram sample_memory) 32 2 = Some [9, 2]"
  by code_simp+

lemma sample_storage_fresh: "\<forall>n<2 ^ 63. storage_fresh sample_heap sample_memory n"
proof (intro allI impI)
  fix n :: nat
  assume n: "n < 2 ^ 63"
  have dom: "dom (ram sample_memory) = {16, 17, 18, 32, 33}" by (auto simp: sample_memory_def)
  have "1024 \<le> unat (1024 + of_nat i :: u64)" if "i < n" for i
    using that n by (simp add: unat_word_ariths unat_of_nat)
  then have "q \<notin> region 1024 n" if "unat q < 1024" for q
    using that by (fastforce simp: region_def)
  moreover have "vec_alloc sample_heap sample_memory n = 1024"
    by (simp add: sample_heap_simps) (simp add: sample_memory_def)
  ultimately show "storage_fresh sample_heap sample_memory n" unfolding storage_fresh_def dom by auto
qed

lemma sample_patch_fits:
  "\<forall>s t patch. file_encode mem stored_native padded_hash s t = Inr patch \<longrightarrow> in_memory patch"
proof (intro allI impI)
  fix s t patch
  assume "file_encode mem stored_native padded_hash s t = Inr patch"
  from file_encode_Inr [OF this] obtain c cap status dst where
    size: "unat (as_u64 (length t)) \<le> 2 ^ 31" and z: "ZSTD_compress2 stored_native c cap t = (status, dst)"
      "\<not> ZSTD_isError stored_native status"
    and patch: "patch = header_encode \<lparr>source_hash = padded_hash s, target_hash = padded_hash t,
           source_len = as_u64 (length s), target_len = as_u64 (length t)\<rparr> @ take (unat status) dst" by blast
  have "status = as_u64 (length t)" using z by (auto simp: stored_native_def split: if_splits)
  moreover have "length (header_encode \<lparr>source_hash = padded_hash s, target_hash = padded_hash t,
           source_len = as_u64 (length s), target_len = as_u64 (length t)\<rparr>) = 85"
    using padded_hash_width by (simp add: header_encode_length header_typed_def hash_width_def)
  ultimately show "in_memory patch" using size by (simp add: patch in_memory_def)
qed

text \<open>The patch has 87 bytes; the caller allows 5.\<close>

theorem c_call_contract_witness:
  "difz_file_encode (\<lambda>_. True) stored_native padded_hash sample_heap sample_memory 16 3 32 2 5 64
    = Some (- 4, sample_memory)"
proof -
  let ?r = "difz_file_encode (\<lambda>_. True) stored_native padded_hash sample_heap sample_memory 16 3 32 2 5 64"
  have "readable sample_memory 16 3" "readable sample_memory 32 2" "slots sample_memory 64 \<noteq> None"
    using sample_loads by (simp_all add: readable_def) (simp add: sample_memory_def)
  from c_call_contract [where maximum = 5 and mem = "\<lambda>_. True", OF this(1,2) disjI2 disjI1,
      OF this(3) refl sample_storage_fresh sample_patch_fits, THEN conjunct1]
  obtain code st' where "?r = Some (code, st')" and "code \<noteq> 0 \<Longrightarrow> st' = sample_memory" by auto
  moreover have "map_option fst ?r = Some (- 4)" by code_simp
  ultimately show ?thesis by auto
qed

text \<open>C34. A patch travels through the C boundary. Let the codec encode the target against the source,
  both live in memory, and let the allocator hand out fresh storage. Then \<open>difz_file_encode\<close> returns
  zero and a handle whose data and length describe the patch; \<open>difz_file_apply\<close> on the same source and
  that data returns zero and a handle whose data is the target; and freeing the two handles leaves the
  bytes and the buffers as they were before the first call, so nothing leaks and nothing of the
  caller's memory is changed.\<close>

theorem c_roundtrip:
  assumes codec: "zstd_prefix_frames N" "decoder_for N source d" "hash_width H" "\<forall>n. mem' n"
    and patch: "file_encode mem N H source target = Inr patch"
    and size: "in_memory source" "in_memory target" and null: "sp \<noteq> 0" "tp \<noteq> 0"
    and live: "load (ram st) sp (length source) = Some source" "load (ram st) tp (length target) = Some target"
    and slot: "out \<noteq> 0" "slots st out \<noteq> None" "out' \<noteq> 0" "slots st out' \<noteq> None"
    and fresh: "fresh_for A st patch" "fresh_for A (published A st out patch) target"
  shows "\<exists>st1 h data st2 h' data' st3 st4.
      difz_file_encode mem N H A st sp (length source) tp (length target) 0 out = Some (0, st1)
    \<and> slots st1 out = Some h \<and> difz_buffer_data st1 h = Some data
    \<and> difz_buffer_len st1 h = Some (length patch) \<and> load (ram st1) data (length patch) = Some patch
    \<and> difz_file_apply mem' N H A st1 sp (length source) data (length patch) 0 out' = Some (0, st2)
    \<and> slots st2 out' = Some h' \<and> difz_buffer_data st2 h' = Some data'
    \<and> difz_buffer_len st2 h' = Some (length target) \<and> load (ram st2) data' (length target) = Some target
    \<and> difz_buffer_free st2 h' = Some st3 \<and> difz_buffer_free st3 h = Some st4
    \<and> ram st4 = ram st \<and> buffers st4 = buffers st"
proof -
  let ?st1 = "published A st out patch" and ?h = "published_owner A st patch"
  let ?st2 = "published A ?st1 out' target" and ?h' = "published_owner A ?st1 target"
  let ?p = "vec_alloc A st (length patch)"
  let ?data' = "if target = [] then 0 else vec_alloc A ?st1 (length target)"
  let ?st3 = "?st2\<lparr>ram := ram ?st1, buffers := buffers ?st1\<rparr>"
  let ?st4 = "?st3\<lparr>ram := ram st, buffers := buffers st\<rparr>"
  have nonempty: "patch \<noteq> []" using file_encode_Inr [OF patch] by (auto simp: header_encode_def MAGIC_def ascii_def)
  have owner: "?h \<noteq> 0" "?h' \<noteq> 0" using fresh by (auto simp: fresh_for_def published_owner_def)
  have enc: "difz_file_encode mem N H A st sp (length source) tp (length target) 0 out = Some (0, ?st1)"
    unfolding file_encode_call using size null live slot patch owner by (auto simp: in_memory_def)
  have apply_ok: "file_apply mem' N H source patch 0 = Inr target"
    using codec size patch by (intro file_roundtrip) auto
  have slot': "slots ?st1 out' \<noteq> None" using slot by (simp add: published_fields)
  have "difz_file_apply mem' N H A ?st1 sp (length source) ?p (length patch) 0 out' = Some (0, ?st2)"
    unfolding file_apply_call
    using size null slot slot' owner apply_ok published_keeps [OF fresh(1) live(1)]
      published_handle(3) [OF fresh(1)] fresh(1) by (auto simp: in_memory_def fresh_for_def)
  moreover have "difz_buffer_free ?st2 ?h' = Some ?st3"
    by (rule published_free [OF fresh(2)]) simp_all
  moreover have "difz_buffer_free ?st3 ?h = Some ?st4"
    by (rule published_free [OF fresh(1)]) simp_all
  moreover have "load (ram ?st2) ?data' (length target) = Some target"
    using published_handle(3) [OF fresh(2)] by simp
  moreover have "slots ?st1 out = Some ?h" "slots ?st2 out' = Some ?h'" by (simp_all add: published_fields(2))
  moreover have "ram ?st4 = ram st" "buffers ?st4 = buffers st" by simp_all
  moreover note enc published_handle(1) [OF fresh(1)] published_handle(3) [OF fresh(1)]
    published_handle(1,2) [OF fresh(2)]
  moreover have "difz_buffer_data ?st1 ?h = Some ?p" using published_handle(2) [OF fresh(1)] nonempty by simp
  ultimately show ?thesis by blast
qed

theorem c_roundtrip_witness:
  "\<exists>st1 h data st2 h' data' st3 st4.
      difz_file_encode (\<lambda>_. True) stored_native padded_hash sample_heap sample_memory 16 3 32 2 0 64 = Some (0, st1)
    \<and> slots st1 64 = Some h \<and> difz_buffer_data st1 h = Some data \<and> difz_buffer_len st1 h = Some 87
    \<and> difz_file_apply (\<lambda>_. True) stored_native padded_hash sample_heap st1 16 3 data 87 0 72 = Some (0, st2)
    \<and> slots st2 72 = Some h' \<and> difz_buffer_data st2 h' = Some data' \<and> load (ram st2) data' 2 = Some [9, 2]
    \<and> difz_buffer_free st2 h' = Some st3 \<and> difz_buffer_free st3 h = Some st4
    \<and> ram st4 = ram sample_memory"
proof -
  define patch where "patch = header_encode \<lparr>source_hash = padded_hash [1, 2, 3], target_hash = padded_hash [9, 2],
        source_len = 3, target_len = 2\<rparr> @ [9, 2]"
  have len: "length patch = 87"
    unfolding patch_def using padded_hash_width
    by (simp add: header_encode_length header_typed_def hash_width_def)
  have enc: "file_encode (\<lambda>_. True) stored_native padded_hash [1, 2, 3] [9, 2] = Inr patch"
    unfolding patch_def by code_simp
  have dom: "dom (ram sample_memory) = {16, 17, 18, 32, 33}" by (auto simp: sample_memory_def)
  have r1: "region 1024 87 \<inter> dom (ram sample_memory) = {}" unfolding dom region_def by code_simp
  have f1: "fresh_for sample_heap sample_memory patch"
    using r1 len by (simp add: fresh_for_def in_memory_def sample_heap_simps) (simp add: sample_memory_def)
  let ?st1 = "published sample_heap sample_memory 64 patch"
  have at: "load (ram ?st1) 1024 87 = Some patch" "buffers ?st1 = [8 \<mapsto> \<lparr>vec_ptr = 1024, vec_len = 87\<rparr>]"
    using published_handle(3) [OF f1, of 64] r1 len
    by (simp_all add: published_def sample_heap_simps Let_def) (simp_all add: sample_memory_def)
  then have "ram ?st1 1024 \<noteq> None" by (auto simp: eval_nat_numeral split: option.splits)
  moreover have "region 4096 (Suc (Suc 0)) \<inter> dom (ram ?st1) = {}"
  proof -
    have "region 4096 (Suc (Suc 0)) \<inter> region 1024 87 = {}" unfolding region_def by code_simp
    moreover have "region 4096 (Suc (Suc 0)) \<inter> dom (ram sample_memory) = {}" unfolding dom region_def by code_simp
    moreover have "ram ?st1 = store (ram sample_memory) 1024 patch"
      by (simp add: published_fields sample_heap_simps) (simp add: sample_memory_def)
    ultimately show ?thesis using len by (simp add: dom_store Int_Un_distrib)
  qed
  ultimately have f2: "fresh_for sample_heap ?st1 [9, 2]"
    using at(2) by (auto simp: fresh_for_def in_memory_def sample_heap_simps)
  have "slots sample_memory 64 \<noteq> None" "slots sample_memory 72 \<noteq> None" by (simp_all add: sample_memory_def)
  moreover have "load (ram sample_memory) 16 (length [1, 2, 3 :: u8]) = Some [1, 2, 3]"
    "load (ram sample_memory) 32 (length [9, 2 :: u8]) = Some [9, 2]" by code_simp+
  moreover have "in_memory [1, 2, 3 :: u8]" "in_memory [9, 2 :: u8]" by (simp_all add: in_memory_def)
  moreover have n: "length [1, 2, 3 :: u8] = 3" "length [9, 2 :: u8] = 2" by simp_all
  ultimately show ?thesis
    using c_roundtrip [OF stored_native_frames stored_native_decoder padded_hash_width _ enc _ _ _ _ _ _ _ _ _ _ f1 f2,
      of "\<lambda>_. True" 16 32 72, unfolded n len] by (simp only: n len) fastforce
qed

end
