(* ===== verification/Rust_Loop.thy ===== *)
theory Rust_Loop
  imports Main "HOL-Library.Product_Lexorder"
begin

text \<open>
  Rust's \<open>loop\<close> whose body goes round again (\<open>Inl\<close> with the next state) or returns (\<open>Inr\<close>). A loop
  that never returns is \<open>None\<close>. Two rules carry the proofs: an invariant for what the loop returns, and
  an invariant with a decreasing measure for the fact that it returns.
\<close>

partial_function (option) rust_loop :: "('s \<Rightarrow> 's + 'a) \<Rightarrow> 's \<Rightarrow> 'a option" where
  "rust_loop body s = (case body s of Inl s' \<Rightarrow> rust_loop body s' | Inr y \<Rightarrow> Some y)"

lemma rust_loop_step: "body s = Inl s' \<Longrightarrow> rust_loop body s = rust_loop body s'"
  by (subst rust_loop.simps) simp

lemma rust_loop_return: "body s = Inr y \<Longrightarrow> rust_loop body s = Some y"
  by (subst rust_loop.simps) simp

lemma rust_loop_invariant:
  assumes "rust_loop body s = Some y" and "I s"
    and step: "\<And>s s'. I s \<Longrightarrow> body s = Inl s' \<Longrightarrow> I s'" and return: "\<And>s y. I s \<Longrightarrow> body s = Inr y \<Longrightarrow> Q y"
  shows "Q y"
proof -
  have "(\<forall>s s'. I s \<longrightarrow> body s = Inl s' \<longrightarrow> I s') \<longrightarrow> (\<forall>s y. I s \<longrightarrow> body s = Inr y \<longrightarrow> Q y) \<longrightarrow> I s \<longrightarrow> Q y"
    by (rule rust_loop.raw_induct [OF _ assms(1)]) (auto split: sum.splits)
  then show ?thesis using assms(2) step return by blast
qed

lemma rust_loop_total:
  fixes m :: "'s \<Rightarrow> 'm::wellorder"
  assumes "I s" and "\<And>s s'. I s \<Longrightarrow> body s = Inl s' \<Longrightarrow> I s' \<and> m s' < m s"
    and "\<And>s y. I s \<Longrightarrow> body s = Inr y \<Longrightarrow> Q y"
  shows "\<exists>y. rust_loop body s = Some y \<and> Q y"
  using assms(1)
proof (induction "m s" arbitrary: s rule: less_induct)
  case less
  show ?case
  proof (cases "body s")
    case (Inl s')
    with less assms(2) [of s s'] show ?thesis by (simp add: rust_loop_step)
  next
    case (Inr y)
    with less.prems assms(3) show ?thesis by (simp add: rust_loop_return)
  qed
qed

end
