(* ===== verification/Platform_Files.thy ===== *)
theory Platform_Files
  imports Tree_Snapshot Rust_Loop
begin

text \<open>
  The filesystem layer of Linux and macOS: no-follow opens and bounded reads
  (\<open>rust/platform/src/lib.rs\<close>), entry inspection and symlink reads (\<open>entry.rs\<close>) and the bounded
  directory stream (\<open>names.rs\<close>). The operating system is the record \<open>kernel\<close>, one field per call the
  code makes, over an abstract world that every call may change; a negative result comes with the
  \<open>errno\<close> that \<open>last_os_error\<close> reads. Flags are sets of their symbolic names. Loops that the kernel
  controls are \<open>rust_loop\<close> over their body: \<open>None\<close> is a loop that never ends. Dropping a \<open>File\<close> or a
  directory stream closes it.
\<close>

section \<open>Errors\<close>

type_synonym errno = int

datatype io_kind = Interrupted | InvalidDataKind | OtherKind

datatype io_error = Os_Error errno | Io_Error io_kind string

definition EINTR :: errno where "EINTR = 4"

fun io_error_kind :: "io_error \<Rightarrow> io_kind" where
  "io_error_kind (Os_Error e) = (if e = EINTR then Interrupted else OtherKind)"
| "io_error_kind (Io_Error k m) = k"

fun raw_os_error :: "io_error \<Rightarrow> errno option" where
  "raw_os_error (Os_Error e) = Some e"
| "raw_os_error (Io_Error k m) = None"

datatype platform_error = Io io_error | InvalidBasename | InvalidAttributeName | WrongKind | OutOfMemory
  | LimitExceeded

definition invalid_data :: "string \<Rightarrow> platform_error" where
  "invalid_data message = Io (Io_Error InvalidDataKind message)"

section \<open>The operating system\<close>

type_synonym fd = int

datatype oflag = O_RDONLY | O_DIRECTORY | O_NOFOLLOW | O_CLOEXEC | O_NONBLOCK

datatype at_flag = AT_SYMLINK_NOFOLLOW | AT_NO_AUTOMOUNT | AT_EMPTY_PATH

datatype file_type = Is_Dir | Is_File | Is_Other

record statx_time =
  tv_sec :: u64
  tv_nsec :: u32

record statx =
  stx_mask :: u32
  stx_mode :: u16
  stx_size :: u64
  stx_ino :: u64
  stx_dev_major :: u32
  stx_dev_minor :: u32
  stx_mtime :: statx_time
  stx_btime :: statx_time

record mac_stat =
  mac_mode :: u16
  mac_size :: u64
  mac_dev :: u32
  mac_ino :: u64
  mac_mtime :: u64
  mac_mtime_nsec :: u64
  mac_birthtime :: u64
  mac_birthtime_nsec :: u64
  mac_flags :: u32

record ('w, 'd) kernel =
  sys_open :: "'w \<Rightarrow> bytes \<Rightarrow> oflag set \<Rightarrow> (io_error + fd) \<times> 'w"
  sys_openat :: "'w \<Rightarrow> fd \<Rightarrow> bytes \<Rightarrow> oflag set \<Rightarrow> fd \<times> errno \<times> 'w"
  sys_metadata :: "'w \<Rightarrow> fd \<Rightarrow> (io_error + file_type) \<times> 'w"
  sys_close :: "'w \<Rightarrow> fd \<Rightarrow> 'w"
  sys_read :: "fd \<Rightarrow> 'w \<Rightarrow> bytes \<Rightarrow> (io_error + usize) \<times> bytes \<times> 'w"
  sys_readlinkat :: "'w \<Rightarrow> fd \<Rightarrow> bytes \<Rightarrow> bytes \<Rightarrow> int \<times> errno \<times> bytes \<times> 'w"
  sys_statx :: "'w \<Rightarrow> fd \<Rightarrow> bytes \<Rightarrow> at_flag set \<Rightarrow> u32 \<Rightarrow> int \<times> errno \<times> statx \<times> 'w"
  sys_fstatat :: "'w \<Rightarrow> fd \<Rightarrow> bytes \<Rightarrow> at_flag set \<Rightarrow> int \<times> errno \<times> mac_stat \<times> 'w"
  sys_fstat :: "'w \<Rightarrow> fd \<Rightarrow> int \<times> errno \<times> mac_stat \<times> 'w"
  sys_makedev :: "u32 \<Rightarrow> u32 \<Rightarrow> u64"
  sys_fdopendir :: "'w \<Rightarrow> fd \<Rightarrow> 'd option \<times> errno \<times> 'w"
  sys_readdir :: "'d \<Rightarrow> 'w \<Rightarrow> bytes option \<times> errno \<times> 'w"
  sys_closedir :: "'w \<Rightarrow> 'd \<Rightarrow> 'w"

text \<open>A result beside the world it leaves, and the \<open>?\<close> operator on it.\<close>

type_synonym ('a, 'w) io = "(platform_error + 'a) \<times> 'w"

fun then_io :: "('a, 'w) io \<Rightarrow> ('a \<Rightarrow> 'w \<Rightarrow> ('b, 'w) io) \<Rightarrow> ('b, 'w) io" where
  "then_io (Inl e, w) f = (Inl e, w)"
| "then_io (Inr x, w) f = f x w"

section \<open>Opening and reading files\<close>

datatype child = Child_Directory | Child_RegularFile

definition basename :: "allocator \<Rightarrow> bytes \<Rightarrow> platform_error + bytes" where
  "basename mem name =
     and_then (map_err (\<lambda>_. InvalidBasename) (validate_path name)) (\<lambda>_.
     if slash \<in> set name then Inl InvalidBasename
     else and_then (reserve mem (length name + 1) OutOfMemory) (\<lambda>_. Inr (name @ [0])))"

definition directory_open :: "('w, 'd) kernel \<Rightarrow> 'w \<Rightarrow> bytes \<Rightarrow> (fd, 'w) io" where
  "directory_open K w path =
     (case sys_open K w path {O_RDONLY, O_DIRECTORY, O_NOFOLLOW, O_CLOEXEC} of
        (r, w) \<Rightarrow> (map_err Io r, w))"

text \<open>The opened descriptor is owned by a \<open>File\<close>, which closes it when the kind does not match.\<close>

definition open_child :: "allocator \<Rightarrow> ('w, 'd) kernel \<Rightarrow> 'w \<Rightarrow> fd \<Rightarrow> bytes \<Rightarrow> child \<Rightarrow> (fd, 'w) io" where
  "open_child mem K w dir name kind =
     (case basename mem name of
        Inl e \<Rightarrow> (Inl e, w)
      | Inr terminated \<Rightarrow>
          (let extra = (case kind of Child_Directory \<Rightarrow> O_DIRECTORY | Child_RegularFile \<Rightarrow> O_NONBLOCK) in
           case sys_openat K w dir terminated {O_RDONLY, O_CLOEXEC, O_NOFOLLOW, extra} of
             (fd, err, w) \<Rightarrow>
               if fd < 0 then (Inl (Io (Os_Error err)), w)
               else (case sys_metadata K w fd of
                   (Inl e, w) \<Rightarrow> (Inl (Io e), sys_close K w fd)
                 | (Inr t, w) \<Rightarrow>
                     let valid = (case kind of Child_Directory \<Rightarrow> t = Is_Dir | Child_RegularFile \<Rightarrow> t = Is_File) in
                     if \<not> valid then (Inl WrongKind, sys_close K w fd) else (Inr fd, w))))"

definition open_directory :: "allocator \<Rightarrow> ('w, 'd) kernel \<Rightarrow> 'w \<Rightarrow> fd \<Rightarrow> bytes \<Rightarrow> (fd, 'w) io" where
  "open_directory mem K w dir name = open_child mem K w dir name Child_Directory"

definition open_regular_file :: "allocator \<Rightarrow> ('w, 'd) kernel \<Rightarrow> 'w \<Rightarrow> fd \<Rightarrow> bytes \<Rightarrow> (fd, 'w) io" where
  "open_regular_file mem K w dir name = open_child mem K w dir name Child_RegularFile"

type_synonym 'r read_call = "'r \<Rightarrow> bytes \<Rightarrow> (io_error + usize) \<times> bytes \<times> 'r"

definition read_step ::
  "allocator \<Rightarrow> 'r read_call \<Rightarrow> usize \<Rightarrow> bytes \<times> bytes \<times> 'r \<Rightarrow> (bytes \<times> bytes \<times> 'r) + (bytes, 'r) io" where
  "read_step mem rd maximum = (\<lambda>(buf, bs, r).
     let remaining = maximum - length bs;
         request = min (min (remaining + 1) (2 ^ 64 - 1)) (length buf) in
     case rd r (take request buf) of (result, filled, r) \<Rightarrow>
       let buf = filled @ drop request buf in
       case result of
         Inl e \<Rightarrow> if io_error_kind e = Interrupted then Inl (buf, bs, r) else Inr (Inl (Io e), r)
       | Inr got \<Rightarrow>
           if got > request then Inr (Inl (invalid_data ''reader exceeded requested length''), r)
           else if got = 0 then Inr (Inr bs, r)
           else if got > remaining then Inr (Inl LimitExceeded, r)
           else if \<not> mem got then Inr (Inl OutOfMemory, r)
           else Inl (buf, bs @ take got buf, r))"

definition read_limited ::
  "allocator \<Rightarrow> 'r read_call \<Rightarrow> 'r \<Rightarrow> usize \<Rightarrow> (bytes, 'r) io option" where
  "read_limited mem rd r maximum = rust_loop (read_step mem rd maximum) (replicate 65536 0, [], r)"

definition read_file ::
  "allocator \<Rightarrow> ('w, 'd) kernel \<Rightarrow> 'w \<Rightarrow> fd \<Rightarrow> bytes \<Rightarrow> usize \<Rightarrow> (bytes, 'w) io option" where
  "read_file mem K w dir name maximum =
     (case open_regular_file mem K w dir name of
        (Inl e, w) \<Rightarrow> Some (Inl e, w)
      | (Inr fd, w) \<Rightarrow>
          map_option (\<lambda>(r, w). (r, sys_close K w fd)) (read_limited mem (sys_read K fd) w maximum))"

section \<open>Inspecting entries\<close>

datatype entry_kind = Kind_File | Kind_Directory | Kind_Symlink | Kind_Other

record identity =
  device :: u64
  inode :: u64

record entry_info =
  info_kind :: entry_kind
  info_mode :: mode
  info_length :: u64
  info_identity :: identity
  info_mtime :: time
  info_birth :: "time option"
  native_flags :: u32

definition stamp :: "u64 \<Rightarrow> u64 \<Rightarrow> platform_error + time" where
  "stamp s n =
     (if \<not> (0 \<le> sint n \<and> sint n < 1000000000) then Inl (invalid_data ''invalid native timestamp'')
      else Inr \<lparr>sec = s, nsec = ucast n\<rparr>)"

definition S_IFMT :: u32 where "S_IFMT = 0xF000"
definition S_IFREG :: u32 where "S_IFREG = 0x8000"
definition S_IFDIR :: u32 where "S_IFDIR = 0x4000"
definition S_IFLNK :: u32 where "S_IFLNK = 0xA000"

definition finish ::
  "u32 \<Rightarrow> u64 \<Rightarrow> identity \<Rightarrow> time \<Rightarrow> time option \<Rightarrow> u32 \<Rightarrow> platform_error + entry_info" where
  "finish mode len ident modified birth flags =
     (let format = mode AND S_IFMT;
          kind = (if format = S_IFREG then Kind_File else if format = S_IFDIR then Kind_Directory
                  else if format = S_IFLNK then Kind_Symlink else Kind_Other);
          bits = (if kind = Kind_Symlink then 0x1FF else ucast (mode AND 0x1FF)) in
      and_then (map_err (\<lambda>_. invalid_data ''invalid portable mode'') (mode_from_bits bits)) (\<lambda>mode.
      Inr \<lparr>info_kind = kind, info_mode = mode, info_length = len, info_identity = ident,
           info_mtime = modified, info_birth = birth, native_flags = flags\<rparr>))"

definition STATX_BTIME :: u32 where "STATX_BTIME = 0x800"
definition STATX_REQUIRED :: u32 where "STATX_REQUIRED = 0x1 OR 0x2 OR 0x100 OR 0x200 OR 0x40"

definition from_statx :: "('w, 'd) kernel \<Rightarrow> statx \<Rightarrow> platform_error + entry_info" where
  "from_statx K stat =
     (if stx_mask stat AND STATX_REQUIRED \<noteq> STATX_REQUIRED
      then Inl (invalid_data ''missing required native metadata'')
      else and_then
        (if stx_mask stat AND STATX_BTIME \<noteq> 0
         then and_then (stamp (tv_sec (stx_btime stat)) (ucast (tv_nsec (stx_btime stat)))) (\<lambda>t. Inr (Some t))
         else Inr None) (\<lambda>birth.
      and_then (stamp (tv_sec (stx_mtime stat)) (ucast (tv_nsec (stx_mtime stat)))) (\<lambda>modified.
      finish (ucast (stx_mode stat)) (stx_size stat)
        \<lparr>device = sys_makedev K (stx_dev_major stat) (stx_dev_minor stat), inode = stx_ino stat\<rparr>
        modified birth 0)))"

definition query :: "('w, 'd) kernel \<Rightarrow> 'w \<Rightarrow> fd \<Rightarrow> bytes option \<Rightarrow> (entry_info, 'w) io" where
  "query K w file name =
     (let (name, flags) = (case name of
          Some n \<Rightarrow> (n, {AT_SYMLINK_NOFOLLOW, AT_NO_AUTOMOUNT})
        | None \<Rightarrow> ([0], {AT_EMPTY_PATH})) in
      case sys_statx K w file name flags (STATX_REQUIRED OR STATX_BTIME) of
        (result, err, stat, w) \<Rightarrow>
          if result \<noteq> 0 then (Inl (Io (Os_Error err)), w) else (from_statx K stat, w))"

text \<open>The macOS query: \<open>st_size\<close> is signed, and \<open>st_dev\<close> is a signed 32-bit number widened to 64 bits.\<close>

definition query_macos :: "('w, 'd) kernel \<Rightarrow> 'w \<Rightarrow> fd \<Rightarrow> bytes option \<Rightarrow> (entry_info, 'w) io" where
  "query_macos K w file name =
     (case (case name of Some n \<Rightarrow> sys_fstatat K w file n {AT_SYMLINK_NOFOLLOW} | None \<Rightarrow> sys_fstat K w file) of
        (result, err, stat, w) \<Rightarrow>
          if result \<noteq> 0 then (Inl (Io (Os_Error err)), w)
          else
            (and_then (if sint (mac_size stat) < 0 then Inl (invalid_data ''negative entry length'')
                       else Inr (mac_size stat)) (\<lambda>len.
             and_then (stamp (mac_mtime stat) (mac_mtime_nsec stat)) (\<lambda>modified.
             and_then (stamp (mac_birthtime stat) (mac_birthtime_nsec stat)) (\<lambda>birth.
             finish (ucast (mac_mode stat)) len \<lparr>device = scast (mac_dev stat), inode = mac_ino stat\<rparr>
               modified (Some birth) (mac_flags stat)))), w))"

definition for_file :: "('w, 'd) kernel \<Rightarrow> 'w \<Rightarrow> fd \<Rightarrow> (entry_info, 'w) io" where
  "for_file K w file = query K w file None"

definition inspect_self :: "('w, 'd) kernel \<Rightarrow> 'w \<Rightarrow> fd \<Rightarrow> (entry_info, 'w) io" where
  "inspect_self K w dir = for_file K w dir"

text \<open>\<open>CStr::from_bytes_with_nul\<close> wants exactly one NUL, at the end.\<close>

definition inspect :: "allocator \<Rightarrow> ('w, 'd) kernel \<Rightarrow> 'w \<Rightarrow> fd \<Rightarrow> bytes \<Rightarrow> (entry_info, 'w) io" where
  "inspect mem K w dir name =
     (case basename mem name of
        Inl e \<Rightarrow> (Inl e, w)
      | Inr n \<Rightarrow> if last n \<noteq> 0 \<or> 0 \<in> set (butlast n) then (Inl InvalidBasename, w) else query K w dir (Some n))"

section \<open>Reading symlinks\<close>

text \<open>\<open>capacity.saturating_mul(2).min(ceiling)\<close>\<close>

definition grow :: "usize \<Rightarrow> usize \<Rightarrow> usize" where
  "grow ceiling capacity = min (min (2 * capacity) (2 ^ 64 - 1)) ceiling"

definition symlink_step ::
  "allocator \<Rightarrow> ('w, 'd) kernel \<Rightarrow> fd \<Rightarrow> bytes \<Rightarrow> usize \<Rightarrow> usize \<Rightarrow> usize \<times> 'w \<Rightarrow> usize \<times> 'w + (bytes, 'w) io" where
  "symlink_step mem K dir name maximum ceiling = (\<lambda>(capacity, w).
     if \<not> mem capacity then Inr (Inl OutOfMemory, w)
     else case sys_readlinkat K w dir name (replicate capacity 0) of (result, err, buf, w) \<Rightarrow>
       if result < 0 then Inr (Inl (Io (Os_Error err)), w)
       else let got = nat result in
         if got > capacity then Inr (Inl (invalid_data ''link reader exceeded capacity''), w)
         else if got > maximum then Inr (Inl LimitExceeded, w)
         else if got < capacity then Inr (Inr (take got buf), w)
         else Inl (grow ceiling capacity, w))"

definition read_symlink ::
  "allocator \<Rightarrow> ('w, 'd) kernel \<Rightarrow> 'w \<Rightarrow> fd \<Rightarrow> bytes \<Rightarrow> usize \<Rightarrow> (bytes, 'w) io option" where
  "read_symlink mem K w dir name maximum =
     (case basename mem name of
        Inl e \<Rightarrow> Some (Inl e, w)
      | Inr name \<Rightarrow>
          (case checked_add_usize maximum 1 of
             None \<Rightarrow> Some (Inl LimitExceeded, w)
           | Some ceiling \<Rightarrow> rust_loop (symlink_step mem K dir name maximum ceiling) (min 256 ceiling, w)))"

section \<open>The directory stream\<close>

record 'd names =
  stream :: 'd
  remaining :: usize
  maximum_name_bytes :: usize
  finished :: bool

definition directory_names ::
  "('w, 'd) kernel \<Rightarrow> 'w \<Rightarrow> fd \<Rightarrow> usize \<Rightarrow> usize \<Rightarrow> ('d names, 'w) io" where
  "directory_names K w dir maximum_entries maximum_bytes =
     (case sys_openat K w dir [dot, 0] {O_RDONLY, O_DIRECTORY, O_NOFOLLOW, O_CLOEXEC} of
        (fd, err, w) \<Rightarrow>
          if fd < 0 then (Inl (Io (Os_Error err)), w)
          else (case sys_fdopendir K w fd of
              (None, err, w) \<Rightarrow> (Inl (Io (Os_Error err)), sys_close K w fd)
            | (Some d, err, w) \<Rightarrow>
                (Inr \<lparr>stream = d, remaining = maximum_entries, maximum_name_bytes = maximum_bytes,
                      finished = False\<rparr>, w)))"

definition is_dot_name :: "bytes \<Rightarrow> bool" where
  "is_dot_name name \<longleftrightarrow> name = [dot] \<or> name = [dot, dot]"

type_synonym ('d, 'w) next_result = "(platform_error + bytes) option \<times> 'd names \<times> 'w"

definition names_step :: "allocator \<Rightarrow> ('w, 'd) kernel \<Rightarrow> 'd names \<Rightarrow> 'w \<Rightarrow> 'w + ('d, 'w) next_result" where
  "names_step mem K s w =
     (case sys_readdir K (stream s) w of
        (None, err, w) \<Rightarrow> Inr (if err = 0 then None else Some (Inl (Io (Os_Error err))), s, w)
      | (Some name, err, w) \<Rightarrow>
          if is_dot_name name then Inl w
          else if remaining s = 0 \<or> length name > maximum_name_bytes s then Inr (Some (Inl LimitExceeded), s, w)
          else if \<not> mem (length name) then Inr (Some (Inl OutOfMemory), s, w)
          else Inr (Some (Inr name), s\<lparr>remaining := remaining s - 1, finished := False\<rparr>, w))"

definition names_next ::
  "allocator \<Rightarrow> ('w, 'd) kernel \<Rightarrow> 'd names \<Rightarrow> 'w \<Rightarrow> ('d, 'w) next_result option" where
  "names_next mem K s w =
     (if finished s then Some (None, s, w) else rust_loop (names_step mem K (s\<lparr>finished := True\<rparr>)) w)"

definition names_drop :: "('w, 'd) kernel \<Rightarrow> 'd names \<Rightarrow> 'w \<Rightarrow> 'w" where
  "names_drop K s w = sys_closedir K w (stream s)"

section \<open>Lemmas on bounded reads\<close>

text \<open>What \<open>Read\<close> documents for a source of finite content: a read stores a nonempty prefix of the rest
  and reports its length, zero only at the end or for an empty slice, and is interrupted only
  finitely often.\<close>

definition reads :: "'r read_call \<Rightarrow> ('r \<Rightarrow> bytes) \<Rightarrow> ('r \<Rightarrow> nat) \<Rightarrow> bool" where
  "reads rd rest patience \<longleftrightarrow> (\<forall>r buf. length (fst (snd (rd r buf))) = length buf \<and>
     (case rd r buf of
        (Inl e, filled, r') \<Rightarrow> io_error_kind e = Interrupted \<and> rest r' = rest r \<and> patience r' < patience r
      | (Inr n, filled, r') \<Rightarrow> n \<le> length buf \<and> n \<le> length (rest r) \<and> take n filled = take n (rest r)
          \<and> rest r' = drop n (rest r) \<and> (n = 0 \<longrightarrow> buf = [] \<or> rest r = [])))"

lemma reads_interrupted:
  assumes "reads rd rest patience" and "rd r buf = (Inl e, filled, r')"
  shows "io_error_kind e = Interrupted \<and> length filled = length buf \<and> rest r' = rest r \<and> patience r' < patience r"
  using assms by (auto simp: reads_def dest!: spec [of _ r] spec [of _ buf])

lemma reads_some:
  assumes "reads rd rest patience" and "rd r buf = (Inr n, filled, r')"
  shows "n \<le> length buf \<and> n \<le> length (rest r) \<and> length filled = length buf
    \<and> take n filled = take n (rest r) \<and> rest r' = drop n (rest r) \<and> (n = 0 \<longrightarrow> buf = [] \<or> rest r = [])"
  using assms(1) unfolding reads_def by (elim allE [of _ r] allE [of _ buf]) (simp add: assms(2))

text \<open>One round of the loop on a contract-abiding reader: it ends with the answer, or goes round again
  with the answer unchanged and less to read or fewer interruptions to come.\<close>

definition read_answer :: "usize \<Rightarrow> bytes \<Rightarrow> platform_error + bytes" where
  "read_answer maximum content = (if length content \<le> maximum then Inr content else Inl LimitExceeded)"

lemma read_step_content:
  assumes R: "reads rd rest patience" and mem: "\<forall>n. mem n"
    and inv: "length bs \<le> maximum" "buf \<noteq> []"
  shows "case read_step mem rd maximum (buf, bs, r) of
      Inl (buf', bs', r') \<Rightarrow> length bs' \<le> maximum \<and> buf' \<noteq> [] \<and> bs' @ rest r' = bs @ rest r
        \<and> (length (rest r'), patience r') < (length (rest r), patience r)
    | Inr (result, r') \<Rightarrow> result = read_answer maximum (bs @ rest r)"
proof -
  define left where "left = maximum - length bs"
  define request where "request = min (min (left + 1) (2 ^ 64 - 1)) (length buf)"
  have request: "0 < request" "request \<le> left + 1" "request \<le> length buf"
    using inv by (auto simp: request_def)
  obtain result filled r' where rd: "rd r (take request buf) = (result, filled, r')"
    by (cases "rd r (take request buf)") auto
  note step = read_step_def [of mem rd maximum, THEN fun_cong, of "(buf, bs, r)", unfolded prod.case,
      folded left_def, unfolded Let_def, folded request_def, unfolded rd]
  show ?thesis
  proof (cases result)
    case (Inl e)
    with reads_interrupted [OF R rd [unfolded Inl]] request inv show ?thesis
      by (auto simp: step less_prod_def)
  next
    case (Inr n)
    with reads_some [OF R rd [unfolded Inr]] request inv mem show ?thesis
      by (auto simp: step less_prod_def left_def read_answer_def)
  qed
qed

lemma read_limited_answer:
  assumes "reads rd rest patience" and "\<forall>n. mem n"
  shows "\<exists>r'. read_limited mem rd r maximum = Some (read_answer maximum (rest r), r')"
proof -
  let ?I = "\<lambda>(buf, bs, r'). length bs \<le> maximum \<and> buf \<noteq> [] \<and> bs @ rest r' = rest r"
  have "\<exists>y. rust_loop (read_step mem rd maximum) (replicate 65536 0, [], r) = Some y
      \<and> fst y = read_answer maximum (rest r)"
  proof (rule rust_loop_total [of ?I _ _ "\<lambda>(buf, bs, r'). (length (rest r'), patience r')"])
    show "?I (replicate 65536 0, [], r)" by simp
  next
    fix s s' assume "?I s" and "read_step mem rd maximum s = Inl s'"
    moreover obtain buf bs r1 where "s = (buf, bs, r1)" by (metis prod_cases3)
    ultimately show "?I s' \<and> (case s' of (buf, bs, r') \<Rightarrow> (length (rest r'), patience r'))
        < (case s of (buf, bs, r') \<Rightarrow> (length (rest r'), patience r'))"
      using read_step_content [OF assms, of bs maximum buf r1] by (auto split: prod.splits)
  next
    fix s y assume "?I s" and "read_step mem rd maximum s = Inr y"
    moreover obtain buf bs r1 where "s = (buf, bs, r1)" by (metis prod_cases3)
    ultimately show "fst y = read_answer maximum (rest r)"
      using read_step_content [OF assms, of bs maximum buf r1] by (auto split: prod.splits)
  qed
  then show ?thesis unfolding read_limited_def by (metis prod.collapse)
qed

text \<open>Against an arbitrary reader: the result is bounded, and an invariant of the reader is kept.\<close>

lemma read_step_keeps:
  assumes "length bs \<le> maximum" and "P r" and P: "\<And>r buf. P r \<Longrightarrow> P (snd (snd (rd r buf)))"
  shows "case read_step mem rd maximum (buf, bs, r) of
      Inl (buf', bs', r') \<Rightarrow> length bs' \<le> maximum \<and> P r'
    | Inr (result, r') \<Rightarrow> P r' \<and> (case result of Inl e \<Rightarrow> True | Inr out \<Rightarrow> length out \<le> maximum)"
proof -
  define left where "left = maximum - length bs"
  define request where "request = min (min (left + 1) (2 ^ 64 - 1)) (length buf)"
  obtain result filled r' where rd: "rd r (take request buf) = (result, filled, r')"
    by (cases "rd r (take request buf)") auto
  have "P r'" using P [OF assms(2), of "take request buf"] by (simp only: rd snd_conv)
  moreover have "length (bs @ take n xs) \<le> maximum" if "n \<le> left" for n and xs :: bytes
    using that assms(1) by (auto simp: left_def)
  ultimately show ?thesis using assms(1)
    unfolding read_step_def prod.case Let_def left_def [symmetric] request_def [symmetric] rd
    by (cases result) (auto simp del: take_append length_append)
qed

lemma read_limited_keeps:
  assumes "read_limited mem rd r maximum = Some (result, r')"
    and "P r" and P: "\<And>r buf. P r \<Longrightarrow> P (snd (snd (rd r buf)))"
  shows "P r' \<and> (case result of Inl e \<Rightarrow> True | Inr bs \<Rightarrow> length bs \<le> maximum)"
proof -
  let ?I = "\<lambda>(buf :: bytes, bs, r). length bs \<le> maximum \<and> P r"
  let ?Q = "\<lambda>(result, r'). P r' \<and> (case result of Inl e \<Rightarrow> True | Inr bs \<Rightarrow> length bs \<le> maximum)"
  have keeps: "case read_step mem rd maximum s of Inl s' \<Rightarrow> ?I s' | Inr y \<Rightarrow> ?Q y" if "?I s" for s
    using that read_step_keeps [of _ maximum P _ rd mem, OF _ _ P] by (cases s) (fastforce split: sum.splits)
  have "?Q (result, r')"
  proof (rule rust_loop_invariant [OF assms(1) [unfolded read_limited_def], of ?I])
    show "?I (replicate 65536 0, [], r)" using assms(2) by simp
  next
    fix s s' assume "?I s" "read_step mem rd maximum s = Inl s'"
    then show "?I s'" using keeps [of s] by simp
  next
    fix s y assume "?I s" "read_step mem rd maximum s = Inr y"
    then show "?Q y" using keeps [of s] by simp
  qed
  then show ?thesis by simp
qed

section \<open>Lemmas on entry information\<close>

text \<open>The types of the portable description: nine permission bits, all of them for a symlink, and stamps
  with less than a second of nanoseconds. A failure never comes from the mode, whose bits are masked.\<close>

definition info_typed :: "entry_info \<Rightarrow> bool" where
  "info_typed info \<longleftrightarrow> info_mode info \<le> 0x1FF \<and> (info_kind info = Kind_Symlink \<longrightarrow> info_mode info = 0x1FF)
     \<and> valid_time (info_mtime info) \<and> (case info_birth info of None \<Rightarrow> True | Some t \<Rightarrow> valid_time t)"

definition result_typed :: "platform_error + entry_info \<Rightarrow> bool" where
  "result_typed r = (case r of Inl e \<Rightarrow> e \<noteq> invalid_data ''invalid portable mode'' | Inr info \<Rightarrow> info_typed info)"

lemma result_typed_simps [simp]:
  "result_typed (Inl (invalid_data m)) \<longleftrightarrow> m \<noteq> ''invalid portable mode''"
  "result_typed (Inl (Io (Os_Error err)))" "result_typed (Inl InvalidBasename)" "result_typed (Inl OutOfMemory)"
  "result_typed (Inr info) \<longleftrightarrow> info_typed info"
  by (auto simp: result_typed_def invalid_data_def)

lemma stamp_error: "stamp s n = Inl e \<Longrightarrow> e = invalid_data ''invalid native timestamp''"
  by (auto simp: stamp_def split: if_splits)

lemma stamp_valid: "stamp s n = Inr t \<Longrightarrow> valid_time t \<and> sec t = s"
proof -
  assume "stamp s n = Inr t"
  then have n: "0 \<le> sint n" "sint n < 1000000000" and t: "t = \<lparr>sec = s, nsec = ucast n\<rparr>"
    by (auto simp: stamp_def split: if_splits)
  then have "uint n < 1000000000" by (simp add: uint_sint take_bit_int_eq_self)
  then have "unat n < 1000000000" using nat_uint_eq [of n] by linarith
  then have "unat (ucast n :: u32) < 1000000000"
    by (metis le_less_trans mod_less_eq_dividend take_bit_eq_mod unsigned_ucast_eq)
  then show ?thesis by (simp add: t valid_time_def word_less_nat_alt)
qed

lemma masked_mode:
  "ucast ((mode :: u32) AND 0x1FF) AND (0x1FF :: u16) = ucast (mode AND 0x1FF)"
  "ucast ((mode :: u32) AND 0x1FF) \<le> (0x1FF :: u16)"
proof -
  have m: "(0x1FF :: u32) = mask 9" "(0x1FF :: u16) = mask 9" by (simp_all add: mask_eq_exp_minus_1)
  show eq: "ucast (mode AND 0x1FF) AND (0x1FF :: u16) = ucast (mode AND 0x1FF)"
    unfolding m by (rule bit_eqI) (auto simp: bit_simps)
  show "ucast (mode AND 0x1FF) \<le> (0x1FF :: u16)"
    using word_and_le1 [of "ucast (mode AND 0x1FF)" "0x1FF :: u16"] by (simp only: eq)
qed

lemma finish_typed:
  assumes "valid_time modified" and "case birth of None \<Rightarrow> True | Some t \<Rightarrow> valid_time t"
  shows "\<exists>info. finish mode len ident modified birth flags = Inr info \<and> info_typed info"
  using assms masked_mode [of mode]
  by (auto simp: finish_def Let_def mode_from_bits_Inr [THEN iffD2] info_typed_def)

lemma stamp_then_typed:
  "(\<And>t. valid_time t \<Longrightarrow> result_typed (f t)) \<Longrightarrow> result_typed (and_then (stamp s n) f)"
  using stamp_error [of s n] stamp_valid [of s n] by (cases "stamp s n") auto

lemma finish_result_typed:
  "valid_time modified \<Longrightarrow> (case birth of None \<Rightarrow> True | Some t \<Rightarrow> valid_time t) \<Longrightarrow>
     result_typed (finish mode len ident modified birth flags)"
  using finish_typed [of modified birth mode len ident flags] by auto

lemma from_statx_typed: "result_typed (from_statx K stat)"
proof -
  have "and_then (and_then (stamp s n) (\<lambda>t. Inr (Some t))) f = and_then (stamp s n) (\<lambda>t. f (Some t))"
    for s n and f :: "time option \<Rightarrow> platform_error + entry_info"
    by (cases "stamp s n") simp_all
  then show ?thesis
    by (auto simp: from_statx_def intro!: stamp_then_typed finish_result_typed)
qed

lemma query_typed: "result_typed (fst (query K w file name))"
  by (auto simp: query_def from_statx_typed split: prod.splits)

lemma query_macos_typed: "result_typed (fst (query_macos K w file name))"
  by (auto simp: query_macos_def intro!: stamp_then_typed finish_result_typed split: prod.splits)

lemma basename_error: "basename mem name = Inl e \<Longrightarrow> e = InvalidBasename \<or> e = OutOfMemory"
  by (cases "validate_path name") (auto simp: basename_def reserve_def split: if_splits)

section \<open>Lemmas on symlinks\<close>

lemma grow_more: "0 < capacity \<Longrightarrow> capacity < ceiling \<Longrightarrow> ceiling < 2 ^ 64 \<Longrightarrow>
    capacity < grow ceiling capacity \<and> grow ceiling capacity \<le> ceiling"
  by (auto simp: grow_def)

text \<open>
  A read into a buffer that grows until the answer fits: the link reader and the attribute reader. The
  body goes round again only below the ceiling \<open>maximum + 1\<close>, with the grown capacity, and returns at
  most \<open>maximum\<close> bytes.
\<close>

locale growing_read =
  fixes body :: "usize \<Rightarrow> usize \<times> 'w \<Rightarrow> usize \<times> 'w + (bytes, 'w) io"
  assumes grows: "capacity \<le> maximum + 1 \<Longrightarrow> body maximum (capacity, w) = Inl (capacity', w') \<Longrightarrow>
      capacity < maximum + 1 \<and> capacity' = grow (maximum + 1) capacity"
    and bounded: "body maximum (capacity, w) = Inr (Inr bs, w') \<Longrightarrow> length bs \<le> maximum"
begin

lemma loop_answers:
  assumes fits: "maximum + 1 < 2 ^ 64" and start: "keep w"
    and body: "\<And>capacity w. 0 < capacity \<Longrightarrow> capacity \<le> maximum + 1 \<Longrightarrow> keep w \<Longrightarrow>
      (case body maximum (capacity, w) of Inl (_, w') \<Rightarrow> keep w' | Inr y \<Rightarrow> Q y)"
  shows "\<exists>y. rust_loop (body maximum) (min 256 (maximum + 1), w) = Some y \<and> Q y"
proof (rule rust_loop_total [of "\<lambda>(capacity, w). 0 < capacity \<and> capacity \<le> maximum + 1 \<and> keep w" _ _
      "\<lambda>(capacity, w). maximum + 1 - capacity"], goal_cases)
  case 1
  show ?case using start by simp
next
  case (2 s s')
  then show ?case
    using grows [of "fst s" maximum "snd s"] grow_more [of "fst s" "maximum + 1"] fits body [of "fst s" "snd s"]
    by (cases s; cases s') auto
next
  case (3 s y)
  then show ?case using body [of "fst s" "snd s"] by (cases s) auto
qed

text \<open>Whatever the kernel answers, the loop ends, with at most \<open>maximum\<close> bytes.\<close>

lemma loop_returns:
  assumes "maximum + 1 < 2 ^ 64"
  shows "\<exists>y. rust_loop (body maximum) (min 256 (maximum + 1), w) = Some y
    \<and> (case fst y of Inl e \<Rightarrow> True | Inr bs \<Rightarrow> length bs \<le> maximum)"
  using assms
proof (rule loop_answers [of _ "\<lambda>_. True"])
  show "case body maximum (capacity, w) of Inl (_, w') \<Rightarrow> True
      | Inr y \<Rightarrow> (case fst y of Inl e \<Rightarrow> True | Inr bs \<Rightarrow> length bs \<le> maximum)" for capacity w
    using bounded by (fastforce split: sum.splits)
qed simp

end

interpretation link: growing_read "\<lambda>maximum. symlink_step mem K dir name maximum (maximum + 1)" for mem K dir name
  by unfold_locales (auto simp: symlink_step_def Let_def split: prod.splits if_splits)

lemma read_symlink_returns:
  "\<exists>result w'. read_symlink mem K w dir name maximum = Some (result, w')
    \<and> (case result of Inl e \<Rightarrow> True | Inr bs \<Rightarrow> length bs \<le> maximum)"
proof (cases "basename mem name")
  case (Inr terminated)
  show ?thesis
  proof (cases "maximum + 1 < 2 ^ 64")
    case True
    from link.loop_returns [OF this, of mem K dir terminated w] True Inr show ?thesis
      by (auto simp: read_symlink_def checked_add_usize_def)
  qed (simp add: read_symlink_def checked_add_usize_def Inr)
qed (simp add: read_symlink_def)

text \<open>The answer of \<open>readlinkat\<close> for a link with this content: as much as fits.\<close>

definition serves_link :: "('w, 'd) kernel \<Rightarrow> ('w \<Rightarrow> bool) \<Rightarrow> fd \<Rightarrow> bytes \<Rightarrow> bytes \<Rightarrow> bool" where
  "serves_link K ok dir name content \<longleftrightarrow> (\<forall>w buf. ok w \<longrightarrow>
     (case sys_readlinkat K w dir name buf of (result, err, buf', w') \<Rightarrow>
        result = int (min (length buf) (length content)) \<and> length buf' = length buf
        \<and> take (nat result) buf' = take (length buf) content \<and> ok w'))"

lemma symlink_loop_content:
  assumes K: "serves_link K ok dir name content" and "ok w" and mem: "\<forall>n. mem n" and "maximum + 1 < 2 ^ 64"
  shows "\<exists>y. rust_loop (symlink_step mem K dir name maximum (maximum + 1)) (min 256 (maximum + 1), w) = Some y
    \<and> fst y = read_answer maximum content"
  using assms(4,2)
proof (rule link.loop_answers)
  fix capacity w
  assume c: "0 < capacity" "capacity \<le> maximum + 1" and w: "ok w"
  obtain result err buf w' where r: "sys_readlinkat K w dir name (replicate capacity 0) = (result, err, buf, w')"
    by (metis prod_cases4)
  have "result = int (min capacity (length content)) \<and> take (nat result) buf = take capacity content \<and> ok w'"
    using K [unfolded serves_link_def, rule_format, of w "replicate capacity 0"] w by (auto simp: r)
  then show "case symlink_step mem K dir name maximum (maximum + 1) (capacity, w) of
      Inl (_, w') \<Rightarrow> ok w' | Inr y \<Rightarrow> fst y = read_answer maximum content"
    using c mem by (auto simp: symlink_step_def r Let_def read_answer_def)
qed

section \<open>Lemmas on the directory stream\<close>

text \<open>What \<open>readdir\<close> documents for a stream with these entries still to come.\<close>

definition lists_entries :: "('w, 'd) kernel \<Rightarrow> 'd \<Rightarrow> ('w \<Rightarrow> bytes list) \<Rightarrow> bool" where
  "lists_entries K d pending \<longleftrightarrow> (\<forall>w. case sys_readdir K d w of
       (None, err, w') \<Rightarrow> err = 0 \<and> pending w = [] \<and> pending w' = []
     | (Some name, err, w') \<Rightarrow> pending w = name # pending w')"

fun names_calls ::
  "allocator \<Rightarrow> ('w, 'd) kernel \<Rightarrow> nat \<Rightarrow> 'd names \<Rightarrow> 'w \<Rightarrow> (platform_error + bytes) option list option" where
  "names_calls mem K 0 s w = Some []"
| "names_calls mem K (Suc k) s w =
     (case names_next mem K s w of
        None \<Rightarrow> None
      | Some (item, s, w) \<Rightarrow> map_option ((#) item) (names_calls mem K k s w))"

text \<open>The items that the limits admit: names up to the first that exceeds a limit, which is reported.\<close>

fun admitted :: "usize \<Rightarrow> usize \<Rightarrow> bytes list \<Rightarrow> (platform_error + bytes) list" where
  "admitted entries width [] = []"
| "admitted entries width (name # names) =
     (if entries = 0 \<or> length name > width then [Inl LimitExceeded]
      else Inr name # admitted (entries - 1) width names)"

definition visible :: "bytes list \<Rightarrow> bytes list" where
  "visible = filter (\<lambda>name. \<not> is_dot_name name)"

lemma visible_simps [simp]:
  "visible [] = []" "visible (n # ns) = (if is_dot_name n then visible ns else n # visible ns)"
  by (simp_all add: visible_def)

text \<open>The first \<open>k\<close> answers of an iterator that yields these items and then ends for good.\<close>

fun answers :: "nat \<Rightarrow> 'a list \<Rightarrow> 'a option list" where
  "answers 0 xs = []"
| "answers (Suc k) [] = None # answers k []"
| "answers (Suc k) (x # xs) = Some x # answers k xs"

lemma names_loop_lists:
  assumes "lists_entries K (stream s) pending" and "\<forall>n. mem n"
  shows "case visible (pending w) of
      [] \<Rightarrow> \<exists>w'. rust_loop (names_step mem K s) w = Some (None, s, w')
    | name # rest \<Rightarrow> \<exists>w'. visible (pending w') = rest \<and> rust_loop (names_step mem K s) w = Some
        (if remaining s = 0 \<or> length name > maximum_name_bytes s then (Some (Inl LimitExceeded), s, w')
         else (Some (Inr name), s\<lparr>remaining := remaining s - 1, finished := False\<rparr>, w'))"
proof (induction "length (pending w)" arbitrary: w rule: less_induct)
  case less
  obtain entry err w' where r: "sys_readdir K (stream s) w = (entry, err, w')" by (metis prod_cases3)
  show ?case
  proof (cases entry)
    case None
    with assms(1) r have "pending w = []" "err = 0" by (auto simp: lists_entries_def split: prod.splits option.splits)
    then have "names_step mem K s w = Inr (None, s, w')" by (simp add: names_step_def r None)
    then show ?thesis using \<open>pending w = []\<close> by (auto dest: rust_loop_return)
  next
    case (Some name)
    then have p: "pending w = name # pending w'"
      using assms(1) r by (fastforce simp: lists_entries_def split: prod.splits option.splits)
    show ?thesis
    proof (cases "is_dot_name name")
      case True
      then have "rust_loop (names_step mem K s) w = rust_loop (names_step mem K s) w'"
        by (intro rust_loop_step) (simp add: names_step_def r Some)
      then show ?thesis using less [of w'] True by (simp only: p visible_simps if_True list.size less_Suc_eq)
    next
      case False
      then have "rust_loop (names_step mem K s) w = Some
          (if remaining s = 0 \<or> length name > maximum_name_bytes s then (Some (Inl LimitExceeded), s, w')
           else (Some (Inr name), s\<lparr>remaining := remaining s - 1, finished := False\<rparr>, w'))"
        using assms(2) by (intro rust_loop_return) (simp add: names_step_def r Some)
      then show ?thesis using False by (auto simp: p)
    qed
  qed
qed

lemma names_calls_finished: "finished s \<Longrightarrow> names_calls mem K k s w = Some (answers k [])"
  by (induction k arbitrary: s w) (simp_all add: names_next_def)

lemma names_calls_admitted:
  assumes "lists_entries K d pending" and mem: "\<forall>n. mem n"
  shows "stream s = d \<Longrightarrow> \<not> finished s \<Longrightarrow> names_calls mem K k s w
    = Some (answers k (admitted (remaining s) (maximum_name_bytes s) (visible (pending w))))"
proof (induction k arbitrary: s w)
  case (Suc k)
  let ?s = "s\<lparr>finished := True\<rparr>"
  note loop = names_loop_lists [of K ?s pending mem w] 
  show ?case
  proof (cases "visible (pending w)")
    case Nil
    with loop assms Suc.prems obtain w' where "rust_loop (names_step mem K ?s) w = Some (None, ?s, w')" by auto
    then show ?thesis using Suc.prems Nil by (simp add: names_next_def names_calls_finished)
  next
    case (Cons name rest)
    with loop assms Suc.prems obtain w' where w': "visible (pending w') = rest"
      "rust_loop (names_step mem K ?s) w = Some
        (if remaining s = 0 \<or> length name > maximum_name_bytes s then (Some (Inl LimitExceeded), ?s, w')
         else (Some (Inr name), s\<lparr>remaining := remaining s - 1, finished := False\<rparr>, w'))" by auto
    show ?thesis
    proof (cases "remaining s = 0 \<or> length name > maximum_name_bytes s")
      case True
      then show ?thesis using Suc.prems Cons w' by (auto simp: names_next_def names_calls_finished)
    next
      case False
      then show ?thesis
        using Suc.prems Cons w' Suc.IH [of "s\<lparr>remaining := remaining s - 1, finished := False\<rparr>" w']
        by (simp add: names_next_def)
    qed
  qed
qed simp

section \<open>Lemmas on descriptors\<close>

text \<open>The descriptors that are open: a successful open adds a new one, \<open>close\<close> removes one, a stream
  owns the descriptor it was made from until \<open>closedir\<close>, and no other call changes them.\<close>

definition tracks :: "('w, 'd) kernel \<Rightarrow> ('w \<Rightarrow> fd set) \<Rightarrow> ('d \<Rightarrow> fd) \<Rightarrow> bool" where
  "tracks K opened owned \<longleftrightarrow>
     (\<forall>w dir name flags. case sys_openat K w dir name flags of (fd, err, w') \<Rightarrow>
        if fd < 0 then opened w' = opened w else fd \<notin> opened w \<and> opened w' = insert fd (opened w))
   \<and> (\<forall>w fd. opened (snd (sys_metadata K w fd)) = opened w)
   \<and> (\<forall>w fd. opened (sys_close K w fd) = opened w - {fd})
   \<and> (\<forall>w fd buf. opened (snd (snd (sys_read K fd w buf))) = opened w)
   \<and> (\<forall>w fd. case sys_fdopendir K w fd of (handle, err, w') \<Rightarrow>
        opened w' = opened w \<and> (case handle of None \<Rightarrow> True | Some d \<Rightarrow> owned d = fd))
   \<and> (\<forall>w d. opened (sys_closedir K w d) = opened w - {owned d})"

lemma tracks_openat:
  assumes "tracks K opened owned" and "sys_openat K w dir name flags = (fd, err, w')"
  shows "if fd < 0 then opened w' = opened w else fd \<notin> opened w \<and> opened w' = insert fd (opened w)"
  using assms(1) [unfolded tracks_def, THEN conjunct1, rule_format, of w dir name flags] by (simp add: assms(2))

lemma tracks_simps:
  assumes "tracks K opened owned"
  shows "sys_metadata K w fd = (t, w') \<Longrightarrow> opened w' = opened w"
    and "opened (sys_close K w fd) = opened w - {fd}"
    and "opened (snd (snd (sys_read K fd w buf))) = opened w"
    and "sys_fdopendir K w fd = (handle, err, w') \<Longrightarrow> opened w' = opened w"
    and "sys_fdopendir K w fd = (Some d, err, w') \<Longrightarrow> owned d = fd"
    and "opened (sys_closedir K w d) = opened w - {owned d}"
proof -
  note tr = assms [unfolded tracks_def]
  show "sys_metadata K w fd = (t, w') \<Longrightarrow> opened w' = opened w"
    using tr [THEN conjunct2, THEN conjunct1, rule_format, of w fd] by simp
  have dir: "case sys_fdopendir K w fd of (handle, err, w') \<Rightarrow>
        opened w' = opened w \<and> (case handle of None \<Rightarrow> True | Some d \<Rightarrow> owned d = fd)"
    using tr [THEN conjunct2, THEN conjunct2, THEN conjunct2, THEN conjunct2, THEN conjunct1] by simp
  show "sys_fdopendir K w fd = (handle, err, w') \<Longrightarrow> opened w' = opened w" using dir by simp
  show "sys_fdopendir K w fd = (Some d, err, w') \<Longrightarrow> owned d = fd" using dir by simp
qed (use assms in \<open>simp_all add: tracks_def\<close>)

lemma open_child_tracks:
  assumes T: "tracks K opened owned" and "open_child mem K w dir name kind = (result, w')"
  shows "case result of Inl e \<Rightarrow> opened w' = opened w | Inr fd \<Rightarrow> fd \<notin> opened w \<and> opened w' = insert fd (opened w)"
proof (cases "basename mem name")
  case (Inr terminated)
  let ?extra = "case kind of Child_Directory \<Rightarrow> O_DIRECTORY | Child_RegularFile \<Rightarrow> O_NONBLOCK"
  obtain fd err w1 where o: "sys_openat K w dir terminated {O_RDONLY, O_CLOEXEC, O_NOFOLLOW, ?extra} = (fd, err, w1)"
    by (metis prod_cases3)
  obtain t w2 where m: "sys_metadata K w1 fd = (t, w2)" by fastforce
  show ?thesis
    using assms(2) tracks_openat [OF T o] tracks_simps(1) [OF T m] tracks_simps(2) [OF T]
    by (auto simp: open_child_def Inr o m Let_def split: if_splits sum.splits)
qed (use assms(2) in \<open>auto simp: open_child_def\<close>)

lemma read_file_tracks:
  assumes T: "tracks K opened owned" and "read_file mem K w dir name maximum = Some (result, w')"
  shows "opened w' = opened w \<and> (case result of Inl e \<Rightarrow> True | Inr bs \<Rightarrow> length bs \<le> maximum)"
proof -
  obtain r w1 where o: "open_regular_file mem K w dir name = (r, w1)" by fastforce
  note opened = open_child_tracks [OF T o [unfolded open_regular_file_def]]
  show ?thesis
  proof (cases r)
    case (Inl e)
    then show ?thesis using assms(2) opened by (auto simp: read_file_def o)
  next
    case (Inr fd)
    with assms(2) o obtain w2 where
      "read_limited mem (sys_read K fd) w1 maximum = Some (result, w2)" "w' = sys_close K w2 fd"
      by (auto simp: read_file_def)
    with read_limited_keeps [of mem "sys_read K fd" w1 maximum result w2 "\<lambda>w. opened w = opened w1"]
    show ?thesis using opened Inr tracks_simps(2,3) [OF T] by auto
  qed
qed

lemma directory_names_tracks:
  assumes T: "tracks K opened owned" and "directory_names K w dir entries width = (result, w')"
  shows "case result of Inl e \<Rightarrow> opened w' = opened w | Inr s \<Rightarrow> opened (names_drop K s w') = opened w"
proof -
  obtain fd err w1 where o: "sys_openat K w dir [dot, 0] {O_RDONLY, O_DIRECTORY, O_NOFOLLOW, O_CLOEXEC} = (fd, err, w1)"
    by (metis prod_cases3)
  obtain d err' w2 where d: "sys_fdopendir K w1 fd = (d, err', w2)" by (metis prod_cases3)
  show ?thesis
    using assms(2) tracks_openat [OF T o] tracks_simps(4) [OF T d] tracks_simps(2,6) [OF T]
      tracks_simps(5) [OF T, of w1 fd _ err' w2]
    by (auto simp: directory_names_def names_drop_def o d split: if_splits option.splits)
qed

section \<open>Properties of the file layer\<close>

text \<open>C23. What inspection returns is well typed, whatever the kernel answers and on both systems: a
  description has nine permission bits, all of them set for a symlink, and its modification and birth
  stamps hold less than a second of nanoseconds. The mode check at the end never fails.\<close>

theorem inspection_typed:
  "result_typed (fst (inspect mem K w dir name)) \<and> result_typed (fst (inspect_self K w dir))
     \<and> result_typed (fst (for_file K w file)) \<and> result_typed (fst (query_macos K w file terminated))"
proof (intro conjI)
  show "result_typed (fst (inspect mem K w dir name))"
    by (auto simp: inspect_def query_typed dest!: basename_error split: sum.splits)
qed (simp_all add: inspect_self_def for_file_def query_typed query_macos_typed)


text \<open>C38. Bounded reads are exact. On a reader that delivers its content piecewise, with finitely many
  interruptions, \<open>read_limited\<close> returns the whole content if it fits the ceiling and the limit error
  otherwise, for every ceiling, zero included; it never returns a truncated file.\<close>

theorem read_limited_exact:
  assumes "reads rd rest patience" and "\<forall>n. mem n"
  shows "\<exists>r'. read_limited mem rd r maximum
    = Some (if length (rest r) \<le> maximum then Inr (rest r) else Inl LimitExceeded, r')"
  using read_limited_answer [OF assms] by (simp add: read_answer_def)

text \<open>A reader over a byte list that delivers at most two bytes per call and is interrupted first.\<close>

definition slow_reader :: "(bool \<times> bytes) read_call" where
  "slow_reader = (\<lambda>(ready, rest) buf.
     if \<not> ready then (Inl (Os_Error EINTR), buf, True, rest)
     else (let n = min 2 (min (length buf) (length rest)) in (Inr n, take n rest @ drop n buf, True, drop n rest)))"

theorem read_limited_exact_witness:
  "(\<exists>r'. read_limited (\<lambda>_. True) slow_reader (False, [1, 2, 3]) 3 = Some (Inr [1, 2, 3], r'))
   \<and> (\<exists>r'. read_limited (\<lambda>_. True) slow_reader (False, [1, 2, 3]) 2 = Some (Inl LimitExceeded, r'))"
proof -
  have "reads slow_reader snd (\<lambda>r. if fst r then 0 else 1)"
    by (auto simp: reads_def slow_reader_def Let_def min_def)
  from read_limited_exact [OF this, of "\<lambda>_. True" "(False, [1, 2, 3])" 3]
    read_limited_exact [OF this, of "\<lambda>_. True" "(False, [1, 2, 3])" 2]
  show ?thesis by simp
qed

text \<open>A kernel whose world is the open descriptors and the entries still to list; every file is regular
  and empty.\<close>

definition sample_kernel :: "(fd list \<times> bytes list, fd) kernel" where
  "sample_kernel = \<lparr>
     sys_open = (\<lambda>w path flags. (Inl (Os_Error 2), w)),
     sys_openat = (\<lambda>w dir name flags. let fd = fold max (fst w) 2 + 1 in (fd, 0, (fd # fst w, snd w))),
     sys_metadata = (\<lambda>w fd. (Inr Is_File, w)),
     sys_close = (\<lambda>w fd. (removeAll fd (fst w), snd w)),
     sys_read = (\<lambda>fd w buf. (Inr 0, buf, w)),
     sys_readlinkat = (\<lambda>w dir name buf. (- 1, 22, buf, w)),
     sys_statx = (\<lambda>w dir name flags mask. (- 1, 38, \<lparr>stx_mask = 0, stx_mode = 0, stx_size = 0, stx_ino = 0,
        stx_dev_major = 0, stx_dev_minor = 0, stx_mtime = \<lparr>tv_sec = 0, tv_nsec = 0\<rparr>,
        stx_btime = \<lparr>tv_sec = 0, tv_nsec = 0\<rparr>\<rparr>, w)),
     sys_fstatat = (\<lambda>w dir name flags. (- 1, 38, \<lparr>mac_mode = 0, mac_size = 0, mac_dev = 0, mac_ino = 0, mac_mtime = 0,
        mac_mtime_nsec = 0, mac_birthtime = 0, mac_birthtime_nsec = 0, mac_flags = 0\<rparr>, w)),
     sys_fstat = (\<lambda>w fd. (- 1, 38, \<lparr>mac_mode = 0, mac_size = 0, mac_dev = 0, mac_ino = 0, mac_mtime = 0,
        mac_mtime_nsec = 0, mac_birthtime = 0, mac_birthtime_nsec = 0, mac_flags = 0\<rparr>, w)),
     sys_makedev = (\<lambda>major minor. 0),
     sys_fdopendir = (\<lambda>w fd. (Some fd, 0, w)),
     sys_readdir = (\<lambda>d w. case snd w of [] \<Rightarrow> (None, 0, w) | e # es \<Rightarrow> (Some e, 0, (fst w, es))),
     sys_closedir = (\<lambda>w d. (removeAll d (fst w), snd w))\<rparr>"

lemma fold_max_upper: "x \<in> set xs \<or> x \<le> a \<Longrightarrow> x \<le> fold max xs (a :: int)"
  by (induction xs arbitrary: a) (auto simp: le_max_iff_disj)

lemma sample_kernel_tracks: "tracks sample_kernel (\<lambda>w. set (fst w)) (\<lambda>d. d)"
proof -
  have fresh: "fold max fds 2 + 1 \<notin> set fds" for fds :: "fd list"
    using fold_max_upper [of "fold max fds 2 + 1" fds 2] by auto
  have valid: "\<not> fold max fds 2 + 1 < (0 :: int)" for fds using fold_max_upper [of 0 fds 2] by simp
  show ?thesis by (simp add: tracks_def sample_kernel_def Let_def fresh valid)
qed

lemma sample_kernel_lists: "lists_entries sample_kernel d snd"
  by (auto simp: lists_entries_def sample_kernel_def split: list.splits)

text \<open>C39. A directory stream never loses an entry silently. On a kernel that lists the entries of the
  directory, the calls of \<open>next\<close> yield the names other than dot and dot-dot in order, up to the first
  that exceeds the entry or name limit, which is reported as the limit error; after the last item
  every further call yields nothing, so an error cannot be skipped by retrying.\<close>

theorem names_enumerate:
  assumes "lists_entries K (stream s) pending" and "\<forall>n. mem n" and "\<not> finished s"
  shows "names_calls mem K k s w
    = Some (answers k (admitted (remaining s) (maximum_name_bytes s) (visible (pending w))))"
  using names_calls_admitted [OF assms(1,2)] assms(3) by blast

theorem names_enumerate_witness:
  "names_calls (\<lambda>_. True) sample_kernel 4
      \<lparr>stream = 3, remaining = 1, maximum_name_bytes = 255, finished = False\<rparr>
      ([3], [ascii ''.'', ascii ''a'', ascii ''..'', ascii ''b'', ascii ''c''])
    = Some [Some (Inr (ascii ''a'')), Some (Inl LimitExceeded), None, None]"
proof -
  have "answers 4 (admitted 1 255 (visible [ascii ''.'', ascii ''a'', ascii ''..'', ascii ''b'', ascii ''c'']))
      = [Some (Inr (ascii ''a'')), Some (Inl LimitExceeded), None, None]" by code_simp
  then show ?thesis
    using names_enumerate [OF sample_kernel_lists, where mem = "\<lambda>_. True" and k = 4
      and s = "\<lparr>stream = 3, remaining = 1, maximum_name_bytes = 255, finished = False\<rparr>"
      and w = "([3], [ascii ''.'', ascii ''a'', ascii ''..'', ascii ''b'', ascii ''c''])"]
    by (simp only: names.simps snd_conv simp_thms)
qed

text \<open>C40. Descriptors balance on every path. Whatever the kernel answers, opening a child leaves exactly
  one new descriptor when it succeeds and none when it fails, a bounded file read leaves none and
  returns at most the ceiling, and a directory stream leaves none when its creation fails or once it
  is dropped.\<close>

theorem descriptors_balanced:
  assumes "tracks K opened owned"
  shows "(open_child mem K w dir name kind = (result, w1) \<longrightarrow>
      (case result of Inl e \<Rightarrow> opened w1 = opened w | Inr fd \<Rightarrow> fd \<notin> opened w \<and> opened w1 = insert fd (opened w)))
    \<and> (read_file mem K w dir name maximum = Some (read, w2) \<longrightarrow>
      opened w2 = opened w \<and> (case read of Inl e \<Rightarrow> True | Inr bs \<Rightarrow> length bs \<le> maximum))
    \<and> (directory_names K w dir entries width = (names, w3) \<longrightarrow>
      (case names of Inl e \<Rightarrow> opened w3 = opened w | Inr s \<Rightarrow> opened (names_drop K s w3) = opened w))"
  by (rule conjI, rule impI, erule open_child_tracks [OF assms], rule conjI, rule impI, erule read_file_tracks [OF assms],
      rule impI, erule directory_names_tracks [OF assms])

theorem descriptors_balanced_witness:
  "\<exists>w1. open_child (\<lambda>_. True) sample_kernel ([4], []) 4 (ascii ''a'') Child_Directory = (Inl WrongKind, w1)
     \<and> set (fst w1) = {4}"
proof -
  have "fst (open_child (\<lambda>_. True) sample_kernel ([4], []) 4 (ascii ''a'') Child_Directory) = Inl WrongKind"
    by code_simp
  then obtain w1 where
    "open_child (\<lambda>_. True) sample_kernel ([4], []) 4 (ascii ''a'') Child_Directory = (Inl WrongKind, w1)"
    by (cases "open_child (\<lambda>_. True) sample_kernel ([4], []) 4 (ascii ''a'') Child_Directory") auto
  with descriptors_balanced [OF sample_kernel_tracks, of "\<lambda>_. True" "([4], [])" 4 "ascii ''a''" Child_Directory
      "Inl WrongKind" w1] show ?thesis by auto
qed

end
