(* ===== verification/Platform_Xattr.thy ===== *)
theory Platform_Xattr
  imports Platform_Files
begin

text \<open>
  Linux extended attributes through open descriptors (\<open>rust/platform/src/xattr.rs\<close>): reading with a
  growing buffer, writing, removing and listing. The four system calls are the record \<open>xattr_calls\<close>
  over the world of \<open>Platform_Files\<close>.
\<close>

definition ERANGE :: errno where "ERANGE = 34"
definition ENODATA :: errno where "ENODATA = 61"

record 'w xattr_calls =
  sys_fgetxattr :: "'w \<Rightarrow> fd \<Rightarrow> bytes \<Rightarrow> bytes \<Rightarrow> int \<times> errno \<times> bytes \<times> 'w"
  sys_fsetxattr :: "'w \<Rightarrow> fd \<Rightarrow> bytes \<Rightarrow> bytes \<Rightarrow> int \<times> errno \<times> 'w"
  sys_fremovexattr :: "'w \<Rightarrow> fd \<Rightarrow> bytes \<Rightarrow> int \<times> errno \<times> 'w"
  sys_flistxattr :: "'w \<Rightarrow> fd \<Rightarrow> bytes \<Rightarrow> int \<times> errno \<times> bytes \<times> 'w"

section \<open>Attribute lists\<close>

text \<open>\<open>slice::split_inclusive\<close>: every part keeps its separator.\<close>

fun split_inclusive :: "'a \<Rightarrow> 'a list \<Rightarrow> 'a list list" where
  "split_inclusive s [] = []"
| "split_inclusive s (x # xs) =
     (if x = s then [x] # split_inclusive s xs
      else (case split_inclusive s xs of [] \<Rightarrow> [[x]] | p # ps \<Rightarrow> (x # p) # ps))"

fun parse_names :: "usize \<Rightarrow> bytes list \<Rightarrow> platform_error + unit" where
  "parse_names left [] = Inr ()"
| "parse_names left (name # names) =
     (if length name \<le> 1 \<or> length name > 256 then Inl (invalid_data ''invalid attribute name length'')
      else if left = 0 then Inl LimitExceeded
      else parse_names (left - 1) names)"

definition xattr_parse :: "bytes \<Rightarrow> usize \<Rightarrow> platform_error + bytes" where
  "xattr_parse bs maximum_count =
     (if bs \<noteq> [] \<and> last bs \<noteq> 0 then Inl (invalid_data ''unterminated attribute list'')
      else and_then (parse_names maximum_count (split_inclusive 0 bs)) (\<lambda>_. Inr bs))"

definition xattr_iter :: "bytes \<Rightarrow> bytes list" where
  "xattr_iter bs = map (\<lambda>name. take (length name - 1) name) (split_inclusive 0 bs)"

section \<open>Reading with a growing buffer\<close>

definition call_count :: "int \<Rightarrow> errno \<Rightarrow> io_error + usize" where
  "call_count result err = (if result < 0 then Inl (Os_Error err) else Inr (nat result))"

definition buffer_step ::
  "allocator \<Rightarrow> 'w read_call \<Rightarrow> usize \<Rightarrow> usize \<Rightarrow> usize \<times> 'w \<Rightarrow> usize \<times> 'w + (bytes, 'w) io" where
  "buffer_step mem rd maximum ceiling = (\<lambda>(capacity, w).
     if \<not> mem capacity then Inr (Inl OutOfMemory, w)
     else case rd w (replicate capacity 0) of
         (Inl e, buf, w) \<Rightarrow>
           if raw_os_error e = Some ERANGE
           then if capacity = ceiling then Inr (Inl LimitExceeded, w) else Inl (grow ceiling capacity, w)
           else Inr (Inl (Io e), w)
       | (Inr got, buf, w) \<Rightarrow>
           if got > capacity then Inr (Inl (invalid_data ''attribute reader exceeded capacity''), w)
           else if got > maximum then Inr (Inl LimitExceeded, w)
           else Inr (Inr (take got buf), w))"

definition read_buffer :: "allocator \<Rightarrow> 'w read_call \<Rightarrow> 'w \<Rightarrow> usize \<Rightarrow> (bytes, 'w) io option" where
  "read_buffer mem rd w maximum =
     (case checked_add_usize maximum 1 of
        None \<Rightarrow> Some (Inl LimitExceeded, w)
      | Some ceiling \<Rightarrow> rust_loop (buffer_step mem rd maximum ceiling) (min 256 ceiling, w))"

section \<open>The calls\<close>

definition terminated_name :: "allocator \<Rightarrow> bytes \<Rightarrow> platform_error + bytes" where
  "terminated_name mem name =
     (if name = [] \<or> length name > 255 \<or> 0 \<in> set name then Inl InvalidAttributeName
      else and_then (reserve mem (length name + 1) OutOfMemory) (\<lambda>_. Inr (name @ [0])))"

definition get_call :: "'w xattr_calls \<Rightarrow> fd \<Rightarrow> bytes \<Rightarrow> 'w read_call" where
  "get_call K file name w buf =
     (case sys_fgetxattr K w file name buf of (result, err, buf, w) \<Rightarrow> (call_count result err, buf, w))"

fun absent_value :: "(bytes, 'w) io \<Rightarrow> (bytes option, 'w) io" where
  "absent_value (Inr bs, w) = (Inr (Some bs), w)"
| "absent_value (Inl (Io e), w) =
     (if raw_os_error e = Some ENODATA then (Inr None, w) else (Inl (Io e), w))"
| "absent_value (Inl e, w) = (Inl e, w)"

definition xattr_get ::
  "allocator \<Rightarrow> 'w xattr_calls \<Rightarrow> 'w \<Rightarrow> fd \<Rightarrow> bytes \<Rightarrow> usize \<Rightarrow> (bytes option, 'w) io option" where
  "xattr_get mem K w file name maximum =
     (case terminated_name mem name of
        Inl e \<Rightarrow> Some (Inl e, w)
      | Inr terminated \<Rightarrow>
          map_option absent_value (read_buffer mem (get_call K file terminated) w maximum))"

definition xattr_set :: "allocator \<Rightarrow> 'w xattr_calls \<Rightarrow> 'w \<Rightarrow> fd \<Rightarrow> bytes \<Rightarrow> bytes \<Rightarrow> (unit, 'w) io" where
  "xattr_set mem K w file name value =
     (case terminated_name mem name of
        Inl e \<Rightarrow> (Inl e, w)
      | Inr name \<Rightarrow>
          (case sys_fsetxattr K w file name value of
             (result, err, w) \<Rightarrow> (if result < 0 then Inl (Io (Os_Error err)) else Inr (), w)))"

definition xattr_remove :: "allocator \<Rightarrow> 'w xattr_calls \<Rightarrow> 'w \<Rightarrow> fd \<Rightarrow> bytes \<Rightarrow> (bool, 'w) io" where
  "xattr_remove mem K w file name =
     (case terminated_name mem name of
        Inl e \<Rightarrow> (Inl e, w)
      | Inr name \<Rightarrow>
          (case sys_fremovexattr K w file name of
             (result, err, w) \<Rightarrow>
               (if result = 0 then Inr True
                else if raw_os_error (Os_Error err) = Some ENODATA then Inr False
                else Inl (Io (Os_Error err)), w)))"

definition list_call :: "'w xattr_calls \<Rightarrow> fd \<Rightarrow> 'w read_call" where
  "list_call K file w buf =
     (case sys_flistxattr K w file buf of (result, err, buf, w) \<Rightarrow> (call_count result err, buf, w))"

definition xattr_list ::
  "allocator \<Rightarrow> 'w xattr_calls \<Rightarrow> 'w \<Rightarrow> fd \<Rightarrow> usize \<Rightarrow> usize \<Rightarrow> (bytes, 'w) io option" where
  "xattr_list mem K w file maximum_bytes maximum_count =
     map_option (\<lambda>(result, w). (and_then result (\<lambda>bs. xattr_parse bs maximum_count), w))
       (read_buffer mem (list_call K file) w maximum_bytes)"

section \<open>Lemmas on attribute lists\<close>

lemma split_inclusive_terminated: "s \<notin> set n \<Longrightarrow> split_inclusive s (n @ s # xs) = (n @ [s]) # split_inclusive s xs"
  by (induction n) auto

lemma concat_split_inclusive [simp]: "concat (split_inclusive s xs) = xs"
  by (induction xs) (auto split: list.splits)

lemma split_inclusive_parts:
  "xs = [] \<or> last xs = s \<Longrightarrow> \<exists>ns. split_inclusive s xs = map (\<lambda>n. n @ [s]) ns \<and> (\<forall>n \<in> set ns. s \<notin> set n)"
proof (induction xs)
  case (Cons x xs)
  show ?case
  proof (cases "xs = []")
    case True
    with Cons.prems show ?thesis by (auto intro: exI [of _ "[[]]"])
  next
    case False
    with Cons obtain ns where ns: "split_inclusive s xs = map (\<lambda>n. n @ [s]) ns" "\<forall>n \<in> set ns. s \<notin> set n" by auto
    show ?thesis
    proof (cases "x = s")
      case True
      then show ?thesis using ns by (auto intro!: exI [of _ "[] # ns"])
    next
      case False
      have "ns \<noteq> []" using ns(1) \<open>xs \<noteq> []\<close> concat_split_inclusive [of s xs] by auto
      then obtain n ns' where "ns = n # ns'" by (cases ns) auto
      then show ?thesis using ns False by (auto intro!: exI [of _ "(x # n) # ns'"])
    qed
  qed
qed (auto intro: exI [of _ "[]"])

lemma parse_names_Inr:
  "parse_names k names = Inr u \<longleftrightarrow> length names \<le> k \<and> (\<forall>n \<in> set names. 1 < length n \<and> length n \<le> 256)"
  by (induction k names rule: parse_names.induct) auto

text \<open>The encoding of a list of names, each with its terminator.\<close>

definition terminated_list :: "bytes list \<Rightarrow> bytes" where
  "terminated_list ns = concat (map (\<lambda>n. n @ [0]) ns)"

definition attribute_names :: "bytes list \<Rightarrow> bool" where
  "attribute_names ns \<longleftrightarrow> (\<forall>n \<in> set ns. n \<noteq> [] \<and> length n \<le> 255 \<and> 0 \<notin> set n)"

lemma split_terminated_list:
  "(\<And>n. n \<in> set ns \<Longrightarrow> 0 \<notin> set n) \<Longrightarrow> split_inclusive 0 (terminated_list ns) = map (\<lambda>n. n @ [0]) ns"
  by (induction ns) (auto simp: terminated_list_def split_inclusive_terminated)

lemma terminated_list_last: "terminated_list ns \<noteq> [] \<Longrightarrow> last (terminated_list ns) = 0"
  by (induction ns rule: rev_induct) (auto simp: terminated_list_def)

text \<open>Attribute lists are read exactly: \<open>parse\<close> accepts a byte string if and only if it is the terminated
  form of names of 1 to 255 bytes, no more than the caller allows, and iterating over an accepted list
  yields those names in order.\<close>

lemma xattr_parse_iff:
  "xattr_parse bs k = Inr l \<longleftrightarrow> l = bs \<and>
     (\<exists>ns. bs = terminated_list ns \<and> attribute_names ns \<and> length ns \<le> k \<and> xattr_iter bs = ns)" (is "?L \<longleftrightarrow> ?R")
proof
  assume L: ?L
  then have "bs = [] \<or> last bs = 0" by (auto simp: xattr_parse_def split: if_splits)
  from split_inclusive_parts [OF this] obtain ns where
    ns: "split_inclusive 0 bs = map (\<lambda>n. n @ [0]) ns" "\<forall>n \<in> set ns. 0 \<notin> set n" by auto
  have "bs = terminated_list ns" using concat_split_inclusive [of 0 bs] ns by (simp add: terminated_list_def)
  with L ns show ?R
    by (auto simp: xattr_parse_def xattr_iter_def and_then_Inr parse_names_Inr attribute_names_def o_def
        split: if_splits)
next
  assume ?R
  then show ?L using split_terminated_list terminated_list_last
    by (fastforce simp: xattr_parse_def and_then_Inr parse_names_Inr attribute_names_def)
qed

section \<open>Lemmas on the growing buffer\<close>

interpretation buffer: growing_read "\<lambda>maximum. buffer_step mem rd maximum (maximum + 1)" for mem rd
  by unfold_locales (auto simp: buffer_step_def split: prod.splits sum.splits if_splits)

lemma read_buffer_returns:
  "\<exists>result w'. read_buffer mem rd w maximum = Some (result, w')
    \<and> (case result of Inl e \<Rightarrow> True | Inr bs \<Rightarrow> length bs \<le> maximum)"
proof (cases "maximum + 1 < 2 ^ 64")
  case True
  from buffer.loop_returns [OF this, of mem rd w] True show ?thesis
    by (auto simp: read_buffer_def checked_add_usize_def)
qed (simp add: read_buffer_def checked_add_usize_def)

section \<open>Lemmas on the attribute store\<close>

text \<open>
  What the manual pages document of the three calls for a name of the user namespace, while no other
  process changes attributes. An open descriptor refers to an object (\<open>object\<close>, none for a descriptor that
  is not open), and attributes belong to objects, so that two descriptors of one file share them;
  \<open>attrs\<close> is what the process may see. Any call may fail with any error; these are the cases that mean
  something:
  \<^item> \<open>fgetxattr\<close> with a nonempty buffer that succeeds returns the whole value and its length;
    \<open>ENODATA\<close> means that there is no such attribute, \<open>ERANGE\<close> that the buffer is too small. It
    changes nothing.
  \<^item> \<open>fsetxattr\<close> that succeeds stores the value; \<open>fremovexattr\<close> that succeeds removes an existing
    attribute, and \<open>ENODATA\<close> means that it does not exist. Nothing else changes, and nothing when the call
    fails.
\<close>

type_synonym ('w, 'o) attributes = "'w \<Rightarrow> 'o \<Rightarrow> bytes \<rightharpoonup> bytes"

definition user_attribute :: "bytes \<Rightarrow> bool" where
  "user_attribute name \<longleftrightarrow> attribute_names [name] \<and> starts_with name (ascii ''user.'')"

definition get_documented :: "'w xattr_calls \<Rightarrow> ('w \<Rightarrow> fd \<Rightarrow> 'o option) \<Rightarrow> ('w, 'o) attributes \<Rightarrow> bool" where
  "get_documented K object attrs \<longleftrightarrow> (\<forall>w file name buf result err buf' w'.
     user_attribute name \<and> buf \<noteq> [] \<and> sys_fgetxattr K w file (name @ [0]) buf = (result, err, buf', w') \<longrightarrow>
       attrs w' = attrs w \<and> object w' = object w
       \<and> (0 \<le> result \<longrightarrow> (\<exists>ob v. object w file = Some ob \<and> attrs w ob name = Some v
             \<and> length v \<le> length buf \<and> result = int (length v) \<and> take (length v) buf' = v))
       \<and> (result < 0 \<and> err = ENODATA \<longrightarrow> (\<exists>ob. object w file = Some ob \<and> attrs w ob name = None))
       \<and> (result < 0 \<and> err = ERANGE \<longrightarrow> (\<exists>ob v. object w file = Some ob \<and> attrs w ob name = Some v
             \<and> length buf < length v)))"

definition set_documented :: "'w xattr_calls \<Rightarrow> ('w \<Rightarrow> fd \<Rightarrow> 'o option) \<Rightarrow> ('w, 'o) attributes \<Rightarrow> bool" where
  "set_documented K object attrs \<longleftrightarrow> (\<forall>w file name v result err w'.
     user_attribute name \<and> sys_fsetxattr K w file (name @ [0]) v = (result, err, w') \<longrightarrow>
       object w' = object w
       \<and> (if result < 0 then attrs w' = attrs w
          else \<exists>ob. object w file = Some ob \<and> attrs w' = (attrs w)(ob := (attrs w ob)(name \<mapsto> v))))"

definition remove_documented :: "'w xattr_calls \<Rightarrow> ('w \<Rightarrow> fd \<Rightarrow> 'o option) \<Rightarrow> ('w, 'o) attributes \<Rightarrow> bool" where
  "remove_documented K object attrs \<longleftrightarrow> (\<forall>w file name result err w'.
     user_attribute name \<and> sys_fremovexattr K w file (name @ [0]) = (result, err, w') \<longrightarrow>
       object w' = object w
       \<and> (if result = 0
          then \<exists>ob. object w file = Some ob \<and> attrs w ob name \<noteq> None
            \<and> attrs w' = (attrs w)(ob := (attrs w ob)(name := None))
          else attrs w' = attrs w
            \<and> (err = ENODATA \<longrightarrow> (\<exists>ob. object w file = Some ob \<and> attrs w ob name = None))))"

lemma ERANGE_ENODATA [simp]: "ENODATA \<noteq> ERANGE" "ERANGE \<noteq> ENODATA"
  by (simp_all add: ENODATA_def ERANGE_def)

definition lookup_answer :: "usize \<Rightarrow> bytes option \<Rightarrow> platform_error + bytes option" where
  "lookup_answer maximum v =
     (case v of None \<Rightarrow> Inr None | Some v \<Rightarrow> if length v \<le> maximum then Inr (Some v) else Inl LimitExceeded)"

lemma terminated_name_ok:
  "\<forall>n. mem n \<Longrightarrow> attribute_names [name] \<Longrightarrow> terminated_name mem name = Inr (name @ [0])"
  by (auto simp: terminated_name_def attribute_names_def)

text \<open>A failure that \<open>fgetxattr\<close> itself reported for the attribute, and that is neither of the two above.\<close>

definition get_failed :: "'w xattr_calls \<Rightarrow> fd \<Rightarrow> bytes \<Rightarrow> errno \<Rightarrow> bool" where
  "get_failed K file name err \<longleftrightarrow> err \<noteq> ENODATA \<and> err \<noteq> ERANGE
     \<and> (\<exists>w buf result buf' w'. sys_fgetxattr K w file (name @ [0]) buf = (result, err, buf', w') \<and> result < 0)"

text \<open>The answer of a lookup in the map of the object, or a reported failure.\<close>

definition get_answer ::
  "'w xattr_calls \<Rightarrow> ('w \<Rightarrow> fd \<Rightarrow> 'o option) \<Rightarrow> ('w, 'o) attributes \<Rightarrow> 'w \<Rightarrow> fd \<Rightarrow> bytes \<Rightarrow> usize
    \<Rightarrow> platform_error + bytes option \<Rightarrow> bool" where
  "get_answer K object attrs w h name maximum r \<longleftrightarrow>
     (\<exists>ob. object w h = Some ob \<and> r = lookup_answer maximum (attrs w ob name))
     \<or> (\<exists>err. r = Inl (Io (Os_Error err)) \<and> get_failed K h name err)"

lemma get_step_answers:
  assumes K: "get_documented K object attrs" and name: "user_attribute name" and mem: "\<forall>n. mem n"
    and c: "0 < capacity" "capacity \<le> maximum + 1"
  shows "case buffer_step mem (get_call K h (name @ [0])) maximum (maximum + 1) (capacity, w) of
      Inl (_, w') \<Rightarrow> attrs w' = attrs w \<and> object w' = object w
    | Inr y \<Rightarrow> attrs (snd (absent_value y)) = attrs w \<and> object (snd (absent_value y)) = object w
        \<and> get_answer K object attrs w h name maximum (fst (absent_value y))"
proof -
  obtain result err buf w' where r: "sys_fgetxattr K w h (name @ [0]) (replicate capacity 0) = (result, err, buf, w')"
    by (metis prod_cases4)
  note doc = K [unfolded get_documented_def, rule_format, OF conjI, OF name conjI, OF _ r]
  have other: "get_failed K h name err" if "result < 0" "err \<noteq> ENODATA" "err \<noteq> ERANGE"
    unfolding get_failed_def using that r by blast
  show ?thesis
    using doc c mem other
    by (auto simp: buffer_step_def get_call_def r call_count_def get_answer_def lookup_answer_def not_less)
qed

lemma xattr_get_answers:
  assumes K: "get_documented K object attrs" and name: "user_attribute name" and mem: "\<forall>n. mem n"
    and max: "maximum + 1 < 2 ^ 64"
  shows "\<exists>r w'. xattr_get mem K w h name maximum = Some (r, w') \<and> attrs w' = attrs w \<and> object w' = object w
    \<and> get_answer K object attrs w h name maximum r"
proof -
  let ?step = "buffer_step mem (get_call K h (name @ [0])) maximum (maximum + 1)"
  have "\<exists>y. rust_loop ?step (min 256 (maximum + 1), w) = Some y
      \<and> attrs (snd (absent_value y)) = attrs w \<and> object (snd (absent_value y)) = object w
      \<and> get_answer K object attrs w h name maximum (fst (absent_value y))"
    using max
  proof (rule buffer.loop_answers [of _ "\<lambda>w'. attrs w' = attrs w \<and> object w' = object w"])
    fix capacity w'
    assume "0 < capacity" "capacity \<le> maximum + 1" and same: "attrs w' = attrs w \<and> object w' = object w"
    from get_step_answers [OF K name mem this(1,2), where h = h and w = w'] same
    show "case ?step (capacity, w') of Inl (_, w') \<Rightarrow> attrs w' = attrs w \<and> object w' = object w
      | Inr y \<Rightarrow> attrs (snd (absent_value y)) = attrs w \<and> object (snd (absent_value y)) = object w
        \<and> get_answer K object attrs w h name maximum (fst (absent_value y))"
      by (auto simp: get_answer_def split: sum.splits)
  qed simp
  then show ?thesis
    using max terminated_name_ok [OF mem] name
    by (auto simp: xattr_get_def read_buffer_def checked_add_usize_def user_attribute_def) (metis prod.collapse)
qed

section \<open>Properties of the platform reads\<close>

text \<open>C37. The retry loops end on every kernel. However \<open>readlinkat\<close> and the attribute calls answer, and
  even if the object grows between calls, \<open>read_symlink\<close>, \<open>get\<close> and \<open>list\<close> return, and a value they
  return is within the caller's ceiling.\<close>

theorem bounded_reads_return:
  "(\<exists>result w'. read_symlink mem K w dir name maximum = Some (result, w')
      \<and> (case result of Inl e \<Rightarrow> True | Inr bs \<Rightarrow> length bs \<le> maximum))
   \<and> (\<exists>result w'. xattr_get mem X w h name maximum = Some (result, w')
      \<and> (case result of Inr (Some bs) \<Rightarrow> length bs \<le> maximum | _ \<Rightarrow> True))
   \<and> (\<exists>result w'. xattr_list mem X w h maximum entries = Some (result, w')
      \<and> (case result of Inl e \<Rightarrow> True | Inr bs \<Rightarrow> length bs \<le> maximum \<and> length (xattr_iter bs) \<le> entries))"
proof (intro conjI)
  show "\<exists>result w'. read_symlink mem K w dir name maximum = Some (result, w')
      \<and> (case result of Inl e \<Rightarrow> True | Inr bs \<Rightarrow> length bs \<le> maximum)"
    by (rule read_symlink_returns)
next
  show "\<exists>result w'. xattr_get mem X w h name maximum = Some (result, w')
      \<and> (case result of Inr (Some bs) \<Rightarrow> length bs \<le> maximum | _ \<Rightarrow> True)"
  proof (cases "terminated_name mem name")
    case (Inr terminated)
    from read_buffer_returns [of mem "get_call X h terminated" w maximum] obtain result w' where
      r: "read_buffer mem (get_call X h terminated) w maximum = Some (result, w')"
        "case result of Inl e \<Rightarrow> True | Inr bs \<Rightarrow> length bs \<le> maximum" by blast
    then show ?thesis
      by (cases "(result, w')" rule: absent_value.cases) (auto simp: xattr_get_def Inr)
  qed (simp add: xattr_get_def)
next
  show "\<exists>result w'. xattr_list mem X w h maximum entries = Some (result, w')
      \<and> (case result of Inl e \<Rightarrow> True | Inr bs \<Rightarrow> length bs \<le> maximum \<and> length (xattr_iter bs) \<le> entries)"
  proof -
    from read_buffer_returns [of mem "list_call X h" w maximum] obtain result w' where
      r: "read_buffer mem (list_call X h) w maximum = Some (result, w')"
      "case result of Inl e \<Rightarrow> True | Inr bs \<Rightarrow> length bs \<le> maximum" by blast
    then have "length bs \<le> maximum \<and> length (xattr_iter bs) \<le> entries"
      if "and_then result (\<lambda>bs. xattr_parse bs entries) = Inr bs" for bs
      using that by (auto simp: and_then_Inr xattr_parse_iff)
    then show ?thesis by (auto simp: xattr_list_def r(1) split: sum.splits)
  qed
qed

text \<open>C36. The attribute operations refine a map per object. On a kernel that behaves as documented, with
  memory granted and for a legal name of the user namespace: \<open>get\<close> returns and changes nothing; it
  answers the lookup in the map of the object the descriptor refers to (the value, that there is none,
  or the limit error when it is larger than the ceiling), or reports an error that \<open>fgetxattr\<close>
  reported. \<open>set\<close> that succeeds stores exactly that value under exactly that name of the object;
  \<open>remove\<close> that succeeds says whether the attribute existed and leaves the map without it; when they
  fail they report the error of the call and change nothing.\<close>

theorem xattr_refines_map:
  assumes "get_documented K object attrs" "set_documented K object attrs" "remove_documented K object attrs"
    and "user_attribute name" and "\<forall>n. mem n" and "maximum + 1 < 2 ^ 64"
  shows "(\<exists>r w'. xattr_get mem K w h name maximum = Some (r, w') \<and> attrs w' = attrs w \<and> object w' = object w
      \<and> get_answer K object attrs w h name maximum r)
    \<and> (case xattr_set mem K w h name v of
         (Inr u, w') \<Rightarrow> object w' = object w
           \<and> (\<exists>ob. object w h = Some ob \<and> attrs w' = (attrs w)(ob := (attrs w ob)(name \<mapsto> v)))
       | (Inl e, w') \<Rightarrow> attrs w' = attrs w \<and> object w' = object w
           \<and> (\<exists>result err. sys_fsetxattr K w h (name @ [0]) v = (result, err, w') \<and> result < 0 \<and> e = Io (Os_Error err)))
    \<and> (case xattr_remove mem K w h name of
         (Inr existed, w') \<Rightarrow> object w' = object w
           \<and> (\<exists>ob. object w h = Some ob \<and> (existed \<longleftrightarrow> attrs w ob name \<noteq> None)
             \<and> attrs w' = (attrs w)(ob := (attrs w ob)(name := None)))
       | (Inl e, w') \<Rightarrow> attrs w' = attrs w \<and> object w' = object w
           \<and> (\<exists>result err. sys_fremovexattr K w h (name @ [0]) = (result, err, w') \<and> result \<noteq> 0
             \<and> err \<noteq> ENODATA \<and> e = Io (Os_Error err)))"
proof (intro conjI)
  show "\<exists>r w'. xattr_get mem K w h name maximum = Some (r, w') \<and> attrs w' = attrs w \<and> object w' = object w
      \<and> get_answer K object attrs w h name maximum r"
    using assms(1,4,5,6) by (rule xattr_get_answers)
next
  have t: "terminated_name mem name = Inr (name @ [0])"
    using assms(4,5) terminated_name_ok by (simp add: user_attribute_def)
  obtain result err w' where s: "sys_fsetxattr K w h (name @ [0]) v = (result, err, w')" by (metis prod_cases3)
  show "case xattr_set mem K w h name v of
         (Inr u, w') \<Rightarrow> object w' = object w
           \<and> (\<exists>ob. object w h = Some ob \<and> attrs w' = (attrs w)(ob := (attrs w ob)(name \<mapsto> v)))
       | (Inl e, w') \<Rightarrow> attrs w' = attrs w \<and> object w' = object w
           \<and> (\<exists>result err. sys_fsetxattr K w h (name @ [0]) v = (result, err, w') \<and> result < 0 \<and> e = Io (Os_Error err))"
    using assms(2) [unfolded set_documented_def, rule_format, OF conjI, OF assms(4) s]
    by (simp add: xattr_set_def t s)
  obtain result err w' where r: "sys_fremovexattr K w h (name @ [0]) = (result, err, w')" by (metis prod_cases3)
  have absent: "(attrs w)(ob := (attrs w ob)(name := None)) = attrs w" if "attrs w ob name = None" for ob
    using that by (simp add: fun_upd_idem)
  show "case xattr_remove mem K w h name of
         (Inr existed, w') \<Rightarrow> object w' = object w
           \<and> (\<exists>ob. object w h = Some ob \<and> (existed \<longleftrightarrow> attrs w ob name \<noteq> None)
             \<and> attrs w' = (attrs w)(ob := (attrs w ob)(name := None)))
       | (Inl e, w') \<Rightarrow> attrs w' = attrs w \<and> object w' = object w
           \<and> (\<exists>result err. sys_fremovexattr K w h (name @ [0]) = (result, err, w') \<and> result \<noteq> 0
             \<and> err \<noteq> ENODATA \<and> e = Io (Os_Error err))"
    using assms(3) [unfolded remove_documented_def, rule_format, OF conjI, OF assms(4) r] absent
    by (auto simp: xattr_remove_def t r)
qed

text \<open>A kernel with the descriptors 3 and 4 on one object and 5 on a read-only one; any other descriptor
  is refused. Its world is the map of attributes by the terminated names.\<close>

definition open_object :: "fd \<Rightarrow> nat option" where
  "open_object h = (if h = 3 \<or> h = 4 then Some 0 else if h = 5 then Some 1 else None)"

definition EBADF :: errno where "EBADF = 9"
definition EROFS :: errno where "EROFS = 30"

definition map_calls :: "(nat \<Rightarrow> bytes \<rightharpoonup> bytes) xattr_calls" where
  "map_calls = \<lparr>
     sys_fgetxattr = (\<lambda>w h name buf. case open_object h of
         None \<Rightarrow> (- 1, EBADF, buf, w)
       | Some ob \<Rightarrow> (case w ob name of
           None \<Rightarrow> (- 1, ENODATA, buf, w)
         | Some v \<Rightarrow> if length v \<le> length buf then (int (length v), 0, v @ drop (length v) buf, w)
                     else (- 1, ERANGE, buf, w))),
     sys_fsetxattr = (\<lambda>w h name v. case open_object h of
         None \<Rightarrow> (- 1, EBADF, w)
       | Some ob \<Rightarrow> if ob = 1 then (- 1, EROFS, w) else (0, 0, w(ob := (w ob)(name \<mapsto> v)))),
     sys_fremovexattr = (\<lambda>w h name. case open_object h of
         None \<Rightarrow> (- 1, EBADF, w)
       | Some ob \<Rightarrow> if ob = 1 then (- 1, EROFS, w)
                   else if w ob name = None then (- 1, ENODATA, w) else (0, 0, w(ob := (w ob)(name := None)))),
     sys_flistxattr = (\<lambda>w h buf. (0, 0, buf, w))\<rparr>"

definition named_attributes :: "(nat \<Rightarrow> bytes \<rightharpoonup> bytes) \<Rightarrow> nat \<Rightarrow> bytes \<rightharpoonup> bytes" where
  "named_attributes w ob name = w ob (name @ [0])"

lemma map_calls_documented:
  "get_documented map_calls (\<lambda>_. open_object) named_attributes"
  "set_documented map_calls (\<lambda>_. open_object) named_attributes"
  "remove_documented map_calls (\<lambda>_. open_object) named_attributes"
  by (auto simp: get_documented_def set_documented_def remove_documented_def map_calls_def named_attributes_def
      EBADF_def EROFS_def ENODATA_def ERANGE_def fun_eq_iff split: option.splits if_splits)

text \<open>A value set through descriptor 3 is read through descriptor 4.\<close>

theorem xattr_refines_map_witness:
  "\<exists>w. xattr_set (\<lambda>_. True) map_calls (\<lambda>_. Map.empty) 3 (ascii ''user.a'') [7, 8] = (Inr (), w)
     \<and> (\<exists>w'. xattr_get (\<lambda>_. True) map_calls w 4 (ascii ''user.a'') 4 = Some (Inr (Some [7, 8]), w'))"
proof -
  let ?a = "ascii ''user.a''" and ?w = "(\<lambda>_. Map.empty)(0 := [ascii ''user.a'' @ [0] \<mapsto> [7, 8]]) :: nat \<Rightarrow> bytes \<rightharpoonup> bytes"
  have name: "user_attribute ?a" by (simp add: user_attribute_def attribute_names_def starts_with_def ascii_def)
  then have "terminated_name (\<lambda>_. True) ?a = Inr (?a @ [0])"
    using terminated_name_ok by (simp add: user_attribute_def)
  then have set: "xattr_set (\<lambda>_. True) map_calls (\<lambda>_. Map.empty) 3 ?a [7, 8] = (Inr (), ?w)"
    by (simp add: xattr_set_def map_calls_def open_object_def)
  from xattr_refines_map [OF map_calls_documented name, of "\<lambda>_. True" 4 ?w 4 "[]"]
  obtain r w' where r: "xattr_get (\<lambda>_. True) map_calls ?w 4 ?a 4 = Some (r, w')"
    and ans: "get_answer map_calls (\<lambda>_. open_object) named_attributes ?w 4 ?a 4 r" by auto
  have "\<not> get_failed map_calls 4 ?a err" for err
    by (auto simp: get_failed_def map_calls_def open_object_def split: option.splits if_splits)
  then have "r = Inr (Some [7, 8])"
    using ans by (auto simp: get_answer_def open_object_def named_attributes_def lookup_answer_def)
  with r set show ?thesis by blast
qed

end
