(* ===== verification/Consumer_Measurement.thy ===== *)
theory Consumer_Measurement
  imports Zdif_File "HOL-Library.Monad_Syntax" "HOL-Library.Multiset"
begin

text \<open>
  The measurement program (\<open>rust/consumer/src/measurement.rs\<close>): calibration, the interleaved sweep over
  several fixtures, and the run that compares every output with a reference. A panic (a failed
  \<open>assert\<close>, an \<open>unwrap\<close> of an error) is \<open>None\<close>. The sweep is generic in the work, its verification and
  the clock, as in the code; all three thread a world. The random provider, the reference program with
  the scratch directory it writes to, and the JSON table of native parameters are the record \<open>tools\<close>.
  The floating-point quotient of a sample is the parameter \<open>ratio\<close>: nothing below depends on how it
  rounds.
\<close>

type_synonym u128 = "128 word"

section \<open>Calibration and fixtures\<close>

definition TARGET_SAMPLE_NS :: u128 where "TARGET_SAMPLE_NS = 100000000"
definition MAX_ITERATIONS :: usize where "MAX_ITERATIONS = 512"

text \<open>\<open>u128::div_ceil\<close>, which panics on a zero divisor.\<close>

definition div_ceil :: "u128 \<Rightarrow> u128 \<Rightarrow> u128 option" where
  "div_ceil a b =
     (if b = 0 then None else Some (if a mod b > 0 then a div b + 1 else a div b))"

definition calibrated_iterations :: "u128 \<Rightarrow> usize option" where
  "calibrated_iterations cpu_ns =
     map_option (\<lambda>n. unat (min (max n 1) (of_nat MAX_ITERATIONS))) (div_ceil TARGET_SAMPLE_NS cpu_ns)"

definition is_ascii_hexdigit :: "u8 \<Rightarrow> bool" where
  "is_ascii_hexdigit b \<longleftrightarrow> is_ascii_digit b \<or> (65 \<le> b \<and> b \<le> 70) \<or> (97 \<le> b \<and> b \<le> 102)"

definition random_seed_argument :: "bytes \<Rightarrow> bytes" where
  "random_seed_argument seed =
     (if length seed = 32 \<and> list_all is_ascii_hexdigit seed then ascii ''0x'' @ seed else seed)"

record 'j tools =
  random_tool :: "bytes \<Rightarrow> usize \<Rightarrow> (bool \<times> bytes) option"
  oracle_tool :: "bytes \<Rightarrow> bytes \<Rightarrow> (bool \<times> bytes) option"
  native_parameters :: "usize \<Rightarrow> 'j option"
  scratch_is_new :: bool

definition provider_bytes :: "'j tools \<Rightarrow> bytes \<Rightarrow> usize \<Rightarrow> bytes option" where
  "provider_bytes T seed n = do {
     (success, stdout) \<leftarrow> random_tool T seed n;
     if success \<and> length stdout = n then Some stdout else None
   }"

definition seeded_bytes :: "'j tools \<Rightarrow> bytes \<Rightarrow> usize \<Rightarrow> bytes option" where
  "seeded_bytes T seed n = provider_bytes T (random_seed_argument seed) n"

fun unwrap :: "'e + 'a \<Rightarrow> 'a option" where
  "unwrap (Inl e) = None"
| "unwrap (Inr x) = Some x"

definition execute ::
  "allocator \<Rightarrow> ('c, 'd) native \<Rightarrow> hasher \<Rightarrow> file_operation \<Rightarrow> bytes \<Rightarrow> bytes \<Rightarrow> bytes \<Rightarrow> bytes option" where
  "execute mem N H op source target patch =
     (case op of
        Encode \<Rightarrow> unwrap (file_encode mem N H source target)
      | Apply \<Rightarrow> unwrap (file_apply mem N H source patch 0))"

section \<open>The sweep\<close>

record 'f samples =
  iterations :: usize
  wall_samples :: "'f list"
  cpu_samples :: "'f list"

record 'f sweep =
  sweep_rows :: "'f samples list"
  sweep_order :: "usize list"

record ('k, 's) clock =
  clock_start :: "'s \<Rightarrow> ('k \<times> 's) option"
  clock_elapsed :: "'k \<Rightarrow> 's \<Rightarrow> ((u128 \<times> u128) \<times> 's) option"

type_synonym ('t, 's) work = "usize \<Rightarrow> 's \<Rightarrow> ('t \<times> 's) option"
type_synonym ('t, 's) verify = "usize \<Rightarrow> 't \<Rightarrow> 's \<Rightarrow> 's option"

fun warm_up :: "('t, 's) work \<Rightarrow> ('t, 's) verify \<Rightarrow> usize \<Rightarrow> nat \<Rightarrow> 's \<Rightarrow> 's option" where
  "warm_up work verify row 0 s = Some s"
| "warm_up work verify row (Suc n) s = do {
     (t, s) \<leftarrow> work row s;
     s \<leftarrow> verify row t s;
     warm_up work verify row n s
   }"

definition timed_call ::
  "('k, 's) clock \<Rightarrow> ('t, 's) work \<Rightarrow> usize \<Rightarrow> 's \<Rightarrow> (('t \<times> u128 \<times> u128) \<times> 's) option" where
  "timed_call C work row s = do {
     (start, s) \<leftarrow> clock_start C s;
     (t, s) \<leftarrow> work row s;
     ((wall, cpu), s) \<leftarrow> clock_elapsed C start s;
     Some ((t, wall, cpu), s)
   }"

definition calibrate_row ::
  "('k, 's) clock \<Rightarrow> ('t, 's) work \<Rightarrow> ('t, 's) verify \<Rightarrow> usize \<Rightarrow> 's \<Rightarrow> ('f samples \<times> 's) option" where
  "calibrate_row C work verify row s = do {
     s \<leftarrow> warm_up work verify row 3 s;
     ((t, _, cpu), s) \<leftarrow> timed_call C work row s;
     if \<not> cpu > 0 then None
     else do {
       s \<leftarrow> verify row t s;
       n \<leftarrow> calibrated_iterations cpu;
       Some (\<lparr>iterations = n, wall_samples = [], cpu_samples = []\<rparr>, s)
     }
   }"

fun calibrate_rows ::
  "('k, 's) clock \<Rightarrow> ('t, 's) work \<Rightarrow> ('t, 's) verify \<Rightarrow> usize list \<Rightarrow> 's \<Rightarrow> ('f samples list \<times> 's) option" where
  "calibrate_rows C work verify [] s = Some ([], s)"
| "calibrate_rows C work verify (row # rows) s = do {
     (x, s) \<leftarrow> calibrate_row C work verify row s;
     (xs, s) \<leftarrow> calibrate_rows C work verify rows s;
     Some (x # xs, s)
   }"

fun timed_calls ::
  "('k, 's) clock \<Rightarrow> ('t, 's) work \<Rightarrow> ('t, 's) verify \<Rightarrow> usize \<Rightarrow> nat \<Rightarrow> u128 \<Rightarrow> u128 \<Rightarrow> 's
    \<Rightarrow> ((u128 \<times> u128) \<times> 's) option" where
  "timed_calls C work verify row 0 wall cpu s = Some ((wall, cpu), s)"
| "timed_calls C work verify row (Suc n) wall cpu s = do {
     ((t, elapsed_wall, elapsed_cpu), s) \<leftarrow> timed_call C work row s;
     s \<leftarrow> verify row t s;
     timed_calls C work verify row n (wall + elapsed_wall) (cpu + elapsed_cpu) s
   }"

definition sweep_row :: "usize \<Rightarrow> nat \<Rightarrow> nat \<Rightarrow> usize" where
  "sweep_row n round position =
     (if round mod 2 = 0 then (round + position) mod n else (round + n - position) mod n)"

definition sample_row ::
  "(u128 \<Rightarrow> usize \<Rightarrow> 'f) \<Rightarrow> ('k, 's) clock \<Rightarrow> ('t, 's) work \<Rightarrow> ('t, 's) verify \<Rightarrow> usize
    \<Rightarrow> 'f samples list \<Rightarrow> 's \<Rightarrow> ('f samples list \<times> 's) option" where
  "sample_row ratio C work verify row rows s =
     (let x = rows ! row in do {
        ((wall, cpu), s) \<leftarrow> timed_calls C work verify row (iterations x) 0 0 s;
        if \<not> (wall > 0 \<and> cpu > 0) then None
        else Some (rows[row := x\<lparr>wall_samples := wall_samples x @ [ratio wall (iterations x)],
                                cpu_samples := cpu_samples x @ [ratio cpu (iterations x)]\<rparr>], s)
      })"

fun sample_order ::
  "(u128 \<Rightarrow> usize \<Rightarrow> 'f) \<Rightarrow> ('k, 's) clock \<Rightarrow> ('t, 's) work \<Rightarrow> ('t, 's) verify \<Rightarrow> usize list
    \<Rightarrow> 'f samples list \<Rightarrow> 's \<Rightarrow> ('f samples list \<times> 's) option" where
  "sample_order ratio C work verify [] rows s = Some (rows, s)"
| "sample_order ratio C work verify (row # order) rows s = do {
     (rows, s) \<leftarrow> sample_row ratio C work verify row rows s;
     sample_order ratio C work verify order rows s
   }"

text \<open>The rows in the order of the two nested loops over five rounds and all positions.\<close>

definition visiting_order :: "usize \<Rightarrow> usize list" where
  "visiting_order n = concat (map (\<lambda>round. map (sweep_row n round) [0..<n]) [0..<5])"

definition sample_rows ::
  "(u128 \<Rightarrow> usize \<Rightarrow> 'f) \<Rightarrow> ('k, 's) clock \<Rightarrow> ('t, 's) work \<Rightarrow> ('t, 's) verify \<Rightarrow> usize \<Rightarrow> 's
    \<Rightarrow> ('f sweep \<times> 's) option" where
  "sample_rows ratio C work verify n s =
     (if \<not> (1 \<le> n \<and> n \<le> 16) then None
      else do {
        (rows, s) \<leftarrow> calibrate_rows C work verify [0..<n] s;
        (rows, s) \<leftarrow> sample_order ratio C work verify (visiting_order n) rows s;
        Some (\<lparr>sweep_rows = rows, sweep_order = visiting_order n\<rparr>, s)
      })"

section \<open>The run\<close>

text \<open>\<open>str::parse::<usize>\<close>: an optional plus sign and at least one digit, below \<open>2 ^ 64\<close>.\<close>

fun parse_digits :: "usize \<Rightarrow> bytes \<Rightarrow> usize option" where
  "parse_digits n [] = Some n"
| "parse_digits n (b # bs) =
     (if \<not> is_ascii_digit b then None
      else do {
        n \<leftarrow> checked_mul_usize n 10;
        n \<leftarrow> checked_add_usize n (unat (b - 48));
        parse_digits n bs
      })"

definition parse_usize :: "bytes \<Rightarrow> usize option" where
  "parse_usize text =
     (let digits = (case text of b # bs \<Rightarrow> if b = 43 then bs else text | [] \<Rightarrow> []) in
      if digits = [] then None else parse_digits 0 digits)"

record 'j fixture =
  fx_size :: usize
  fx_source :: bytes
  fx_target :: bytes
  fx_patch :: bytes
  fx_parameters :: 'j

definition scattered :: "bytes \<Rightarrow> bytes" where
  "scattered source = map (\<lambda>(i, b). if i mod 4093 = 0 then b XOR 1 else b) (List.enumerate 0 source)"

definition make_fixture :: "'j tools \<Rightarrow> bytes \<Rightarrow> usize \<Rightarrow> 'j fixture option" where
  "make_fixture T seed n = do {
     source \<leftarrow> seeded_bytes T seed n;
     (success, patch) \<leftarrow> oracle_tool T source (scattered source);
     if \<not> success then None
     else do {
       parameters \<leftarrow> native_parameters T n;
       Some \<lparr>fx_size = n, fx_source = source, fx_target = scattered source, fx_patch = patch,
             fx_parameters = parameters\<rparr>
     }
   }"

fun make_fixtures :: "'j tools \<Rightarrow> bytes \<Rightarrow> usize list \<Rightarrow> 'j fixture list option" where
  "make_fixtures T seed [] = Some []"
| "make_fixtures T seed (n # ns) = do {
     x \<leftarrow> make_fixture T seed n;
     xs \<leftarrow> make_fixtures T seed ns;
     Some (x # xs)
   }"

definition expected_output :: "file_operation \<Rightarrow> 'j fixture \<Rightarrow> bytes" where
  "expected_output op x = (case op of Encode \<Rightarrow> fx_patch x | Apply \<Rightarrow> fx_target x)"

function chunks :: "nat \<Rightarrow> 'a list \<Rightarrow> 'a list list" where
  "chunks n xs = (if xs = [] \<or> n = 0 then [] else take n xs # chunks n (drop n xs))"
  by pat_completeness auto
termination
  by (relation "measure (\<lambda>(n, xs). length xs)") auto

declare chunks.simps [simp del]

record ('j, 'f) report_row =
  row_size :: usize
  row_parameters :: 'j
  row_patch_bytes :: usize
  row_samples :: "'f samples"

record ('j, 'f) report =
  report_operation :: bytes
  report_seed :: bytes
  report_order :: "usize list list"
  report_rows :: "('j, 'f) report_row list"

definition report_row_of :: "'j fixture \<Rightarrow> 'f samples \<Rightarrow> ('j, 'f) report_row" where
  "report_row_of x samples = \<lparr>row_size = fx_size x, row_parameters = fx_parameters x,
     row_patch_bytes = length (fx_patch x), row_samples = samples\<rparr>"

text \<open>The arguments are checked before anything is created; the scratch directory must not exist.\<close>

definition measurement_run ::
  "allocator \<Rightarrow> ('c, 'd) native \<Rightarrow> hasher \<Rightarrow> (u128 \<Rightarrow> usize \<Rightarrow> 'f) \<Rightarrow> ('k, 's) clock \<Rightarrow> 'j tools \<Rightarrow> bool
    \<Rightarrow> bytes list \<Rightarrow> 's \<Rightarrow> (('j, 'f) report \<times> 's) option" where
  "measurement_run mem N H ratio C T debug args s =
     (if debug \<or> length args \<noteq> 3 then None
      else do {
        op \<leftarrow> find (\<lambda>op. operation_name op = args ! 0) operation_all;
        sizes \<leftarrow> those (map parse_usize (split_on 44 (args ! 1)));
        if \<not> (sizes \<noteq> [] \<and> list_all (\<lambda>n. n > 0 \<and> n \<le> 2 ^ 24) sizes) \<or> \<not> scratch_is_new T then None
        else do {
          fixtures \<leftarrow> make_fixtures T (args ! 2) sizes;
          (sw, s) \<leftarrow> sample_rows ratio C
            (\<lambda>i s. let x = fixtures ! i in
               map_option (\<lambda>t. (t, s)) (execute mem N H op (fx_source x) (fx_target x) (fx_patch x)))
            (\<lambda>i t s. if t = expected_output op (fixtures ! i) then Some s else None)
            (length fixtures) s;
          Some (\<lparr>report_operation = operation_name op, report_seed = args ! 2,
                 report_order = map (map (\<lambda>i. fx_size (fixtures ! i))) (chunks (length fixtures) (sweep_order sw)),
                 report_rows = map (\<lambda>(x, y). report_row_of x y) (zip fixtures (sweep_rows sw))\<rparr>, s)
        }
      })"

section \<open>Lemmas on calibration\<close>

lemma unat_div_ceil:
  assumes "div_ceil a b = Some q" and "unat a < 2 ^ 64"
  shows "0 < unat b \<and> unat q = (if unat a mod unat b > 0 then unat a div unat b + 1 else unat a div unat b)"
proof -
  have b: "b \<noteq> 0" using assms(1) by (auto simp: div_ceil_def split: if_splits)
  have "unat (a div b) \<le> unat a" by (simp add: unat_div)
  then have "unat (a div b + 1) = unat (a div b) + 1"
    using assms(2) by (subst unat_add_lem [THEN iffD1]) auto
  then show ?thesis
    using assms(1) b by (auto simp: div_ceil_def word_less_nat_alt unat_mod unat_div unat_gt_0 split: if_splits)
qed

text \<open>The smallest batch that reaches the target, within 1 and 512.\<close>

lemma calibrated_iterations_smallest:
  assumes "calibrated_iterations cpu = Some n"
  shows "1 \<le> n \<and> n \<le> 512"
    and "unat cpu * 512 < 10 ^ 8 \<Longrightarrow> n = 512"
    and "10 ^ 8 \<le> unat cpu * 512 \<Longrightarrow> 10 ^ 8 \<le> n * unat cpu \<and> (n = 1 \<or> (n - 1) * unat cpu < 10 ^ 8)"
proof -
  obtain q where q: "div_ceil TARGET_SAMPLE_NS cpu = Some q" "n = unat (min (max q 1) 512)"
    using assms by (auto simp: calibrated_iterations_def MAX_ITERATIONS_def)
  define c where "c = unat cpu"
  have c: "0 < c" and uq: "unat q = (if 10 ^ 8 mod c > 0 then 10 ^ 8 div c + 1 else 10 ^ 8 div c)"
    using unat_div_ceil [OF q(1)] by (simp_all add: TARGET_SAMPLE_NS_def c_def)
  have n: "n = min (max (unat q) 1) 512" by (simp add: q(2) min_def max_def word_le_nat_alt)
  have least: "10 ^ 8 \<le> k * c \<longleftrightarrow> unat q \<le> k" for k
  proof -
    define d m where "d = (10 ^ 8 :: nat) div c" and "m = (10 ^ 8 :: nat) mod c"
    have a: "(10 ^ 8 :: nat) = d * c + m" "m < c" using c by (auto simp: d_def m_def simp del: power_numeral)
    have "d * c + m \<le> k * c \<longleftrightarrow> (if m > 0 then d + 1 else d) \<le> k"
    proof (cases "d < k")
      case True
      then have "Suc d * c \<le> k * c" by (intro mult_le_mono1) simp
      then show ?thesis using True a(2) by auto
    next
      case False
      have "\<not> d * c + m \<le> k * c" if "k < d"
        using mult_less_mono1 [OF that c] by linarith
      then show ?thesis using False by (cases "k = d") auto
    qed
    moreover have "unat q = (if m > 0 then d + 1 else d)" by (simp only: uq d_def m_def)
    ultimately show ?thesis by (simp only: a(1))
  qed
  show "1 \<le> n \<and> n \<le> 512" by (auto simp: n)
  show "n = 512" if "unat cpu * 512 < 10 ^ 8" using that least [of 512] by (auto simp: n c_def mult.commute)
  show "10 ^ 8 \<le> n * unat cpu \<and> (n = 1 \<or> (n - 1) * unat cpu < 10 ^ 8)" if "10 ^ 8 \<le> unat cpu * 512"
    using that least [of 512] least [of n] least [of "n - 1"] by (auto simp: n c_def mult.commute min_def max_def split: if_splits)
qed

lemma calibrated_iterations_returns: "0 < cpu \<Longrightarrow> \<exists>n. calibrated_iterations cpu = Some n"
  by (simp add: calibrated_iterations_def div_ceil_def word_gt_0)

section \<open>Lemmas on the visiting order\<close>

lemma sweep_row_inj:
  assumes "p < n" "q < n" and "sweep_row n round p = sweep_row n round q"
  shows "p = q"
proof -
  have close: "i = j" if "i mod n = j mod n" "j \<le> i" "i < j + n" for i j :: nat
    using that mod_eq_dvd_iff_nat [of j i n] by (auto dest: dvd_imp_le)
  show ?thesis
  proof (cases "round mod 2 = 0")
    case True
    then have eq: "(round + p) mod n = (round + q) mod n" using assms(3) by (simp add: sweep_row_def)
    show ?thesis
      using close [of "round + p" "round + q"] close [of "round + q" "round + p"] eq assms(1,2)
      by (cases "p \<le> q") auto
  next
    case False
    then have eq: "(round + n - p) mod n = (round + n - q) mod n" using assms(3) by (simp add: sweep_row_def)
    show ?thesis
      using close [of "round + n - p" "round + n - q"] close [of "round + n - q" "round + n - p"] eq assms(1,2)
      by (cases "p \<le> q") linarith+
  qed
qed

text \<open>Every round visits every row once.\<close>

lemma round_permutation: "mset (map (sweep_row n round) [0..<n]) = mset [0..<n]"
proof (cases "n = 0")
  case False
  have inj: "inj_on (sweep_row n round) {0..<n}" by (rule inj_onI) (auto intro: sweep_row_inj)
  have "sweep_row n round ` {0..<n} \<subseteq> {0..<n}" using False by (auto simp: sweep_row_def)
  then have "sweep_row n round ` {0..<n} = {0..<n}"
    using inj by (intro card_subset_eq) (simp_all add: card_image)
  then show ?thesis using inj by (subst set_eq_iff_mset_eq_distinct [symmetric]) (simp_all add: distinct_map)
qed simp

lemma count_round: "i < n \<Longrightarrow> count_list (map (sweep_row n round) [0..<n]) i = 1"
  using round_permutation [of n round] distinct_count_atmost_1 [of "[0..<n]"] by (metis count_mset atLeast0LessThan distinct_upt lessThan_iff set_upt)

lemma count_concat: "count_list (concat xss) i = sum_list (map (\<lambda>xs. count_list xs i) xss)"
  by (induction xss) simp_all

lemma count_visits: "i < n \<Longrightarrow> count_list (visiting_order n) i = 5"
  by (simp add: visiting_order_def count_concat o_def count_round sum_list_triv)

lemma visiting_order_rows: "1 \<le> n \<Longrightarrow> row \<in> set (visiting_order n) \<Longrightarrow> row < n"
  by (auto simp: visiting_order_def sweep_row_def)

lemma chunks_concat:
  "0 < n \<Longrightarrow> list_all (\<lambda>xs. length xs = n) xss \<Longrightarrow> chunks n (concat xss) = xss"
  by (induction xss) (auto simp: chunks.simps [of n "[]"] chunks.simps [of n "xs @ ys" for xs ys])

lemma chunks_visiting_order:
  "1 \<le> n \<Longrightarrow> chunks n (visiting_order n) = map (\<lambda>round. map (sweep_row n round) [0..<n]) [0..<5]"
  unfolding visiting_order_def by (rule chunks_concat) (simp_all add: list_all_iff)

section \<open>Lemmas on what a sweep returns, in any world\<close>

definition sampled :: "nat \<Rightarrow> 'f samples \<Rightarrow> bool" where
  "sampled k x \<longleftrightarrow> 1 \<le> iterations x \<and> iterations x \<le> 512 \<and> length (wall_samples x) = k \<and> length (cpu_samples x) = k"

lemma calibrate_row_sampled: "calibrate_row C work verify row s = Some (x, s') \<Longrightarrow> sampled 0 x"
  by (auto simp: calibrate_row_def sampled_def Option.bind_eq_Some_conv split: if_splits
      dest: calibrated_iterations_smallest(1))

lemma calibrate_rows_sampled:
  "calibrate_rows C work verify rows s = Some (xs, s') \<Longrightarrow> length xs = length rows \<and> list_all (sampled 0) xs"
  by (induction rows arbitrary: s xs s') (auto simp: Option.bind_eq_Some_conv dest: calibrate_row_sampled)

text \<open>A visit appends one sample of each clock to its row and leaves the batch sizes as they are.\<close>

lemma sample_row_appends:
  assumes "sample_row ratio C work verify row xs s = Some (ys, s')"
  obtains wall cpu where "ys = xs[row := (xs ! row)\<lparr>wall_samples := wall_samples (xs ! row) @ [wall],
      cpu_samples := cpu_samples (xs ! row) @ [cpu]\<rparr>]"
  using assms by (auto simp: sample_row_def Let_def Option.bind_eq_Some_conv split: if_splits)

lemma sample_order_appends:
  assumes "sample_order ratio C work verify order xs s = Some (ys, s')"
  shows "length ys = length xs"
    and "i < length xs \<Longrightarrow> iterations (ys ! i) = iterations (xs ! i)"
    and "i < length xs \<Longrightarrow> length (wall_samples (ys ! i)) = length (wall_samples (xs ! i)) + count_list order i"
    and "i < length xs \<Longrightarrow> length (cpu_samples (ys ! i)) = length (cpu_samples (xs ! i)) + count_list order i"
proof -
  have "length ys = length xs \<and> (i < length xs \<longrightarrow> iterations (ys ! i) = iterations (xs ! i)
      \<and> length (wall_samples (ys ! i)) = length (wall_samples (xs ! i)) + count_list order i
      \<and> length (cpu_samples (ys ! i)) = length (cpu_samples (xs ! i)) + count_list order i)"
    using assms
  proof (induction order arbitrary: xs s)
    case (Cons row order)
    then obtain zs r where row: "sample_row ratio C work verify row xs s = Some (zs, r)"
        and rest: "sample_order ratio C work verify order zs r = Some (ys, s')"
      by (auto simp: Option.bind_eq_Some_conv)
    from row obtain wall cpu where "zs = xs[row := (xs ! row)\<lparr>wall_samples := wall_samples (xs ! row) @ [wall],
        cpu_samples := cpu_samples (xs ! row) @ [cpu]\<rparr>]" by (rule sample_row_appends)
    with Cons.IH [OF rest] show ?case by (auto simp: nth_list_update)
  qed simp
  then show "length ys = length xs"
    and "i < length xs \<Longrightarrow> iterations (ys ! i) = iterations (xs ! i)"
    and "i < length xs \<Longrightarrow> length (wall_samples (ys ! i)) = length (wall_samples (xs ! i)) + count_list order i"
    and "i < length xs \<Longrightarrow> length (cpu_samples (ys ! i)) = length (cpu_samples (xs ! i)) + count_list order i"
    by simp_all
qed

lemma sample_rows_sampled:
  assumes "sample_rows ratio C work verify n s = Some (sw, s')"
  shows "sweep_order sw = visiting_order n \<and> length (sweep_rows sw) = n \<and> list_all (sampled 5) (sweep_rows sw)"
proof -
  obtain xs ys r where c: "calibrate_rows C work verify [0..<n] s = Some (xs, r)"
      and v: "sample_order ratio C work verify (visiting_order n) xs r = Some (ys, s')"
      and sw: "sw = \<lparr>sweep_rows = ys, sweep_order = visiting_order n\<rparr>"
    using assms by (auto simp: sample_rows_def Option.bind_eq_Some_conv split: if_splits)
  from calibrate_rows_sampled [OF c] sample_order_appends [OF v] show ?thesis
    by (auto simp: sw list_all_length sampled_def count_visits)
qed

text \<open>A sweep that returns has verified an output of every row.\<close>

definition verified :: "('t, 's) work \<Rightarrow> ('t, 's) verify \<Rightarrow> usize \<Rightarrow> bool" where
  "verified work verify i \<longleftrightarrow> (\<exists>s t s' s''. work i s = Some (t, s') \<and> verify i t s' = Some s'')"

lemma calibrate_row_verified: "calibrate_row C work verify i s = Some (x, s') \<Longrightarrow> verified work verify i"
  unfolding calibrate_row_def verified_def numeral_3_eq_3 by (auto simp: Option.bind_eq_Some_conv)

lemma calibrate_rows_verified:
  "calibrate_rows C work verify rows s = Some (xs, s') \<Longrightarrow> i \<in> set rows \<Longrightarrow> verified work verify i"
  by (induction rows arbitrary: s xs) (auto simp: Option.bind_eq_Some_conv dest: calibrate_row_verified)

lemma sample_rows_verified:
  assumes "sample_rows ratio C work verify n s = Some (sw, s')" and "i < n"
  shows "verified work verify i"
  using assms calibrate_rows_verified [of C work verify "[0..<n]"]
  by (auto simp: sample_rows_def Option.bind_eq_Some_conv split: if_splits)

section \<open>Lemmas on the trace of a sweep\<close>

text \<open>A world that records every call, with a clock whose readings may depend on the whole history.\<close>

datatype event = Started | Worked usize | Stopped | Verified usize

type_synonym tick = "event list \<Rightarrow> u128 \<times> u128"

definition log_clock :: "tick \<Rightarrow> (unit, event list) clock" where
  "log_clock tick = \<lparr>clock_start = (\<lambda>s. Some ((), s @ [Started])),
     clock_elapsed = (\<lambda>_ s. Some (tick s, s @ [Stopped]))\<rparr>"

definition log_work :: "(usize \<Rightarrow> event list \<Rightarrow> 't) \<Rightarrow> ('t, event list) work" where
  "log_work out row s = Some (out row s, s @ [Worked row])"

definition log_verify :: "('t, event list) verify" where
  "log_verify row t s = Some (s @ [Verified row])"

definition call_events :: "usize \<Rightarrow> event list" where
  "call_events row = [Started, Worked row, Stopped, Verified row]"

definition calibration_events :: "usize \<Rightarrow> event list" where
  "calibration_events row = concat (replicate 3 [Worked row, Verified row]) @ call_events row"

text \<open>Every reading is positive and fits 64 bits, so that sums over a batch do not wrap.\<close>

definition advancing :: "tick \<Rightarrow> bool" where
  "advancing tick \<longleftrightarrow> (\<forall>s. (case tick s of (wall, cpu) \<Rightarrow>
     0 < unat wall \<and> unat wall \<le> 2 ^ 64 \<and> 0 < unat cpu \<and> unat cpu \<le> 2 ^ 64))"

lemma warm_up_log: "warm_up (log_work out) log_verify row n s = Some (s @ concat (replicate n [Worked row, Verified row]))"
  by (induction n arbitrary: s) (simp_all add: log_work_def log_verify_def)

lemma timed_call_log:
  assumes "advancing tick"
  obtains t wall cpu where "timed_call (log_clock tick) (log_work out) row s
      = Some ((t, wall, cpu), s @ [Started, Worked row, Stopped])"
    and "0 < unat wall" "unat wall \<le> 2 ^ 64" "0 < unat cpu" "unat cpu \<le> 2 ^ 64"
proof -
  obtain wall cpu where "tick (s @ [Started, Worked row]) = (wall, cpu)" by fastforce
  with assms show thesis
    by (intro that [of "out row (s @ [Started])" wall cpu])
      (auto simp: timed_call_def log_clock_def log_work_def advancing_def dest!: spec [of _ "s @ [Started, Worked row]"])
qed

lemma unat_add_small: "unat (a :: u128) + unat b < 2 ^ 128 \<Longrightarrow> unat (a + b) = unat a + unat b"
  using unat_add_lem [of a b] by simp

lemma timed_calls_log:
  assumes "advancing tick"
  shows "unat wall + n * 2 ^ 64 < 2 ^ 128 \<Longrightarrow> unat cpu + n * 2 ^ 64 < 2 ^ 128 \<Longrightarrow>
    \<exists>wall' cpu'. timed_calls (log_clock tick) (log_work out) log_verify row n wall cpu s
        = Some ((wall', cpu'), s @ concat (replicate n (call_events row)))
      \<and> unat wall + n \<le> unat wall' \<and> unat cpu + n \<le> unat cpu'"
proof (induction n arbitrary: wall cpu s)
  case (Suc n)
  obtain t w c where call: "timed_call (log_clock tick) (log_work out) row s
      = Some ((t, w, c), s @ [Started, Worked row, Stopped])"
    and wc: "0 < unat w" "unat w \<le> 2 ^ 64" "0 < unat c" "unat c \<le> 2 ^ 64"
    by (rule timed_call_log [OF assms])
  have add: "unat (wall + w) = unat wall + unat w" "unat (cpu + c) = unat cpu + unat c"
    using Suc.prems wc by (auto intro!: unat_add_small)
  have "unat (wall + w) + n * 2 ^ 64 < 2 ^ 128" "unat (cpu + c) + n * 2 ^ 64 < 2 ^ 128"
    using Suc.prems wc by (simp_all add: add)
  from Suc.IH [OF this, of "s @ call_events row"] wc show ?case
    by (auto simp: call log_verify_def call_events_def add)
qed simp

lemma calibrate_row_log:
  assumes "advancing tick"
  shows "\<exists>x. calibrate_row (log_clock tick) (log_work out) log_verify row s = Some (x, s @ calibration_events row)"
proof -
  let ?s = "s @ concat (replicate 3 [Worked row, Verified row])"
  obtain t wall cpu where call: "timed_call (log_clock tick) (log_work out) row ?s
      = Some ((t, wall, cpu), ?s @ [Started, Worked row, Stopped])" and "0 < unat cpu"
    by (rule timed_call_log [OF assms])
  then have cpu: "0 < cpu" by (simp add: unat_gt_0 word_gt_0)
  then obtain n where "calibrated_iterations cpu = Some n"
    using calibrated_iterations_returns by blast
  with cpu show ?thesis
    by (simp add: calibrate_row_def warm_up_log call log_verify_def calibration_events_def call_events_def)
qed

lemma calibrate_rows_log:
  assumes "advancing tick"
  shows "\<exists>xs :: 'f samples list. calibrate_rows (log_clock tick) (log_work out) log_verify rows s
      = Some (xs, s @ concat (map calibration_events rows))"
proof (induction rows arbitrary: s)
  case (Cons row rows)
  obtain x :: "'f samples" where "calibrate_row (log_clock tick) (log_work out) log_verify row s
      = Some (x, s @ calibration_events row)" using calibrate_row_log [OF assms, of out row s] by blast
  with Cons [of "s @ calibration_events row"] show ?case by auto
qed simp

definition batch_events :: "'f samples list \<Rightarrow> usize \<Rightarrow> event list" where
  "batch_events xs row = concat (replicate (iterations (xs ! row)) (call_events row))"

lemma sample_row_log:
  assumes "advancing tick" and "1 \<le> iterations (xs ! row)" "iterations (xs ! row) \<le> 512"
  shows "\<exists>ys. sample_row ratio (log_clock tick) (log_work out) log_verify row xs s = Some (ys, s @ batch_events xs row)"
proof -
  obtain wall cpu where calls: "timed_calls (log_clock tick) (log_work out) log_verify row (iterations (xs ! row)) 0 0 s
        = Some ((wall, cpu), s @ batch_events xs row)"
      and "iterations (xs ! row) \<le> unat wall" "iterations (xs ! row) \<le> unat cpu"
    using timed_calls_log [OF assms(1), of 0 "iterations (xs ! row)" 0 out row s] assms(3)
    by (auto simp: batch_events_def)
  then have "0 < wall \<and> 0 < cpu" using assms(2) by (auto simp: word_less_nat_alt)
  then show ?thesis by (simp add: sample_row_def calls Let_def)
qed

lemma sample_order_log:
  assumes "advancing tick"
  shows "\<forall>i<length xs. 1 \<le> iterations (xs ! i) \<and> iterations (xs ! i) \<le> 512 \<Longrightarrow> \<forall>row\<in>set order. row < length xs \<Longrightarrow>
    \<exists>ys. sample_order ratio (log_clock tick) (log_work out) log_verify order xs s
        = Some (ys, s @ concat (map (batch_events xs) order))"
proof (induction order arbitrary: xs s)
  case (Cons row order)
  then obtain ys where row: "sample_row ratio (log_clock tick) (log_work out) log_verify row xs s
      = Some (ys, s @ batch_events xs row)"
    using sample_row_log [OF assms] by (metis list.set_intros(1))
  then have "sample_order ratio (log_clock tick) (log_work out) log_verify [row] xs s = Some (ys, s @ batch_events xs row)"
    by simp
  note same = sample_order_appends(1,2) [OF this]
  have "map (batch_events ys) order = map (batch_events xs) order"
    using same Cons.prems(2) by (simp add: batch_events_def)
  with Cons.IH [of ys "s @ batch_events xs row"] Cons.prems same row show ?case by simp
qed simp

section \<open>Properties of the measurement\<close>

text \<open>C20. In a world that records what happens, with any clock that advances: a sweep over 1 to 16 rows
  ends; it first warms up every row three times and times one calibration call, then visits the rows in
  five rounds, each a permutation of all rows; at a visit it makes the calibrated number of calls; a call
  runs only the work between the two clock readings and verifies its output after the second, before
  the next call. Every row ends with a batch size within 1 and 512 and five samples of each clock.
\<close>

theorem sweep_trace:
  fixes ratio :: "u128 \<Rightarrow> usize \<Rightarrow> 'a"
  assumes "1 \<le> n" "n \<le> 16" and "advancing tick"
  shows "\<exists>sw. sample_rows ratio (log_clock tick) (log_work out) log_verify n []
        = Some (sw, concat (map calibration_events [0..<n]) @ concat (map (batch_events (sweep_rows sw)) (sweep_order sw)))
      \<and> length (sweep_rows sw) = n \<and> list_all (sampled 5) (sweep_rows sw)
      \<and> length (chunks n (sweep_order sw)) = 5
      \<and> list_all (\<lambda>rows. mset rows = mset [0..<n]) (chunks n (sweep_order sw))"
proof -
  obtain xs :: "'a samples list" where xs: "calibrate_rows (log_clock tick) (log_work out) log_verify [0..<n] []
      = Some (xs, concat (map calibration_events [0..<n]))"
    using calibrate_rows_log [OF assms(3), of out "[0..<n]" "[]"] by auto
  note c = calibrate_rows_sampled [OF xs]
  obtain ys where ys: "sample_order ratio (log_clock tick) (log_work out) log_verify (visiting_order n) xs
        (concat (map calibration_events [0..<n]))
      = Some (ys, concat (map calibration_events [0..<n]) @ concat (map (batch_events xs) (visiting_order n)))"
    using sample_order_log [OF assms(3), of xs] c visiting_order_rows [OF assms(1)]
    by (fastforce simp: list_all_length sampled_def)
  have "map (batch_events xs) (visiting_order n) = map (batch_events ys) (visiting_order n)"
    using sample_order_appends(2) [OF ys] visiting_order_rows [OF assms(1)] c by (simp add: batch_events_def)
  with xs ys assms(1,2) have run: "sample_rows ratio (log_clock tick) (log_work out) log_verify n []
      = Some (\<lparr>sweep_rows = ys, sweep_order = visiting_order n\<rparr>,
          concat (map calibration_events [0..<n]) @ concat (map (batch_events ys) (visiting_order n)))"
    by (simp add: sample_rows_def)
  have "list_all (\<lambda>rows. mset rows = mset [0..<n]) (chunks n (visiting_order n))"
    unfolding chunks_visiting_order [OF assms(1)] by (auto simp only: list_all_iff set_map round_permutation)
  with run sample_rows_sampled [OF run] chunks_visiting_order [OF assms(1)] show ?thesis by simp
qed

text \<open>Three rows and a clock that reads one second and then 200 microseconds of processor time.\<close>

theorem sweep_trace_witness:
  "\<exists>sw. sample_rows (\<lambda>total n. unat total div n)
      (log_clock (\<lambda>s. (1000000000, if length s < 20 then 1000000000 else 200000)))
      (log_work (\<lambda>row s. row)) log_verify 3 [] = Some (sw, concat (map calibration_events [0..<3])
        @ concat (map (batch_events (sweep_rows sw)) (sweep_order sw)))"
proof -
  have "advancing (\<lambda>s. (1000000000, if length s < 20 then 1000000000 else 200000))"
    by (simp add: advancing_def)
  from sweep_trace [OF _ _ this, of 3 "\<lambda>total n. unat total div n" "\<lambda>row s. row"]
  show ?thesis by auto
qed

section \<open>Lemmas on the run\<close>

lemma make_fixtures_made:
  "make_fixtures T seed ns = Some xs \<Longrightarrow> list_all2 (\<lambda>n x. make_fixture T seed n = Some x) ns xs"
  by (induction ns arbitrary: xs) (auto simp: Option.bind_eq_Some_conv)

lemma make_fixture_fields:
  assumes "make_fixture T seed n = Some x"
  shows "fx_size x = n \<and> length (fx_source x) = n \<and> fx_target x = scattered (fx_source x)
    \<and> oracle_tool T (fx_source x) (fx_target x) = Some (True, fx_patch x)"
  using assms by (auto simp: make_fixture_def seeded_bytes_def provider_bytes_def Option.bind_eq_Some_conv split: if_splits)

text \<open>The edits of a fixture: every 4093rd byte differs, the others are kept.\<close>

lemma scattered_nth:
  assumes "i < length source"
  shows "scattered source ! i = source ! i \<longleftrightarrow> i mod 4093 \<noteq> 0"
proof -
  have "bit (b XOR 1) 0 \<noteq> bit b 0" for b :: u8 by (simp add: bit_xor_iff)
  then have "b XOR 1 \<noteq> b" for b :: u8 by metis
  then show ?thesis using assms by (simp add: scattered_def nth_enumerate_eq)
qed

lemma fixture_sizes: "make_fixtures T seed ns = Some xs \<Longrightarrow> map fx_size xs = ns"
  by (induction ns arbitrary: xs) (auto simp: Option.bind_eq_Some_conv dest: make_fixture_fields)

lemma rounds_permute:
  assumes "1 \<le> length xs"
  shows "list_all (\<lambda>round. mset round = mset (map f xs))
    (map (map (\<lambda>i. f (xs ! i))) (chunks (length xs) (visiting_order (length xs))))"
proof -
  have "mset (map (\<lambda>i. f (xs ! i)) rows) = mset (map f xs)" if "mset rows = mset [0..<length xs]" for rows
  proof -
    have "mset (map (\<lambda>i. f (xs ! i)) rows) = mset (map (\<lambda>i. f (xs ! i)) [0..<length xs])"
      by (simp only: mset_map that)
    also have "map (\<lambda>i. f (xs ! i)) [0..<length xs] = map f xs" by (rule nth_equalityI) simp_all
    finally show ?thesis .
  qed
  then show ?thesis
    unfolding chunks_visiting_order [OF assms] by (simp only: list_all_iff set_map) (blast intro: round_permutation)
qed

definition sample_tools :: "nat tools" where
  "sample_tools = \<lparr>random_tool = \<lambda>seed n. Some (True, replicate n 7),
     oracle_tool = \<lambda>source target. Some (True, header_encode \<lparr>source_hash = padded_hash source,
        target_hash = padded_hash target, source_len = as_u64 (length source), target_len = as_u64 (length target)\<rparr> @ target),
     native_parameters = \<lambda>n. Some n, scratch_is_new = True\<rparr>"

definition sample_clock :: "(unit, unit) clock" where
  "sample_clock = \<lparr>clock_start = \<lambda>s. Some ((), s), clock_elapsed = \<lambda>_ s. Some ((100000000, 100000000), s)\<rparr>"

definition sample_fixture :: "nat fixture" where
  "sample_fixture = \<lparr>fx_size = 1, fx_source = [7], fx_target = [6],
     fx_patch = header_encode \<lparr>source_hash = padded_hash [7], target_hash = padded_hash [6],
        source_len = 1, target_len = 1\<rparr> @ [6], fx_parameters = 1\<rparr>"

lemma make_sample_fixture: "make_fixture sample_tools seed 1 = Some sample_fixture"
  by (simp add: make_fixture_def sample_tools_def sample_fixture_def seeded_bytes_def provider_bytes_def scattered_def as_u64_def)

lemma execute_sample_fixture:
  "execute (\<lambda>_. True) stored_native padded_hash Encode (fx_source sample_fixture) (fx_target sample_fixture) (fx_patch sample_fixture)
     = Some (fx_patch sample_fixture)"
  by code_simp

definition sample_sweep :: "nat sweep" where
  "sample_sweep = (let five = [100000000, 100000000, 100000000, 100000000, 100000000] in
     \<lparr>sweep_rows = [\<lparr>iterations = 1, wall_samples = five, cpu_samples = five\<rparr>], sweep_order = [0, 0, 0, 0, 0]\<rparr>)"

lemma sample_rows_sample:
  assumes "\<And>s. work 0 s = Some (t, s)" and "\<And>s. verify 0 t s = Some s"
  shows "sample_rows (\<lambda>total n. unat total div n) sample_clock work verify 1 () = Some (sample_sweep, ())"
proof -
  have "visiting_order 1 = [0, 0, 0, 0, 0]" by code_simp
  then show ?thesis
    by (simp add: sample_rows_def calibrate_row_def numeral_3_eq_3 timed_call_def sample_clock_def assms sample_sweep_def
      calibrated_iterations_def div_ceil_def TARGET_SAMPLE_NS_def MAX_ITERATIONS_def sample_row_def Let_def)
qed

lemma sample_sizes: "those (map parse_usize (split_on 44 (ascii ''1''))) = Some [1]"
  by code_simp

lemma sample_run:
  "\<exists>rep. measurement_run (\<lambda>_. True) stored_native padded_hash (\<lambda>total n. unat total div n) sample_clock sample_tools False
    [ascii ''encode'', ascii ''1'', ascii ''41''] () = Some (rep, ())"
proof -
  have "sample_rows (\<lambda>total n. unat total div n) sample_clock
      (\<lambda>i s. let x = [sample_fixture] ! i in map_option (\<lambda>t. (t, s)) (execute (\<lambda>_. True) stored_native padded_hash Encode
         (fx_source x) (fx_target x) (fx_patch x)))
      (\<lambda>i t s. if t = expected_output Encode ([sample_fixture] ! i) then Some s else None) 1 () = Some (sample_sweep, ())"
    by (rule sample_rows_sample) (simp_all add: execute_sample_fixture expected_output_def)
  moreover have "scratch_is_new sample_tools" by (simp add: sample_tools_def)
  ultimately show ?thesis
    by (simp add: measurement_run_def operation_all_def sample_sizes [simplified] make_sample_fixture [simplified])
qed

text \<open>C22. A measurement is reported only for correct work: if the run prints a report, then the named
  operation was found, the sizes were parsed (at most 16 of them), every fixture was made from the
  seed with a target that differs in every 4093rd byte and a patch by the reference program, and for
  every fixture the library's output equals the reference (the patch when encoding, the target when
  applying). The report has one row per size in the order of the arguments, with five samples of each
  clock, and five rounds that each visit all sizes.
\<close>

theorem measurement_run_correct:
  assumes "measurement_run mem N H ratio C T debug [name, sizes, seed] s = Some (rep, s')"
  shows "\<exists>op ns xs. report_operation rep = operation_name op \<and> operation_name op = name
      \<and> those (map parse_usize (split_on 44 sizes)) = Some ns \<and> length ns \<le> 16
      \<and> list_all2 (\<lambda>n x. make_fixture T seed n = Some x) ns xs
      \<and> list_all (\<lambda>x. fx_target x = scattered (fx_source x)
          \<and> oracle_tool T (fx_source x) (fx_target x) = Some (True, fx_patch x)
          \<and> execute mem N H op (fx_source x) (fx_target x) (fx_patch x) = Some (expected_output op x)) xs
      \<and> list_all2 (\<lambda>x row. row_size row = fx_size x \<and> row_patch_bytes row = length (fx_patch x)
          \<and> sampled 5 (row_samples row)) xs (report_rows rep)
      \<and> length (report_order rep) = 5 \<and> list_all (\<lambda>round. mset round = mset ns) (report_order rep)"
proof -
  obtain op ns xs sw where op: "find (\<lambda>op. operation_name op = name) operation_all = Some op"
      and ns: "those (map parse_usize (split_on 44 sizes)) = Some ns"
      and xs: "make_fixtures T seed ns = Some xs"
      and sw: "sample_rows ratio C
            (\<lambda>i s. let x = xs ! i in
               map_option (\<lambda>t. (t, s)) (execute mem N H op (fx_source x) (fx_target x) (fx_patch x)))
            (\<lambda>i t s. if t = expected_output op (xs ! i) then Some s else None) (length xs) s = Some (sw, s')"
      and rep: "rep = \<lparr>report_operation = operation_name op, report_seed = seed,
                 report_order = map (map (\<lambda>i. fx_size (xs ! i))) (chunks (length xs) (sweep_order sw)),
                 report_rows = map (\<lambda>(x, y). report_row_of x y) (zip xs (sweep_rows sw))\<rparr>"
    using assms by (auto simp: measurement_run_def Option.bind_eq_Some_conv split: if_splits)
  note made = make_fixtures_made [OF xs]
  have n: "1 \<le> length xs" "length xs \<le> 16" using sw by (auto simp: sample_rows_def split: if_splits)
  have "execute mem N H op (fx_source x) (fx_target x) (fx_patch x) = Some (expected_output op x)" if x: "x \<in> set xs" for x
  proof -
    obtain i where i: "i < length xs" "x = xs ! i" using x by (auto simp: in_set_conv_nth)
    from sample_rows_verified [OF sw i(1)] show ?thesis
      by (auto simp: verified_def Let_def i(2) split: if_splits)
  qed
  moreover have "fx_target x = scattered (fx_source x)" "oracle_tool T (fx_source x) (scattered (fx_source x)) = Some (True, fx_patch x)"
    if "x \<in> set xs" for x
    using that made by (auto simp: in_set_conv_nth list_all2_conv_all_nth dest!: make_fixture_fields)
  moreover have "list_all2 (\<lambda>x row. row_size row = fx_size x \<and> row_patch_bytes row = length (fx_patch x)
          \<and> sampled 5 (row_samples row)) xs (report_rows rep)"
    using sample_rows_sampled [OF sw] by (simp add: rep report_row_of_def list_all2_conv_all_nth list_all_length)
  moreover have "length (report_order rep) = 5" "list_all (\<lambda>round. mset round = mset ns) (report_order rep)"
    using sample_rows_sampled [OF sw] rounds_permute [OF n(1), of fx_size] fixture_sizes [OF xs]
    by (auto simp: rep chunks_visiting_order [OF n(1)])
  moreover have "operation_name op = name" using op by (auto simp: find_Some_iff)
  moreover have "length ns = length xs" using made by (simp add: list_all2_lengthD)
  ultimately show ?thesis
    using ns made n(2) by (intro exI [of _ op] exI [of _ ns] exI [of _ xs]) (auto simp: rep list_all_iff)
qed

theorem measurement_run_correct_witness:
  "\<exists>rep op ns xs. measurement_run (\<lambda>_. True) stored_native padded_hash (\<lambda>total n. unat total div n) sample_clock sample_tools
      False [ascii ''encode'', ascii ''1'', ascii ''41''] () = Some (rep, ())
    \<and> report_operation rep = operation_name op
    \<and> list_all2 (\<lambda>n x. make_fixture sample_tools (ascii ''41'') n = Some x) ns xs
    \<and> list_all (\<lambda>round. mset round = mset ns) (report_order rep)"
proof -
  obtain rep where run: "measurement_run (\<lambda>_. True) stored_native padded_hash (\<lambda>total n. unat total div n) sample_clock
      sample_tools False [ascii ''encode'', ascii ''1'', ascii ''41''] () = Some (rep, ())"
    using sample_run by blast
  from measurement_run_correct [OF run] run show ?thesis by blast
qed

end
