(* ===== verification/Consumer_Main.thy ===== *)
theory Consumer_Main
  imports Consumer_Measurement Metadata_Decode
begin

text \<open>
  The consumer program (\<open>rust/consumer/src/main.rs\<close>): its four modes and the self-check that applies
  patches to right and wrong sources and, on request, drives the library out of memory. A panic is
  \<open>None\<close>; a run that returns gives what it printed. The text of the native parameter file, which the
  build produces, is the parameter \<open>native_params\<close>; the printed JSON is kept as the value it shows.
  The allocator answers the fallible requests of the library. The program's own infallible allocations
  (\<open>vec!\<close>, \<open>to_vec\<close>, \<open>format!\<close>), which would abort the process when refused, are taken as granted; the
  largest is the attribute value of 64 MiB.
\<close>

datatype ('p, 'j, 'f) printed = Native_Parameters 'p | Declarations "(bytes \<times> bytes) list"
  | Report "('j, 'f) report" | Pass_Allocation | Pass_Round_Trip

section \<open>The self-check\<close>

definition assert_that :: "bool \<Rightarrow> unit option" where
  "assert_that b = (if b then Some () else None)"

definition is_err :: "'e + 'a \<Rightarrow> bool" where
  "is_err r = (case r of Inl _ \<Rightarrow> True | Inr _ \<Rightarrow> False)"

definition check_source :: bytes where
  "check_source = ascii ''binary'' @ [0] @ ascii ''source'' @ [0xff]"

definition check_target :: bytes where
  "check_target = ascii ''binary'' @ [0] @ ascii ''TARGET'' @ [0x80, 0]"

definition huge_patch :: "header \<Rightarrow> bytes \<Rightarrow> bytes" where
  "huge_patch header frame = header_encode (header\<lparr>target_len := push_bit 30 1\<rparr>) @ frame"

definition wrong_source :: bytes where
  "wrong_source = check_source[0 := check_source ! 0 XOR 1]"

definition round_trip_check :: "allocator \<Rightarrow> ('c, 'd) native \<Rightarrow> hasher \<Rightarrow> bytes option" where
  "round_trip_check mem N H = do {
     patch \<leftarrow> unwrap (file_encode mem N H check_source check_target);
     output \<leftarrow> unwrap (file_apply mem N H check_source patch 0);
     assert_that (output = check_target);
     assert_that (is_err (file_apply mem N H (ascii ''wrong source'') patch 0));
     (header, frame) \<leftarrow> unwrap (header_decode_prefix patch);
     let huge = huge_patch header frame;
     assert_that (file_apply mem N H wrong_source huge 0 = Inl SourceHashMismatch);
     assert_that (file_apply mem N H check_source huge 1 = Inl ResourceLimitExceeded);
     Some huge
   }"

text \<open>\<open>format!("alias-{index:02}")\<close> for an index below 100.\<close>

definition alias_name :: "nat \<Rightarrow> bytes" where
  "alias_name index = ascii ''alias-'' @ [48 + of_nat (index div 10), 48 + of_nat (index mod 10)]"

definition alias_attributes :: "xattr list" where
  "alias_attributes = rev (map (\<lambda>index. \<lparr>x_class = Logical, x_name = alias_name index,
     x_value = replicate (64 * 2 ^ 20) 0\<rparr>) [0..<64])"

definition allocation_check :: "allocator \<Rightarrow> ('c, 'd) native \<Rightarrow> hasher \<Rightarrow> bytes \<Rightarrow> unit option" where
  "allocation_check mem N H huge = do {
     assert_that (file_apply mem N H check_source huge 0 = Inl file_error.OutOfMemory);
     metadata \<leftarrow> unwrap (metadata_normalize (metadata_default\<lparr>xattrs := alias_attributes\<rparr>) 0);
     assert_that (metadata_encode mem metadata = Inl meta_error.OutOfMemory);
     assert_that (metadata_decode mem (le_bytes (- 1 :: u32)) = Inl TruncatedMetadata)
   }"

section \<open>The program\<close>

definition consumer_main ::
  "allocator \<Rightarrow> ('c, 'd) native \<Rightarrow> hasher \<Rightarrow> (u128 \<Rightarrow> usize \<Rightarrow> 'f) \<Rightarrow> ('k, 's) clock \<Rightarrow> 'j tools \<Rightarrow> bool \<Rightarrow> 'p
    \<Rightarrow> bytes list \<Rightarrow> 's \<Rightarrow> (('p, 'j, 'f) printed list \<times> 's) option" where
  "consumer_main mem N H ratio C T debug native_params args s =
     (case args of
        [] \<Rightarrow> do { round_trip_check mem N H; Some ([Pass_Round_Trip], s) }
      | mode # rest \<Rightarrow>
          if mode = ascii ''--native-parameters'' then Some ([Native_Parameters native_params], s)
          else if mode = ascii ''--declarations''
          then Some ([Declarations (map (\<lambda>op. (operation_name op, expected_model op)) operation_all)], s)
          else if mode = ascii ''--measure''
          then map_option (\<lambda>(rep, s). ([Report rep], s)) (measurement_run mem N H ratio C T debug rest s)
          else do {
            huge \<leftarrow> round_trip_check mem N H;
            if mode = ascii ''--allocation-proof''
            then do { allocation_check mem N H huge; Some ([Pass_Allocation, Pass_Round_Trip], s) }
            else Some ([Pass_Round_Trip], s)
          })"

section \<open>Lemmas on the self-check\<close>

lemma assert_that_simps [simp]: "assert_that True = Some ()" "assert_that False = None"
  by (simp_all add: assert_that_def)

lemma check_lengths [simp]:
  "length check_source = 14" "length check_target = 15" "length wrong_source = 14"
  by (simp_all add: check_source_def check_target_def wrong_source_def ascii_def)

lemma wrong_source_differs: "wrong_source \<noteq> check_source"
  by (simp add: wrong_source_def check_source_def ascii_def)

definition check_header :: "hasher \<Rightarrow> header" where
  "check_header H = \<lparr>source_hash = H check_source, target_hash = H check_target, source_len = 14, target_len = 15\<rparr>"

lemma check_header_select [simp]:
  "source_hash (check_header H) = H check_source" "source_len (check_header H) = 14"
  "target_len (check_header H) = 15"
  by (simp_all add: check_header_def)

lemma header_of_patch:
  assumes "file_encode mem N H check_source check_target = Inr patch" and "hash_width H"
  obtains frame where "header_decode_prefix patch = Inr (check_header H, frame)"
    and "header_decode_prefix (huge_patch (check_header H) frame) = Inr (check_header H\<lparr>target_len := 2 ^ 30\<rparr>, frame)"
proof -
  from file_encode_Inr [OF assms(1)] obtain frame where "patch = header_encode (check_header H) @ frame"
    by (auto simp: check_header_def as_u64_def)
  moreover have "header_typed (check_header H)" "header_typed (check_header H\<lparr>target_len := 2 ^ 30\<rparr>)"
    using assms(2) by (simp_all add: header_typed_def check_header_def hash_width_def)
  ultimately show thesis
    using that header_roundtrip [of _ frame] by (simp add: huge_patch_def push_bit_eq_mult)
qed

lemma round_trip_check_passes:
  assumes law: "zstd_prefix_frames N" and dec: "decoder_for N check_source d" and width: "hash_width H"
    and collision_free: "H wrong_source \<noteq> H check_source" and mem: "mem 15"
    and enc: "file_encode mem N H check_source check_target = Inr patch"
  obtains frame where "round_trip_check mem N H = Some (huge_patch (check_header H) frame)"
    and "header_decode_prefix (huge_patch (check_header H) frame) = Inr (check_header H\<lparr>target_len := 2 ^ 30\<rparr>, frame)"
proof -
  obtain frame where h: "header_decode_prefix patch = Inr (check_header H, frame)"
    and huge: "header_decode_prefix (huge_patch (check_header H) frame) = Inr (check_header H\<lparr>target_len := 2 ^ 30\<rparr>, frame)"
    by (rule header_of_patch [OF enc width])
  have "file_apply mem N H check_source patch 0 = Inr check_target"
    using law dec width _ _ _ _ enc by (rule file_roundtrip) (simp_all add: mem in_memory_def)
  moreover have "file_apply mem N H (ascii ''wrong source'') patch 0 = Inl SizeMismatch"
    by (simp add: file_apply_def h as_u64_def ascii_def)
  moreover have "file_apply mem N H wrong_source (huge_patch (check_header H) frame) 0 = Inl SourceHashMismatch"
    using collision_free by (simp add: file_apply_def huge as_u64_def)
  moreover have "file_apply mem N H check_source (huge_patch (check_header H) frame) 1 = Inl ResourceLimitExceeded"
    by (simp add: file_apply_def huge as_u64_def)
  ultimately have "round_trip_check mem N H = Some (huge_patch (check_header H) frame)"
    by (simp add: round_trip_check_def enc h is_err_def Let_def)
  then show thesis using huge by (rule that)
qed

text \<open>The 64 names are valid and distinct.\<close>

lemma digit_word: "n < 10 \<Longrightarrow> unat (48 + of_nat n :: u8) = 48 + n"
  by (simp add: unat_word_ariths unat_of_nat)

lemma digit_plain:
  assumes "n < 10"
  defines "a \<equiv> 48 + of_nat n :: u8"
  shows "a \<notin> set FORBIDDEN" "a < 0x80" "\<not> a < 0x20" "a \<noteq> 0x7f" "a \<noteq> 32" "a \<noteq> 46"
  using digit_word [OF assms(1)] assms unfolding a_def FORBIDDEN_def
  by (auto simp: word_less_nat_alt word_unat_eq_iff ascii_def)

lemma alias_name_inj:
  assumes "i < 64" "j < 64" and "alias_name i = alias_name j"
  shows "i = j"
proof -
  have "unat (48 + of_nat (i div 10) :: u8) = unat (48 + of_nat (j div 10) :: u8)"
    "unat (48 + of_nat (i mod 10) :: u8) = unat (48 + of_nat (j mod 10) :: u8)"
    using assms(3) by (simp_all add: alias_name_def)
  then have "i div 10 = j div 10" "i mod 10 = j mod 10" using assms(1,2) by (simp_all add: digit_word)
  then show ?thesis by (metis div_mult_mod_eq)
qed

lemma alias_name_length: "length (alias_name i) = 8"
  by (simp add: alias_name_def ascii_def)

lemma alias_name_valid:
  assumes "i < 64"
  shows "validate_xattr_name Logical (alias_name i) = Inr ()"
proof -
  obtain a b where name: "alias_name i = [97, 108, 105, 97, 115, 45, a, b]"
      and ab: "a = 48 + of_nat (i div 10)" "b = 48 + of_nat (i mod 10)"
    by (simp add: alias_name_def ascii_def)
  have d: "i div 10 < 10" "i mod 10 < 10" using assms by auto
  have "list_all (\<lambda>c. c \<notin> set FORBIDDEN) [97, 108, 105, 97, 115, 45]" by code_simp
  with digit_plain [OF d(1), folded ab(1)] digit_plain [OF d(2), folded ab(2)] show ?thesis
    by (simp add: name validate_xattr_name_def validate_logical_name_def is_transport_name_def TRANSPORT_NAMES_def
        strip_prefix_def starts_with_def ascii_def ends_with_def has_prefix_ignoring_case_def get_range_def
        eq_ignore_ascii_case_def to_ascii_lowercase_def from_utf8_ok_def)
qed

text \<open>The record is accepted; its encoding is longer than 4 GiB.\<close>

definition alias_metadata :: metadata where
  "alias_metadata = normal_form (metadata_default\<lparr>xattrs := alias_attributes\<rparr>)"

lemma alias_attribute_fields:
  "length alias_attributes = 64"
  "x \<in> set alias_attributes \<Longrightarrow> length (print_xattr x) = 2 ^ 26 + 17 \<and> check_xattr x = Inr ()"
  "distinct (map xattr_key alias_attributes)"
proof -
  show "length alias_attributes = 64" by (simp add: alias_attributes_def)
  show "length (print_xattr x) = 2 ^ 26 + 17 \<and> check_xattr x = Inr ()" if "x \<in> set alias_attributes"
    using that by (auto simp: alias_attributes_def check_xattr_def alias_name_valid wire_length_Inr print_xattr_def
        print_blob_def alias_name_length)
  show "distinct (map xattr_key alias_attributes)"
    by (auto simp: alias_attributes_def rev_map [symmetric] distinct_map xattr_key_def o_def inj_on_def intro: alias_name_inj)
qed

lemma alias_metadata_normal:
  "metadata_normalize (metadata_default\<lparr>xattrs := alias_attributes\<rparr>) 0 = Inr alias_metadata"
  using alias_attribute_fields
  by (simp add: metadata_normalize_iff alias_metadata_def normalizable_def metadata_default_def times_default_def
      time_values_def List.map_filter_def)

lemma alias_metadata_length: "length (print_metadata alias_metadata) = 64 * (2 ^ 26 + 17) + 20"
proof -
  let ?xs = "sort_key xattr_key alias_attributes"
  have "length (concat (map print_xattr ?xs)) = sum_list (map (\<lambda>x. 2 ^ 26 + 17) ?xs)"
    unfolding length_concat map_map o_def
    by (rule arg_cong [of _ _ sum_list], rule map_cong) (use alias_attribute_fields(2) in auto)
  then have "length (concat (map print_xattr ?xs)) = 64 * (2 ^ 26 + 17)"
    by (simp add: sum_list_triv alias_attribute_fields(1))
  then show ?thesis
    by (simp add: alias_metadata_def normal_form_def metadata_default_def times_default_def print_metadata_def
        print_vector_def print_native_acl_def print_times_def print_flagged_time_def print_option_def merge_holes_def)
qed

lemma huge_metadata_refused:
  "\<forall>n\<ge>2 ^ 30. \<not> mem n \<Longrightarrow> metadata_encode mem alias_metadata = Inl meta_error.OutOfMemory"
  using metadata_encoded_len_iff [of alias_metadata "64 * (2 ^ 26 + 17) + 20"] alias_metadata_length
  by (simp add: metadata_encode_def reserve_def)

lemma huge_count_refused: "metadata_decode mem (le_bytes (- 1 :: u32)) = Inl TruncatedMetadata"
proof -
  have "le_bytes (- 1 :: u32) = [255, 255, 255, 255]" by code_simp
  moreover have "le_word [255, 255, 255, 255] = (- 1 :: u32)" by code_simp
  ultimately show ?thesis
    by (simp add: metadata_decode_def read_metadata_def reader_vector_def reader_u32_def reader_take_def read_from_def
      checked_add_usize_def get_range_def)
qed

lemma allocation_check_passes:
  assumes huge: "header_decode_prefix huge = Inr (check_header H\<lparr>target_len := 2 ^ 30\<rparr>, frame)"
    and mem: "\<forall>n\<ge>2 ^ 30. \<not> mem n"
  shows "allocation_check mem N H huge = Some ()"
proof -
  obtain w where "window_log 14 (2 ^ 30) = Inr w" using window_log_Inr [of 14 "2 ^ 30"] by auto
  then have "file_apply mem N H check_source huge 0 = Inl file_error.OutOfMemory"
    using mem by (simp add: file_apply_def huge as_u64_def file_window_log_def decode_def reserve_def)
  then show ?thesis
    using mem by (simp add: allocation_check_def alias_metadata_normal huge_metadata_refused huge_count_refused)
qed

section \<open>Properties of the consumer\<close>

text \<open>C21. The self-check holds of the library. If the compressor returns a patch for the two fixed
  byte strings, the memory for the target is granted, the zstd library honours its contract, and the
  hash is 32 bytes wide and does not collide on the altered source, then the program passes without
  a flag. When moreover no request of 1 GiB or more is granted, \<open>--allocation-proof\<close> passes too:
  the inflated patch, the 4 GiB metadata record and the truncated attribute count are refused with
  an error, and nothing panics.
\<close>

theorem consumer_passes:
  assumes "zstd_prefix_frames N" and "decoder_for N check_source d" and "hash_width H"
    and "H wrong_source \<noteq> H check_source" and "mem 15"
    and "file_encode mem N H check_source check_target = Inr patch"
  shows "consumer_main mem N H ratio C T debug native_params [] s = Some ([Pass_Round_Trip], s)
    \<and> ((\<forall>n\<ge>2 ^ 30. \<not> mem n) \<longrightarrow> consumer_main mem N H ratio C T debug native_params [ascii ''--allocation-proof''] s
          = Some ([Pass_Allocation, Pass_Round_Trip], s))"
proof -
  obtain frame where "round_trip_check mem N H = Some (huge_patch (check_header H) frame)"
    and huge: "header_decode_prefix (huge_patch (check_header H) frame) = Inr (check_header H\<lparr>target_len := 2 ^ 30\<rparr>, frame)"
    by (rule round_trip_check_passes [OF assms])
  with allocation_check_passes [OF huge, of mem N] show ?thesis by (auto simp: consumer_main_def ascii_def)
qed

theorem consumer_passes_witness:
  "consumer_main (\<lambda>n. n < 1000) stored_native padded_hash (\<lambda>total n. unat total div n) sample_clock sample_tools True ()
      [ascii ''--allocation-proof''] () = Some ([Pass_Allocation, Pass_Round_Trip], ())"
proof -
  have enc: "file_encode (\<lambda>n. n < 1000) stored_native padded_hash check_source check_target
      = Inr (header_encode (check_header padded_hash) @ check_target)"
    by code_simp
  have differ: "padded_hash wrong_source \<noteq> padded_hash check_source"
    by (simp add: padded_hash_def wrong_source_def check_source_def ascii_def)
  from consumer_passes [OF stored_native_frames stored_native_decoder padded_hash_width differ _ enc,
      of "\<lambda>total n. unat total div n" sample_clock sample_tools True "()" "()"]
  show ?thesis by simp
qed

end
