(* ===== verification/Spec2Isabelle.thy ===== *)
theory Spec2Isabelle
  imports Metadata_Restore Tree_Patch_Correct Linux_Acl Symlink_Transport C_Api Platform_Xattr Consumer_Main
begin

text \<open>
  A verification of the Rust implementation of difz, a binary differ for files and directory trees
  (all paths below are under \<open>src/rust\<close>).

  \<^bold>\<open>The program.\<close> A file patch (\<open>src/file.rs\<close>) is an 85-byte header, which names source and target by
  length and BLAKE3 hash, followed by one zstd frame that was compressed with the source as prefix
  (\<open>zstdz\<close>). A tree patch (\<open>src/tree_patch*.rs\<close>) is a checksummed envelope around filter rules, one
  record per entry of the target tree and the metadata of the root. An entry record carries an
  operation (directory, symlink, raw file, copy of the source file, file patch against the source
  file, hard link) and the canonical metadata of the entry (\<open>src/metadata*.rs\<close>). Trees are canonical
  snapshots (\<open>src/directory*.rs\<close>): sorted, closed under parents, with contained symlinks, zero extents
  and hard links to earlier equal files; their identity is a hash. Around this core are ordered path
  filters (\<open>src/path_filter.rs\<close>), metadata restoration (\<open>src/metadata_restore.rs\<close>,
  \<open>src/attribute_name.rs\<close>), Linux ACLs (\<open>src/linux_acl.rs\<close>), the transport of symlink metadata
  (\<open>src/symlink_transport.rs\<close>), a C interface (\<open>c-api\<close>), the filesystem layer (\<open>platform\<close>)
  and a program that checks and measures the library as a dependent crate does (\<open>consumer\<close>).

  \<^bold>\<open>The theories\<close>, each with the definitions of its source files in their order, then the lemmas, then
  the properties (their text starts with the number of the property):
  \<^item> \<open>Difz_Prelude\<close>: bytes, machine integers, results and the \<open>?\<close> operator, allocation, slices,
    little-endian integers, UTF-8. \<open>Rust_Loop\<close>: a loop with early return, with its two proof rules.
  \<^item> \<open>Wire_Codec\<close>: the bounds-checked reader and the locale \<open>wire_codec\<close>, the contract of a parser
    that accepts exactly the printed values; every record parser of the program interprets it, and
    the codecs of larger formats are composed from the interpretations.
  \<^item> \<open>Ordered_Search\<close>: the binary search of the standard library and the locale \<open>keyed_lookup\<close>, the
    contract that path and name lookups rely on.
  \<^item> \<open>Zstd_Frame\<close> (\<open>zstdz/src/lib.rs\<close>) and \<open>Zdif_File\<close> (\<open>src/lib.rs\<close>, \<open>src/file.rs\<close>): window
    arithmetic, parameter list, encode and apply. Shown: apply inverts encode, a wrong source is
    refused, what any successful apply guarantees.
  \<^item> \<open>Tree_Path\<close> (\<open>src/directory.rs\<close>): path grammar; symlink containment.
  \<^item> \<open>Path_Filter\<close>: globs and filters; the row automaton and the one-pass bracket scan agree with
    their declarative meaning.
  \<^item> \<open>Metadata_Base\<close> (\<open>src/metadata.rs\<close>, \<open>src/metadata_record.rs\<close>), \<open>Metadata_Canonical\<close>,
    \<open>Metadata_Decode\<close> (with \<open>src/metadata_borrow.rs\<close>), \<open>Metadata_Restore\<close>: families and omission,
    validation, normalization, wire form, identity, borrowing projection, restore plans. Shown:
    validation is canonicity, normalization is unique and keeps the records, decoding inverts
    encoding, the borrowing projection is normalization, a plan restores what the table says.
  \<^item> \<open>Tree_Snapshot\<close> (\<open>src/directory_record.rs\<close>, \<open>directory_structure.rs\<close>, \<open>directory_canonical.rs\<close>):
    the snapshot invariant and the identity hash.
  \<^item> \<open>Tree_Envelope\<close>, \<open>Tree_Patch_Decode\<close>, \<open>Tree_Patch_Encode\<close>, \<open>Tree_Patch_Apply\<close>: the four files
    of the tree patch. \<open>Tree_Patch_Correct\<close> composes them: apply after create rebuilds the target,
    an accepted patch can only produce the tree it names, other sources and exceeded budgets are
    refused, and omitted metadata has no influence.
  \<^item> \<open>Linux_Acl\<close>, \<open>Symlink_Transport\<close>: exact acceptance, round trips with the kernel order, the 64 KiB
    bound on every allocator, and lookup.
  \<^item> \<open>C_Api\<close> (\<open>c-api/src/lib.rs\<close>): an explicit memory of bytes, buffer owners and output slots in
    which an access outside live memory is undefined and a failing step keeps what it has written.
    Shown: within the contract of the header file no call is undefined, failures leave the memory
    as it was, the output slot is written last, and encode, apply and free compose without a leak.
  \<^item> \<open>Platform_Files\<close>, \<open>Platform_Xattr\<close> (\<open>platform/src\<close>): the operating system is a record of system
    calls over an abstract world. Shown: bounded reads are exact, the growing-buffer loops end on
    every kernel (both interpret the locale \<open>growing_read\<close>), descriptors balance, a directory stream
    loses nothing silently, inspection returns well typed descriptions, and the attribute operations
    refine a map per object.
  \<^item> \<open>Consumer_Measurement\<close>, \<open>Consumer_Main\<close> (\<open>consumer/src\<close>): calibration and the interleaved sweep,
    generic in work, verification and clock; the measurement run; the self-check. A panic is
    \<open>None\<close>. Shown: the order of every clock reading, call and verification of a sweep, that a
    report means correct output on every fixture, and that the self-check, with its proof that large
    allocations fail recoverably, passes on the model of the library.

  \<^bold>\<open>Parameters.\<close> Code outside the repository is an argument: the zstd library (\<open>native\<close>, with the
  law \<open>zstd_prefix_frames\<close> that a frame decompresses with the prefix it was compressed with, and
  \<open>zstd_bounded_output\<close>), the BLAKE3 function (\<open>hasher\<close>, 32 bytes wide, collisions excluded by name
  and only on the hashed inputs where a theorem needs it), the allocator (a predicate, so that every
  \<open>OutOfMemory\<close> branch is present), the addresses of the C heap, the system calls, and the consumer's
  child processes and clocks. Every theorem with such a hypothesis has a witness on a concrete
  instance.

  \<^bold>\<open>Bounds.\<close> Integers have their width; \<open>usize\<close> is 64 bits; a slice is shorter than \<open>2 ^ 63\<close> bytes
  (\<open>in_memory\<close>, and \<open>snapshot_held\<close> for trees) where a theorem needs it, as Rust guarantees. No model
  uses fuel: loops are recursion with a measure, or \<open>rust_loop\<close>, where not returning is \<open>None\<close> and
  the theorems show \<open>Some\<close>.

  \<^bold>\<open>Not modelled.\<close> Of the files only \<open>Debug\<close> output, accessors, tests, the capacity of vectors beyond
  their length, the release of the zstd contexts when they are dropped, the abort of an infallible
  allocation that is refused, and the removal of the consumer's scratch directory are left out. The
  consumer's JSON text is kept as the value it shows, and its floating-point quotients are a parameter.
\<close>

end
